(* ===== verification/Rust_Prelude.thy ===== *)
theory Rust_Prelude
  imports Main "HOL-Library.Word" "HOL-Library.List_Lexorder" "HOL-Library.Product_Lexorder"
begin

text \<open>
  What the components share: the machine integers of the source (\<open>i64\<close>, \<open>i32\<close>, \<open>u32\<close>,
  \<open>usize\<close>), the ordered containers of Rust's standard library (\<open>BTreeMap\<close>, \<open>BTreeSet\<close>)
  as an abstract type of strictly sorted association lists, and generic facts on lists.

  \<^item> \<open>wrap_i64\<close>, \<open>wrap_u32\<close>, \<open>wrap_i32\<close> write out the two's complement wrap-around of the
    release profile; each comes with the fact that it is the identity inside its range.
  \<^item> \<open>('k, 'v) btree_map\<close> is a type definition over sorted association lists, so two maps
    are equal exactly when they hold the same entries and iteration is in key order.
  \<^item> the locale \<open>ordered_map\<close> is the contract the clients of \<open>BTreeMap\<close> rely on; it is
    interpreted on \<open>btree_map\<close>.
\<close>

named_theorems rust_int \<open>range and wrap-around facts of machine integers\<close>
named_theorems bm_entries \<open>the entries of each container operation\<close>

unbundle bit_operations_syntax

type_synonym u8 = "8 word"
type_synonym u16 = "16 word"
type_synonym u32 = "32 word"
type_synonym u64 = "64 word"
type_synonym bytes = "8 word list"

section \<open>Machine integers as integers with explicit wrap-around\<close>

definition i64_min :: int where
  "i64_min = - (2 ^ 63)"

definition i64_max :: int where
  "i64_max = 2 ^ 63 - 1"

definition in_i64 :: "int \<Rightarrow> bool" where
  "in_i64 x \<longleftrightarrow> i64_min \<le> x \<and> x \<le> i64_max"

definition wrap_i64 :: "int \<Rightarrow> int" where
  "wrap_i64 x = (x + 2 ^ 63) mod 2 ^ 64 - 2 ^ 63"

definition wrap_i32 :: "int \<Rightarrow> int" where
  "wrap_i32 x = (x + 2 ^ 31) mod 2 ^ 32 - 2 ^ 31"

definition in_i32 :: "int \<Rightarrow> bool" where
  "in_i32 x \<longleftrightarrow> - (2 ^ 31) \<le> x \<and> x < 2 ^ 31"

definition wrap_u32 :: "int \<Rightarrow> int" where
  "wrap_u32 x = x mod 2 ^ 32"

definition in_u32 :: "int \<Rightarrow> bool" where
  "in_u32 x \<longleftrightarrow> 0 \<le> x \<and> x < 2 ^ 32"

lemma wrap_i64_id [rust_int]: "in_i64 x \<Longrightarrow> wrap_i64 x = x"
  by (simp add: wrap_i64_def in_i64_def i64_min_def i64_max_def)

lemma wrap_i32_id [rust_int]: "in_i32 x \<Longrightarrow> wrap_i32 x = x"
  by (simp add: wrap_i32_def in_i32_def)

lemma wrap_u32_id [rust_int]: "in_u32 x \<Longrightarrow> wrap_u32 x = x"
  by (simp add: wrap_u32_def in_u32_def)

lemma in_i64_wrap [simp]: "in_i64 (wrap_i64 x)"
proof -
  have "0 \<le> (x + 2 ^ 63) mod 2 ^ 64 \<and> (x + 2 ^ 63) mod 2 ^ 64 < (2::int) ^ 64"
    by (simp del: power_numeral)
  then show ?thesis
    by (simp add: in_i64_def wrap_i64_def i64_min_def i64_max_def)
qed

lemma in_u32_wrap [simp]: "in_u32 (wrap_u32 x)"
  by (simp add: in_u32_def wrap_u32_def)

lemma in_i32_wrap [simp]: "in_i32 (wrap_i32 x)"
proof -
  have "0 \<le> (x + 2 ^ 31) mod 2 ^ 32 \<and> (x + 2 ^ 31) mod 2 ^ 32 < (2::int) ^ 32"
    by (simp del: power_numeral)
  then show ?thesis
    by (simp add: in_i32_def wrap_i32_def)
qed

lemma wrap_i64_overflow: "wrap_i64 (i64_max + 1) = i64_min"
  by (simp add: wrap_i64_def i64_max_def i64_min_def)

section \<open>Sorted association lists\<close>

fun al_insert :: "'k::linorder \<Rightarrow> 'v \<Rightarrow> ('k \<times> 'v) list \<Rightarrow> ('k \<times> 'v) list" where
  "al_insert k v [] = [(k, v)]"
| "al_insert k v ((k', v') # xs) =
     (if k < k' then (k, v) # (k', v') # xs
      else if k = k' then (k, v) # xs
      else (k', v') # al_insert k v xs)"

abbreviation al_sorted :: "('k::linorder \<times> 'v) list \<Rightarrow> bool" where
  "al_sorted xs \<equiv> sorted_wrt (<) (map fst xs)"

lemma set_al_insert_keys: "fst ` set (al_insert k v xs) = insert k (fst ` set xs)"
  by (induction k v xs rule: al_insert.induct) auto

lemma al_sorted_insert: "al_sorted xs \<Longrightarrow> al_sorted (al_insert k v xs)"
proof (induction k v xs rule: al_insert.induct)
  case (2 k v k' v' xs)
  then show ?case
    using set_al_insert_keys [of k v xs] by fastforce
qed simp

lemma map_of_al_insert: "map_of (al_insert k v xs) = (map_of xs)(k \<mapsto> v)"
  by (induction k v xs rule: al_insert.induct) (auto simp: fun_eq_iff)

lemma al_sorted_filter: "al_sorted xs \<Longrightarrow> al_sorted (filter P xs)"
  by (induction xs) auto

lemma al_sorted_distinct: "al_sorted xs \<Longrightarrow> distinct (map fst xs)"
  by (simp add: strict_sorted_iff)

lemma map_of_filter_key:
  "al_sorted xs \<Longrightarrow> map_of (filter (\<lambda>(k, _). P k) xs) k = (if P k then map_of xs k else None)"
  by (induction xs) (auto simp: map_of_eq_None_iff [THEN iffD2])

lemma al_sorted_eqI:
  assumes "al_sorted xs" "al_sorted ys" "map_of xs = map_of ys"
  shows "xs = ys"
proof -
  have "distinct (map fst xs)" "distinct (map fst ys)"
    using assms(1,2) by (auto intro: al_sorted_distinct)
  with assms(3) have "set xs = set ys"
    by (metis map_of_inject_set)
  moreover have "inj_on fst (set xs \<union> set ys)"
    using \<open>set xs = set ys\<close> \<open>distinct (map fst xs)\<close> by (simp add: distinct_map)
  ultimately show ?thesis
    using assms(1,2) map_sorted_distinct_set_unique [of fst xs ys]
    by (simp add: strict_sorted_iff)
qed

section \<open>BTreeMap and BTreeSet\<close>

typedef (overloaded) ('k, 'v) btree_map = "{xs :: ('k::linorder \<times> 'v) list. al_sorted xs}"
  morphisms bm_entries Abs_btree_map
  by (rule exI [of _ "[]"]) simp

setup_lifting type_definition_btree_map

lift_definition bm_empty :: "('k::linorder, 'v) btree_map" is "[]"
  by simp

lift_definition bm_insert :: "'k::linorder \<Rightarrow> 'v \<Rightarrow> ('k, 'v) btree_map \<Rightarrow> ('k, 'v) btree_map"
  is al_insert
  by (rule al_sorted_insert)

text \<open>\<open>retain\<close>: keep the entries that satisfy a predicate, in order.\<close>

lift_definition bm_retain :: "('k \<Rightarrow> 'v \<Rightarrow> bool) \<Rightarrow> ('k::linorder, 'v) btree_map \<Rightarrow> ('k, 'v) btree_map"
  is "\<lambda>P. filter (\<lambda>(k, v). P k v)"
  by (rule al_sorted_filter)

text \<open>Rewriting every value in place (\<open>values_mut\<close>, \<open>range_mut\<close>).\<close>

lift_definition bm_map :: "('k \<Rightarrow> 'v \<Rightarrow> 'w) \<Rightarrow> ('k::linorder, 'v) btree_map \<Rightarrow> ('k, 'w) btree_map"
  is "\<lambda>f. map (\<lambda>(k, v). (k, f k v))"
  by (simp add: comp_def case_prod_beta)

definition bm_get :: "('k::linorder, 'v) btree_map \<Rightarrow> 'k \<Rightarrow> 'v option" where
  "bm_get m k = map_of (bm_entries m) k"

definition bm_remove :: "'k::linorder \<Rightarrow> ('k, 'v) btree_map \<Rightarrow> ('k, 'v) btree_map" where
  "bm_remove k m = bm_retain (\<lambda>k' _. k' \<noteq> k) m"

definition bm_keys :: "('k::linorder, 'v) btree_map \<Rightarrow> 'k list" where
  "bm_keys m = map fst (bm_entries m)"

definition bm_values :: "('k::linorder, 'v) btree_map \<Rightarrow> 'v list" where
  "bm_values m = map snd (bm_entries m)"

definition bm_len :: "('k::linorder, 'v) btree_map \<Rightarrow> nat" where
  "bm_len m = length (bm_entries m)"

definition bm_is_empty :: "('k::linorder, 'v) btree_map \<Rightarrow> bool" where
  "bm_is_empty m \<longleftrightarrow> bm_entries m = []"

definition bm_contains :: "('k::linorder, 'v) btree_map \<Rightarrow> 'k \<Rightarrow> bool" where
  "bm_contains m k \<longleftrightarrow> bm_get m k \<noteq> None"

text \<open>\<open>split_off(k)\<close> leaves the keys below \<open>k\<close> and returns those from \<open>k\<close> on.\<close>

definition bm_split_off ::
    "'k::linorder \<Rightarrow> ('k, 'v) btree_map \<Rightarrow> ('k, 'v) btree_map \<times> ('k, 'v) btree_map" where
  "bm_split_off k m = (bm_retain (\<lambda>k' _. k' < k) m, bm_retain (\<lambda>k' _. k \<le> k') m)"

text \<open>\<open>append\<close> moves every entry of the second map into the first.\<close>

definition bm_append ::
    "('k::linorder, 'v) btree_map \<Rightarrow> ('k, 'v) btree_map \<Rightarrow> ('k, 'v) btree_map" where
  "bm_append m n = fold (\<lambda>(k, v). bm_insert k v) (bm_entries n) m"

definition bm_first :: "('k::linorder, 'v) btree_map \<Rightarrow> ('k \<times> 'v) option" where
  "bm_first m = (case bm_entries m of [] \<Rightarrow> None | e # _ \<Rightarrow> Some e)"

definition bm_last :: "('k::linorder, 'v) btree_map \<Rightarrow> ('k \<times> 'v) option" where
  "bm_last m = (case rev (bm_entries m) of [] \<Rightarrow> None | e # _ \<Rightarrow> Some e)"

type_synonym 'k btree_set = "('k, unit) btree_map"

abbreviation bs_insert :: "'k::linorder \<Rightarrow> 'k btree_set \<Rightarrow> 'k btree_set" where
  "bs_insert k s \<equiv> bm_insert k () s"

abbreviation bs_iter :: "'k::linorder btree_set \<Rightarrow> 'k list" where
  "bs_iter s \<equiv> bm_keys s"

abbreviation bs_contains :: "'k::linorder btree_set \<Rightarrow> 'k \<Rightarrow> bool" where
  "bs_contains s k \<equiv> bm_contains s k"

definition bs_extend :: "'k::linorder list \<Rightarrow> 'k btree_set \<Rightarrow> 'k btree_set" where
  "bs_extend ks s = fold bs_insert ks s"

instantiation btree_map :: (linorder, type) equal
begin

definition equal_btree_map :: "('a, 'b) btree_map \<Rightarrow> ('a, 'b) btree_map \<Rightarrow> bool" where
  "equal_btree_map m n \<longleftrightarrow> bm_entries m = bm_entries n"

instance
  by standard (simp add: equal_btree_map_def bm_entries_inject)

end

subsection \<open>Entries of the operations\<close>

lemma entries_empty [simp, bm_entries]: "bm_entries bm_empty = []"
  by transfer simp

lemma entries_insert [simp, bm_entries]: "bm_entries (bm_insert k v m) = al_insert k v (bm_entries m)"
  by transfer simp

lemma entries_retain [simp, bm_entries]:
  "bm_entries (bm_retain P m) = filter (\<lambda>(k, v). P k v) (bm_entries m)"
  by transfer simp

lemma entries_map [simp, bm_entries]:
  "bm_entries (bm_map f m) = map (\<lambda>(k, v). (k, f k v)) (bm_entries m)"
  by transfer simp

lemma entries_sorted [simp]: "al_sorted (bm_entries m)"
  by transfer simp

lemma entries_distinct [simp]: "distinct (map fst (bm_entries m))"
  by (rule al_sorted_distinct) simp

lemma keys_sorted [simp]: "sorted_wrt (<) (bm_keys m)"
  by (simp add: bm_keys_def)

subsection \<open>Lookup after each operation\<close>

lemma bm_eqI: "(\<And>k. bm_get m k = bm_get n k) \<Longrightarrow> m = n"
  by (metis al_sorted_eqI bm_entries_inject bm_get_def entries_sorted ext)

lemma get_empty [simp]: "bm_get bm_empty k = None"
  by (simp add: bm_get_def)

lemma get_insert [simp]: "bm_get (bm_insert k v m) k' = (if k' = k then Some v else bm_get m k')"
  by (simp add: bm_get_def map_of_al_insert)

lemma get_retain: "bm_get (bm_retain P m) k =
    (case bm_get m k of None \<Rightarrow> None | Some v \<Rightarrow> if P k v then Some v else None)"
proof -
  have "map_of (filter (\<lambda>(k, v). P k v) xs) k =
      (case map_of xs k of None \<Rightarrow> None | Some v \<Rightarrow> if P k v then Some v else None)"
    if "distinct (map fst xs)" for xs
    using that
    by (induction xs) (auto split: option.splits simp: map_of_eq_None_iff image_iff
        dest: map_of_SomeD)
  then show ?thesis
    by (simp add: bm_get_def)
qed

lemma get_retain_key [simp]:
  "bm_get (bm_retain (\<lambda>k _. P k) m) k = (if P k then bm_get m k else None)"
  by (simp add: get_retain split: option.splits)

lemma get_map [simp]: "bm_get (bm_map f m) k = map_option (f k) (bm_get m k)"
proof -
  have "map_of (map (\<lambda>(k, v). (k, f k v)) xs) k = map_option (f k) (map_of xs k)" for xs
    by (induction xs) auto
  then show ?thesis
    by (simp add: bm_get_def)
qed

lemma get_remove [simp]: "bm_get (bm_remove k m) k' = (if k' = k then None else bm_get m k')"
  by (simp add: bm_remove_def)

lemma set_keys: "set (bm_keys m) = {k. bm_get m k \<noteq> None}"
  by (simp add: bm_keys_def bm_get_def map_of_eq_None_iff)

lemma keys_get [simp]: "k \<in> set (bm_keys m) \<longleftrightarrow> bm_contains m k"
  by (simp add: set_keys bm_contains_def)

lemma contains_empty [simp]: "\<not> bm_contains bm_empty k"
  by (simp add: bm_contains_def)

lemma contains_insert [simp]: "bm_contains (bm_insert k v m) k' \<longleftrightarrow> k' = k \<or> bm_contains m k'"
  by (simp add: bm_contains_def)

lemma contains_remove [simp]: "bm_contains (bm_remove k m) k' \<longleftrightarrow> k' \<noteq> k \<and> bm_contains m k'"
  by (simp add: bm_contains_def)

lemma contains_retain_key [simp]:
  "bm_contains (bm_retain (\<lambda>k _. P k) m) k \<longleftrightarrow> P k \<and> bm_contains m k"
  by (simp add: bm_contains_def)

lemma contains_map [simp]: "bm_contains (bm_map f m) k \<longleftrightarrow> bm_contains m k"
  by (simp add: bm_contains_def)

lemma in_entries: "(k, v) \<in> set (bm_entries m) \<longleftrightarrow> bm_get m k = Some v"
  by (simp add: bm_get_def)

lemma is_empty_iff: "bm_is_empty m \<longleftrightarrow> (\<forall>k. \<not> bm_contains m k)"
proof
  assume "\<forall>k. \<not> bm_contains m k"
  then have "set (bm_keys m) = {}"
    by (auto simp: set_keys bm_contains_def)
  then show "bm_is_empty m"
    by (simp add: bm_is_empty_def bm_keys_def)
qed (simp add: bm_is_empty_def bm_contains_def bm_get_def)

lemma fold_insert_get:
  "bm_get (fold (\<lambda>(k, v). bm_insert k v) xs m) k =
     (case map_of (rev xs) k of None \<Rightarrow> bm_get m k | Some v \<Rightarrow> Some v)"
  by (induction xs arbitrary: m) (auto split: option.splits simp: map_add_def)

lemma get_append: "bm_get (bm_append m n) k =
    (case bm_get n k of None \<Rightarrow> bm_get m k | Some v \<Rightarrow> Some v)"
proof -
  have "map_of (rev (bm_entries n)) = map_of (bm_entries n)"
    by (metis distinct_rev entries_distinct map_of_inject_set rev_map set_rev)
  then show ?thesis
    by (simp add: bm_append_def fold_insert_get) (simp add: bm_get_def)
qed

lemma contains_extend [simp]: "bs_contains (bs_extend ks s) k \<longleftrightarrow> k \<in> set ks \<or> bs_contains s k"
  unfolding bs_extend_def by (induction ks arbitrary: s) auto

lemma bs_eqI: "(\<And>k. bs_contains s k = bs_contains t k) \<Longrightarrow> s = (t :: 'k::linorder btree_set)"
  by (rule bm_eqI) (metis bm_contains_def not_None_eq old.unit.exhaust)

lemma values_get: "v \<in> set (bm_values m) \<longleftrightarrow> (\<exists>k. bm_get m k = Some v)"
  by (simp add: bm_values_def image_iff Bex_def in_entries)

lemma first_None_iff: "bm_first m = None \<longleftrightarrow> bm_is_empty m"
  by (simp add: bm_first_def bm_is_empty_def split: list.splits)

lemma last_None_iff: "bm_last m = None \<longleftrightarrow> bm_is_empty m"
  by (simp add: bm_last_def bm_is_empty_def split: list.splits)

lemma last_SomeD:
  assumes "bm_last m = Some (k, v)"
  shows "bm_get m k = Some v" and "\<And>k'. bm_contains m k' \<Longrightarrow> k' \<le> k"
proof -
  from assms obtain xs where xs: "bm_entries m = xs @ [(k, v)]"
    by (auto simp: bm_last_def split: list.splits)
  then show "bm_get m k = Some v"
    by (simp flip: in_entries)
  show "k' \<le> k" if "bm_contains m k'" for k'
  proof -
    have "k' \<in> set (bm_keys m)" using that by simp
    then have "k' \<in> insert k (fst ` set xs)" by (auto simp: bm_keys_def xs)
    moreover have "sorted_wrt (<) (map fst xs @ [k])"
      using keys_sorted [of m] by (simp add: bm_keys_def xs)
    ultimately show ?thesis
      by (auto simp: sorted_wrt_append)
  qed
qed

lemma first_SomeD:
  assumes "bm_first m = Some (k, v)"
  shows "bm_get m k = Some v" and "\<And>k'. bm_contains m k' \<Longrightarrow> k \<le> k'"
proof -
  from assms obtain xs where xs: "bm_entries m = (k, v) # xs"
    by (auto simp: bm_first_def split: list.splits)
  then show "bm_get m k = Some v"
    by (simp flip: in_entries)
  show "k \<le> k'" if "bm_contains m k'" for k'
  proof -
    have "k' \<in> set (bm_keys m)" using that by simp
    then have "k' \<in> insert k (fst ` set xs)" by (auto simp: bm_keys_def xs)
    moreover have "sorted_wrt (<) (k # map fst xs)"
      using keys_sorted [of m] by (simp add: bm_keys_def xs)
    ultimately show ?thesis
      by auto
  qed
qed

section \<open>The contract of an ordered map\<close>

text \<open>
  The laws every client of \<open>BTreeMap\<close> relies on: lookup after \<open>insert\<close>, \<open>remove\<close> and
  \<open>retain\<close>, and iteration in strictly increasing key order over exactly the keys present.
\<close>

locale ordered_map =
  fixes empty :: "'m"
    and get :: "'m \<Rightarrow> 'k::linorder \<Rightarrow> 'v option"
    and insert :: "'k \<Rightarrow> 'v \<Rightarrow> 'm \<Rightarrow> 'm"
    and remove :: "'k \<Rightarrow> 'm \<Rightarrow> 'm"
    and entries :: "'m \<Rightarrow> ('k \<times> 'v) list"
  assumes law_empty: "get empty k = None"
    and law_insert: "get (insert k v m) k' = (if k' = k then Some v else get m k')"
    and law_remove: "get (remove k m) k' = (if k' = k then None else get m k')"
    and law_entries: "map_of (entries m) k = get m k"
    and law_sorted: "al_sorted (entries m)"
begin

lemma entries_cong: "(\<And>k. get m k = get n k) \<Longrightarrow> entries m = entries n"
  by (rule al_sorted_eqI) (auto simp: law_sorted law_entries)

lemma entries_insert_remove: "entries (insert k v (remove k m)) = entries (insert k v m)"
  by (rule entries_cong) (simp add: law_insert law_remove)

lemma entries_insert_commute:
  "j \<noteq> k \<Longrightarrow> entries (insert j u (insert k v m)) = entries (insert k v (insert j u m))"
  by (rule entries_cong) (simp add: law_insert)

lemma entries_remove_fresh: "get m k = None \<Longrightarrow> entries (remove k (insert k v m)) = entries m"
  by (rule entries_cong) (simp add: law_insert law_remove)

lemma length_remove_le: "length (entries (remove k m)) \<le> length (entries m)"
proof -
  have "set (map fst (entries (remove k m))) \<subseteq> set (map fst (entries m))"
  proof
    fix x assume "x \<in> set (map fst (entries (remove k m)))"
    then have "map_of (entries (remove k m)) x \<noteq> None"
      by (simp add: map_of_eq_None_iff)
    then have "map_of (entries m) x \<noteq> None"
      by (auto simp: law_entries law_remove split: if_splits)
    then show "x \<in> set (map fst (entries m))"
      by (simp add: map_of_eq_None_iff)
  qed
  then show ?thesis
    using al_sorted_distinct [OF law_sorted]
    by (metis List.finite_set card_mono distinct_card length_map)
qed

end

interpretation btm: ordered_map bm_empty bm_get bm_insert bm_remove bm_entries
  by unfold_locales (simp_all flip: bm_get_def)

section \<open>Runs and simulations\<close>

text \<open>The outputs and the final state of a sequence of events; a step that panics ends the run.\<close>

fun run_opt :: "('e \<Rightarrow> 's \<Rightarrow> ('o \<times> 's) option) \<Rightarrow> 'e list \<Rightarrow> 's \<Rightarrow> ('o list \<times> 's) option" where
  "run_opt step [] s = Some ([], s)"
| "run_opt step (e # es) s =
     (case step e s of
        None \<Rightarrow> None
      | Some (out, s') \<Rightarrow> map_option (\<lambda>(os, s''). (out # os, s'')) (run_opt step es s'))"

fun run_spec :: "('e \<Rightarrow> 's \<Rightarrow> 'o \<times> 's) \<Rightarrow> 'e list \<Rightarrow> 's \<Rightarrow> 'o list \<times> 's" where
  "run_spec step [] s = ([], s)"
| "run_spec step (e # es) s =
     (case step e s of (out, s') \<Rightarrow> case run_spec step es s' of (os, s'') \<Rightarrow> (out # os, s''))"

text \<open>
  The contract of a component that implements a specification: on every valid event, related states
  give the same output and related states, and the component does not panic.
\<close>

locale simulation =
  fixes step :: "'e \<Rightarrow> 's \<Rightarrow> ('o \<times> 's) option"
    and spec :: "'e \<Rightarrow> 'a \<Rightarrow> 'o \<times> 'a"
    and rel :: "'s \<Rightarrow> 'a \<Rightarrow> bool"
    and valid :: "'e \<Rightarrow> bool"
  assumes simulates: "rel s a \<Longrightarrow> valid e \<Longrightarrow>
    \<exists>s'. step e s = Some (fst (spec e a), s') \<and> rel s' (snd (spec e a))"
begin

lemma run_simulates:
  assumes "rel s a" and "\<forall>e \<in> set es. valid e"
  shows "\<exists>s'. run_opt step es s = Some (fst (run_spec spec es a), s') \<and> rel s' (snd (run_spec spec es a))"
  using assms
proof (induction es arbitrary: s a)
  case (Cons e es)
  then obtain s' where s': "step e s = Some (fst (spec e a), s')" "rel s' (snd (spec e a))"
    using simulates [of s a e] by auto
  with Cons show ?case
    by (fastforce split: prod.split)
qed simp

end

end
