(* ===== verification/Sequence_Number.thy ===== *)
theory Sequence_Number
  imports Rust_Prelude
begin

text \<open>
  Sequence and fragment numbers, their ranges and the bitmap sets of \<open>ACKNACK\<close>, \<open>GAP\<close> and
  \<open>NACKFRAG\<close> (src/src/structure/sequence_number.rs).

  \<^item> a \<open>SequenceNumber\<close> is an \<open>i64\<close>, a \<open>FragmentNumber\<close> a \<open>u32\<close>; both are \<^typ>\<open>int\<close> here, and
    \<open>num_wrap\<close> writes out the wrap-around of their arithmetic;
  \<^item> \<open>sn_range_collect\<close> runs the range iterator to its end; it is \<^const>\<open>None\<close> exactly when the
    iterator never ends (the upper bound is the largest \<open>i64\<close>);
  \<^item> \<open>number_set\<close> is the bitmap set: \<open>insert\<close>, \<open>from_base_and_set\<close> and the two iterators, with
    every index operation that can panic returning \<^const>\<open>None\<close>.
  The lemmas show that the iterators enumerate exactly the set bits in order, and that a set
  built from a base and a tree set enumerates that set cut to the 256-element window.
\<close>

type_synonym seqnum = int
type_synonym fragnum = int

datatype number_kind = SeqNum | FragNum

fun num_wrap :: "number_kind \<Rightarrow> int \<Rightarrow> int" where
  "num_wrap SeqNum x = wrap_i64 x"
| "num_wrap FragNum x = wrap_u32 x"

fun num_in :: "number_kind \<Rightarrow> int \<Rightarrow> bool" where
  "num_in SeqNum x = in_i64 x"
| "num_in FragNum x = in_u32 x"

lemma num_wrap_id [rust_int]: "num_in k x \<Longrightarrow> num_wrap k x = x"
  by (cases k) (simp_all add: rust_int)

lemma num_in_i64: "num_in k x \<Longrightarrow> in_i64 x"
  by (cases k) (auto simp: in_i64_def in_u32_def i64_min_def i64_max_def)

lemma num_in_between:
  "num_in k a \<Longrightarrow> num_in k b \<Longrightarrow> a \<le> x \<Longrightarrow> x \<le> b \<Longrightarrow> num_in k x"
  by (cases k) (auto simp: in_i64_def in_u32_def)

lemma num_in_small: "0 \<le> x \<Longrightarrow> x < 2 ^ 32 \<Longrightarrow> num_in k x"
  by (cases k) (auto simp: in_i64_def in_u32_def i64_min_def i64_max_def)

section \<open>Sequence numbers\<close>

definition sn_new :: "int \<Rightarrow> seqnum" where
  "sn_new value = value"

definition sn_zero :: seqnum where
  "sn_zero = 0"

definition sn_default :: seqnum where
  "sn_default = 1"

definition SEQUENCENUMBER_UNKNOWN :: seqnum where
  "SEQUENCENUMBER_UNKNOWN = wrap_i64 ((2 ^ 32 - 1) * 2 ^ 32)"

definition sn_add :: "seqnum \<Rightarrow> seqnum \<Rightarrow> seqnum" where
  "sn_add a b = num_wrap SeqNum (a + b)"

definition sn_sub :: "seqnum \<Rightarrow> seqnum \<Rightarrow> seqnum" where
  "sn_sub a b = num_wrap SeqNum (a - b)"

definition plus_1 :: "seqnum \<Rightarrow> seqnum" where
  "plus_1 a = wrap_i64 (a + 1)"

text \<open>\<open>high\<close> is an arithmetic shift cast to \<open>i32\<close>, \<open>low\<close> the low 32 bits.\<close>

definition from_high_low :: "int \<Rightarrow> int \<Rightarrow> seqnum" where
  "from_high_low high low = wrap_i64 (wrap_i64 (high * 2 ^ 32) + low)"

definition sn_high :: "seqnum \<Rightarrow> int" where
  "sn_high sn = wrap_i32 (sn div 2 ^ 32)"

definition sn_low :: "seqnum \<Rightarrow> int" where
  "sn_low sn = sn mod 2 ^ 32"

record sn_range =
  range_begin :: seqnum
  range_end :: seqnum

definition range_inclusive :: "seqnum \<Rightarrow> seqnum \<Rightarrow> sn_range" where
  "range_inclusive b e = \<lparr>range_begin = b, range_end = e\<rparr>"

definition sn_range_next :: "sn_range \<Rightarrow> (seqnum \<times> sn_range) option" where
  "sn_range_next r =
     (if range_begin r > range_end r then None
      else Some (range_begin r, r\<lparr>range_begin := sn_add (range_begin r) (sn_new 1)\<rparr>))"

text \<open>A \<open>for\<close> loop over the range; \<^const>\<open>None\<close> is a loop that never ends.\<close>

partial_function (option) sn_range_collect :: "sn_range \<Rightarrow> seqnum list option" where
  "sn_range_collect r =
     (case sn_range_next r of
        None \<Rightarrow> Some []
      | Some (sn, r') \<Rightarrow> Option.bind (sn_range_collect r') (\<lambda>sns. Some (sn # sns)))"

section \<open>Number sets\<close>

record number_set =
  bitmap_base :: int
  num_bits :: nat
  bitmap :: "u32 list"

definition word_count :: "nat \<Rightarrow> nat" where
  "word_count nb = ((nb + 31) mod 2 ^ 32) div 32"

definition ns_new :: "int \<Rightarrow> nat \<Rightarrow> number_set" where
  "ns_new base nb = \<lparr>bitmap_base = base, num_bits = nb, bitmap = replicate (word_count nb) 0\<rparr>"

definition ns_new_empty :: "int \<Rightarrow> number_set" where
  "ns_new_empty base = ns_new base 0"

definition ns_insert :: "number_kind \<Rightarrow> int \<Rightarrow> number_set \<Rightarrow> number_set option" where
  "ns_insert k sn s =
     (if sn < bitmap_base s \<or> num_bits s = 0
         \<or> sn \<ge> num_wrap k (bitmap_base s + num_wrap k (int (num_bits s)))
      then Some s
      else
        let bit_pos = nat (wrap_u32 (num_wrap k (sn - bitmap_base s)));
            word_num = bit_pos div 32;
            bit_num = bit_pos mod 32
        in if word_num \<ge> length (bitmap s) then None
           else Some (s\<lparr>bitmap := (bitmap s)[word_num :=
                  (bitmap s ! word_num) OR push_bit (31 - bit_num) 1]\<rparr>))"

fun ns_insert_all :: "number_kind \<Rightarrow> int list \<Rightarrow> number_set \<Rightarrow> number_set option" where
  "ns_insert_all k [] s = Some s"
| "ns_insert_all k (x # xs) s = Option.bind (ns_insert k x s) (ns_insert_all k xs)"

definition from_base_and_set :: "number_kind \<Rightarrow> int \<Rightarrow> int btree_set \<Rightarrow> number_set option" where
  "from_base_and_set k base0 st =
     (case (bm_first st, bm_last st) of
        (Some (start, _), Some (end0, _)) \<Rightarrow>
          let base = (if start < base0 then start else base0)
          in if base < num_wrap k 1 then Some (ns_new_empty (num_wrap k 1))
             else
               let end = (if wrap_i64 (end0 - base) \<ge> 256
                          then num_wrap k (base + num_wrap k 255) else end0);
                   nbits = nat (wrap_u32 (num_wrap k (num_wrap k (end - base) + num_wrap k 1)))
               in ns_insert_all k (filter (\<lambda>s. base \<le> s \<and> s \<le> end) (bs_iter st)) (ns_new base nbits)
      | _ \<Rightarrow> Some (ns_new_empty base0))"

subsection \<open>Iterators\<close>

record ns_iter =
  it_seq :: number_set
  at_bit :: nat
  rev_at_bit :: nat

definition ns_iterator :: "number_set \<Rightarrow> ns_iter" where
  "ns_iterator s = \<lparr>it_seq = s, at_bit = 0, rev_at_bit = num_bits s\<rparr>"

definition ns_have_one :: "number_set \<Rightarrow> nat \<Rightarrow> bool option" where
  "ns_have_one s i =
     (if i div 32 < length (bitmap s)
      then Some ((bitmap s ! (i div 32)) AND push_bit (31 - i mod 32) 1 \<noteq> 0) else None)"

text \<open>One call of \<open>next\<close>: the outer option is the index panic, the inner one the end.\<close>

function ns_next :: "number_kind \<Rightarrow> ns_iter \<Rightarrow> (int option \<times> ns_iter) option" where
  "ns_next k it =
     (if at_bit it < rev_at_bit it then
        case ns_have_one (it_seq it) (at_bit it) of
          None \<Rightarrow> None
        | Some have_one \<Rightarrow>
            let it' = it\<lparr>at_bit := at_bit it + 1\<rparr>
            in if have_one
               then Some (Some (num_wrap k (num_wrap k (int (at_bit it)) + bitmap_base (it_seq it))), it')
               else ns_next k it'
      else Some (None, it))"
  by pat_completeness auto
termination
  by (relation "measure (\<lambda>(k, it). rev_at_bit it - at_bit it)") auto

function ns_next_back :: "number_kind \<Rightarrow> ns_iter \<Rightarrow> (int option \<times> ns_iter) option" where
  "ns_next_back k it =
     (if at_bit it < rev_at_bit it then
        let i = rev_at_bit it - 1; it' = it\<lparr>rev_at_bit := i\<rparr>
        in case ns_have_one (it_seq it) i of
             None \<Rightarrow> None
           | Some have_one \<Rightarrow>
               if have_one
               then Some (Some (num_wrap k (num_wrap k (int i) + bitmap_base (it_seq it))), it')
               else ns_next_back k it'
      else Some (None, it))"
  by pat_completeness auto
termination
  by (relation "measure (\<lambda>(k, it). rev_at_bit it - at_bit it)") auto

declare ns_next.simps [simp del] ns_next_back.simps [simp del]

text \<open>\<open>collect()\<close> and \<open>rev().collect()\<close>, running the iterator to its end.\<close>

fun ns_collect :: "nat \<Rightarrow> number_kind \<Rightarrow> ns_iter \<Rightarrow> int list option" where
  "ns_collect 0 k it = None"
| "ns_collect (Suc fuel) k it =
     (case ns_next k it of
        None \<Rightarrow> None
      | Some (None, _) \<Rightarrow> Some []
      | Some (Some n, it') \<Rightarrow> map_option (Cons n) (ns_collect fuel k it'))"

fun ns_collect_back :: "nat \<Rightarrow> number_kind \<Rightarrow> ns_iter \<Rightarrow> int list option" where
  "ns_collect_back 0 k it = None"
| "ns_collect_back (Suc fuel) k it =
     (case ns_next_back k it of
        None \<Rightarrow> None
      | Some (None, _) \<Rightarrow> Some []
      | Some (Some n, it') \<Rightarrow> map_option (Cons n) (ns_collect_back fuel k it'))"

text \<open>
  Running out of fuel is \<^const>\<open>None\<close>. Each call advances by at least one bit, so
  \<open>num_bits + 1\<close> calls reach the end (\<open>ns_elems_eq\<close>, \<open>ns_elems_back_eq\<close>).
\<close>

definition ns_elems :: "number_kind \<Rightarrow> number_set \<Rightarrow> int list option" where
  "ns_elems k s = ns_collect (num_bits s + 1) k (ns_iterator s)"

definition ns_elems_back :: "number_kind \<Rightarrow> number_set \<Rightarrow> int list option" where
  "ns_elems_back k s = ns_collect_back (num_bits s + 1) k (ns_iterator s)"

definition ns_is_empty :: "number_kind \<Rightarrow> number_set \<Rightarrow> bool option" where
  "ns_is_empty k s =
     (if num_bits s = 0 then Some True
      else map_option (\<lambda>(n, _). n = None) (ns_next k (ns_iterator s)))"

section \<open>Ranges\<close>

lemma sn_range_next_end [simp]: "range_begin r > range_end r \<Longrightarrow> sn_range_next r = None"
  by (simp add: sn_range_next_def)

lemma sn_add_exact: "in_i64 (a + b) \<Longrightarrow> sn_add a b = a + b"
  by (simp add: sn_add_def rust_int)

lemma plus_1_exact: "in_i64 a \<Longrightarrow> a < i64_max \<Longrightarrow> plus_1 a = a + 1"
  by (simp add: plus_1_def rust_int in_i64_def)

lemma sn_range_collect_eq:
  assumes "in_i64 b" and "e < i64_max"
  shows "sn_range_collect (range_inclusive b e) = Some [b..e]"
  using assms
proof (induction "nat (e + 1 - b)" arbitrary: b)
  case 0
  then show ?case
    by (simp add: sn_range_collect.simps range_inclusive_def)
next
  case (Suc n)
  then have le: "b \<le> e" by simp
  with Suc.prems have in1: "in_i64 (b + 1)" by (simp add: in_i64_def)
  have "sn_range_collect (range_inclusive (b + 1) e) = Some [b + 1..e]"
    using Suc.hyps(1) [of "b + 1"] Suc.hyps(2) in1 Suc.prems(2) by simp
  moreover have "sn_range_next (range_inclusive b e) = Some (b, range_inclusive (b + 1) e)"
    using le in1 by (simp add: sn_range_next_def range_inclusive_def sn_new_def sn_add_exact)
  ultimately show ?case
    using le by (subst sn_range_collect.simps) (simp add: upto_rec1)
qed

lemma sn_range_collect_None:
  assumes "in_i64 b"
  shows "sn_range_collect (range_inclusive b i64_max) = None"
proof -
  let ?P = "\<lambda>r _. range_end r = i64_max \<and> in_i64 (range_begin r) \<longrightarrow> False"
  have never: "?P r sns" if collected: "sn_range_collect r = Some sns" for r sns
  proof (rule sn_range_collect.raw_induct [OF _ collected, where P = ?P], rule impI)
    fix f :: "sn_range \<Rightarrow> seqnum list option" and r sns
    assume IH: "\<And>r sns. f r = Some sns \<Longrightarrow> ?P r sns"
      and body: "(case sn_range_next r of None \<Rightarrow> Some []
        | Some (sn, r') \<Rightarrow> Option.bind (f r') (\<lambda>sns. Some (sn # sns))) = Some sns"
      and r: "range_end r = i64_max \<and> in_i64 (range_begin r)"
    then have "sn_range_next r = Some (range_begin r, r\<lparr>range_begin := sn_add (range_begin r) (sn_new 1)\<rparr>)"
      by (auto simp: sn_range_next_def in_i64_def)
    with body obtain sns' where "f (r\<lparr>range_begin := sn_add (range_begin r) (sn_new 1)\<rparr>) = Some sns'"
      by (auto simp: bind_eq_Some_conv)
    from IH [OF this] r show False by (simp add: sn_add_def)
  qed
  show ?thesis
    using assms never [of "range_inclusive b i64_max"]
    by (cases "sn_range_collect (range_inclusive b i64_max)") (auto simp: range_inclusive_def)
qed

section \<open>Well-formed number sets\<close>

text \<open>
  \<open>ns_wf\<close> is the comment on the struct: the bitmap has \<open>(num_bits + 31) / 32\<close> words. The
  deserializer accepts at most 256 bits.
\<close>

definition ns_wf :: "number_set \<Rightarrow> bool" where
  "ns_wf s \<longleftrightarrow> num_bits s \<le> 256 \<and> length (bitmap s) = (num_bits s + 31) div 32"

definition ns_bit :: "number_set \<Rightarrow> nat \<Rightarrow> bool" where
  "ns_bit s i = bit (bitmap s ! (i div 32)) (31 - i mod 32)"

definition ns_between :: "number_kind \<Rightarrow> number_set \<Rightarrow> nat \<Rightarrow> nat \<Rightarrow> int list" where
  "ns_between k s a b =
     map (\<lambda>i. num_wrap k (num_wrap k (int i) + bitmap_base s)) (filter (ns_bit s) [a..<b])"

lemma word_count_eq: "nb \<le> 256 \<Longrightarrow> word_count nb = (nb + 31) div 32"
  by (simp add: word_count_def)

lemma ns_wf_new: "nb \<le> 256 \<Longrightarrow> ns_wf (ns_new base nb)"
  by (simp add: ns_wf_def ns_new_def word_count_eq)

lemma ns_have_one_eq: "ns_wf s \<Longrightarrow> i < num_bits s \<Longrightarrow> ns_have_one s i = Some (ns_bit s i)"
  by (auto simp: ns_have_one_def ns_wf_def ns_bit_def bit_iff_and_push_bit_not_eq_0)

lemma ns_between_empty [simp]: "b \<le> a \<Longrightarrow> ns_between k s a b = []"
  by (simp add: ns_between_def)

lemma ns_between_front:
  "a < b \<Longrightarrow> ns_between k s a b =
     (if ns_bit s a then [num_wrap k (num_wrap k (int a) + bitmap_base s)] else []) @ ns_between k s (Suc a) b"
  by (simp add: ns_between_def upt_conv_Cons)

lemma ns_between_back:
  "a \<le> b \<Longrightarrow> ns_between k s a (Suc b) = ns_between k s a b @
     (if ns_bit s b then [num_wrap k (num_wrap k (int b) + bitmap_base s)] else [])"
  by (simp add: ns_between_def)

lemma ns_collect_eq:
  assumes "ns_wf s" and "rev_at_bit it \<le> num_bits s" and "it_seq it = s"
    and "rev_at_bit it - at_bit it < fuel"
  shows "ns_collect fuel k it = Some (ns_between k s (at_bit it) (rev_at_bit it))"
  using assms
proof (induction "rev_at_bit it - at_bit it" arbitrary: it fuel)
  case 0
  then obtain m where "fuel = Suc m" by (cases fuel) auto
  with 0 show ?case by (simp add: ns_next.simps)
next
  case (Suc n)
  then obtain m where fuel: "fuel = Suc m" by (cases fuel) auto
  let ?it = "it\<lparr>at_bit := at_bit it + 1\<rparr>"
  from Suc have lt: "at_bit it < rev_at_bit it" by simp
  with Suc.prems have one: "ns_have_one (it_seq it) (at_bit it) = Some (ns_bit s (at_bit it))"
    by (simp add: ns_have_one_eq)
  have IH: "ns_collect f k ?it = Some (ns_between k s (Suc (at_bit it)) (rev_at_bit it))"
    if "n < f" for f
    using Suc.hyps(1) [of ?it f] Suc.hyps(2) Suc.prems that by simp
  show ?case
  proof (cases "ns_bit s (at_bit it)")
    case True
    then have "ns_next k it =
        Some (Some (num_wrap k (num_wrap k (int (at_bit it)) + bitmap_base s)), ?it)"
      using lt one Suc.prems(3) by (subst ns_next.simps) (simp add: Let_def)
    then show ?thesis
      using IH [of m] Suc.hyps(2) Suc.prems(4) True lt by (simp add: fuel ns_between_front)
  next
    case False
    then have "ns_next k it = ns_next k ?it"
      using lt one by (subst ns_next.simps) (simp add: Let_def)
    then have "ns_collect fuel k it = ns_collect fuel k ?it"
      by (simp add: fuel)
    then show ?thesis
      using IH [of fuel] Suc.hyps(2) Suc.prems(4) False lt by (simp add: ns_between_front)
  qed
qed

lemma ns_collect_back_eq:
  assumes "ns_wf s" and "rev_at_bit it \<le> num_bits s" and "it_seq it = s"
    and "rev_at_bit it - at_bit it < fuel"
  shows "ns_collect_back fuel k it = Some (rev (ns_between k s (at_bit it) (rev_at_bit it)))"
  using assms
proof (induction "rev_at_bit it - at_bit it" arbitrary: it fuel)
  case 0
  then obtain m where "fuel = Suc m" by (cases fuel) auto
  with 0 show ?case by (simp add: ns_next_back.simps)
next
  case (Suc n)
  then obtain m where fuel: "fuel = Suc m" by (cases fuel) auto
  define i where "i = rev_at_bit it - 1"
  let ?it = "it\<lparr>rev_at_bit := i\<rparr>"
  from Suc have lt: "at_bit it < rev_at_bit it" by simp
  then have i: "rev_at_bit it = Suc i" "at_bit it \<le> i" by (auto simp: i_def)
  with Suc.prems have one: "ns_have_one (it_seq it) i = Some (ns_bit s i)"
    by (simp add: ns_have_one_eq)
  have IH: "ns_collect_back f k ?it = Some (rev (ns_between k s (at_bit it) i))"
    if "n < f" for f
    using Suc.hyps(1) [of ?it f] Suc.hyps(2) Suc.prems that i by simp
  show ?case
  proof (cases "ns_bit s i")
    case True
    then have "ns_next_back k it =
        Some (Some (num_wrap k (num_wrap k (int i) + bitmap_base s)), ?it)"
      using lt one Suc.prems(3) by (subst ns_next_back.simps) (simp add: Let_def i)
    then show ?thesis
      using IH [of m] Suc.hyps(2) Suc.prems(4) True i by (simp add: fuel ns_between_back)
  next
    case False
    then have "ns_next_back k it = ns_next_back k ?it"
      using lt one by (subst ns_next_back.simps) (simp add: Let_def i)
    then have "ns_collect_back fuel k it = ns_collect_back fuel k ?it"
      by (simp add: fuel)
    then show ?thesis
      using IH [of fuel] Suc.hyps(2) Suc.prems(4) False i by (simp add: ns_between_back)
  qed
qed

lemma ns_elems_eq: "ns_wf s \<Longrightarrow> ns_elems k s = Some (ns_between k s 0 (num_bits s))"
  unfolding ns_elems_def by (subst ns_collect_eq) (simp_all add: ns_iterator_def)

lemma ns_elems_back_eq: "ns_wf s \<Longrightarrow> ns_elems_back k s = Some (rev (ns_between k s 0 (num_bits s)))"
  unfolding ns_elems_back_def by (subst ns_collect_back_eq) (simp_all add: ns_iterator_def)

section \<open>Building a set\<close>

lemma bit_set_one: "n < 32 \<Longrightarrow> bit (w OR 2 ^ n) m \<longleftrightarrow> bit w m \<or> m = n" for w :: u32
  by (auto simp: bit_simps)

lemma ns_insert_in_window:
  assumes wf: "ns_wf s" and top: "num_in k (bitmap_base s + int (num_bits s))"
    and lo: "bitmap_base s \<le> sn" and hi: "sn < bitmap_base s + int (num_bits s)"
  obtains s' where "ns_insert k sn s = Some s'" and "ns_wf s'"
    and "bitmap_base s' = bitmap_base s" and "num_bits s' = num_bits s"
    and "\<And>i. i < num_bits s \<Longrightarrow> ns_bit s' i \<longleftrightarrow> i = nat (sn - bitmap_base s) \<or> ns_bit s i"
proof -
  define p where "p = nat (sn - bitmap_base s)"
  have nb: "num_bits s \<le> 256" and len: "length (bitmap s) = (num_bits s + 31) div 32"
    using wf by (simp_all add: ns_wf_def)
  have p_eq: "sn - bitmap_base s = int p" using lo by (simp add: p_def)
  have p_lt: "p < num_bits s" using hi p_eq by linarith
  have in_p: "num_in k (int p)"
    by (rule num_in_small) (use p_lt nb in simp_all)
  have in_u32_p: "in_u32 (int p)"
    using p_lt nb by (simp add: in_u32_def)
  have bitpos: "nat (wrap_u32 (num_wrap k (sn - bitmap_base s))) = p"
    unfolding p_eq num_wrap_id [OF in_p] wrap_u32_id [OF in_u32_p] by simp
  have "num_in k (int (num_bits s))"
    by (rule num_in_small) (use nb in simp_all)
  then have guard: "\<not> sn \<ge> num_wrap k (bitmap_base s + num_wrap k (int (num_bits s)))"
    using hi top by (simp add: num_wrap_id)
  have wn: "p div 32 < length (bitmap s)"
    using p_lt len by simp
  define s' where "s' = s\<lparr>bitmap := (bitmap s)[p div 32 :=
      (bitmap s ! (p div 32)) OR push_bit (31 - p mod 32) 1]\<rparr>"
  show thesis
  proof
    show "ns_insert k sn s = Some s'"
      using lo guard p_lt wn by (simp add: ns_insert_def bitpos s'_def Let_def)
    show "ns_wf s'" "bitmap_base s' = bitmap_base s" "num_bits s' = num_bits s"
      using nb len by (simp_all add: s'_def ns_wf_def)
    fix i assume i: "i < num_bits s"
    have "i div 32 < length (bitmap s)"
      using i len by simp
    moreover have "31 - p mod 32 = 31 - i mod 32 \<longleftrightarrow> p mod 32 = i mod 32"
      using mod_less_divisor [of 32 p] mod_less_divisor [of 32 i] by linarith
    moreover have "i = p \<longleftrightarrow> i div 32 = p div 32 \<and> p mod 32 = i mod 32"
      by (metis div_mult_mod_eq)
    ultimately show "ns_bit s' i \<longleftrightarrow> i = nat (sn - bitmap_base s) \<or> ns_bit s i"
      unfolding p_def [symmetric]
      by (cases "i div 32 = p div 32") (auto simp: ns_bit_def s'_def bit_set_one)
  qed
qed

lemma ns_insert_all_in_window:
  assumes "ns_wf s" and "num_in k (bitmap_base s + int (num_bits s))"
    and "\<forall>x \<in> set xs. bitmap_base s \<le> x \<and> x < bitmap_base s + int (num_bits s)"
  shows "\<exists>s'. ns_insert_all k xs s = Some s' \<and> ns_wf s'
    \<and> bitmap_base s' = bitmap_base s \<and> num_bits s' = num_bits s
    \<and> (\<forall>i < num_bits s. ns_bit s' i \<longleftrightarrow> bitmap_base s + int i \<in> set xs \<or> ns_bit s i)"
  using assms
proof (induction xs arbitrary: s)
  case Nil
  then show ?case by simp
next
  case (Cons x xs)
  from Cons.prems obtain s1 where s1: "ns_insert k x s = Some s1" "ns_wf s1"
      "bitmap_base s1 = bitmap_base s" "num_bits s1 = num_bits s"
      "\<And>i. i < num_bits s \<Longrightarrow> ns_bit s1 i \<longleftrightarrow> i = nat (x - bitmap_base s) \<or> ns_bit s i"
    by (auto elim!: ns_insert_in_window [of s k x])
  have pos: "i = nat (x - bitmap_base s) \<longleftrightarrow> bitmap_base s + int i = x" for i
    using Cons.prems(3) by auto
  show ?case
    using Cons.IH [of s1] Cons.prems s1 by (auto simp: pos)
qed

lemma ns_between_set:
  assumes "num_in k (bitmap_base s)" and "num_in k (bitmap_base s + int (num_bits s))"
    and "num_bits s \<le> 256"
  shows "ns_between k s 0 (num_bits s) =
    map (\<lambda>i. bitmap_base s + int i) (filter (ns_bit s) [0..<num_bits s])"
  unfolding ns_between_def
proof (rule map_cong [OF refl])
  fix i assume "i \<in> set (filter (ns_bit s) [0..<num_bits s])"
  then have i: "i < num_bits s" by simp
  have "num_in k (int i)"
    by (rule num_in_small) (use i assms(3) in simp_all)
  moreover have "num_in k (bitmap_base s + int i)"
    by (rule num_in_between [OF assms(1,2)]) (use i in simp_all)
  ultimately show "num_wrap k (num_wrap k (int i) + bitmap_base s) = bitmap_base s + int i"
    by (simp add: num_wrap_id add.commute)
qed

lemma ns_not_bit_new: "nb \<le> 256 \<Longrightarrow> i < nb \<Longrightarrow> \<not> ns_bit (ns_new base nb) i"
  by (simp add: ns_bit_def ns_new_def word_count_eq)

text \<open>
  A set built from in-window elements enumerates exactly them, in increasing order.
\<close>

lemma ns_insert_all_elems:
  assumes "num_in k base" and "num_in k (base + int nb)" and "nb \<le> 256"
    and xs: "\<forall>x \<in> set xs. base \<le> x \<and> x < base + int nb" and "sorted_wrt (<) xs"
  obtains s where "ns_insert_all k xs (ns_new base nb) = Some s" and "ns_wf s"
    and "bitmap_base s = base" and "num_bits s = nb" and "ns_elems k s = Some xs"
proof -
  have "ns_wf (ns_new base nb)" "bitmap_base (ns_new base nb) = base" "num_bits (ns_new base nb) = nb"
    using assms(3) by (simp_all add: ns_wf_new) (simp_all add: ns_new_def)
  with ns_insert_all_in_window [of "ns_new base nb" k xs] assms obtain s where
    s: "ns_insert_all k xs (ns_new base nb) = Some s" "ns_wf s" "bitmap_base s = base" "num_bits s = nb"
      "\<forall>i < nb. ns_bit s i \<longleftrightarrow> base + int i \<in> set xs"
    by (auto simp: ns_not_bit_new)
  let ?l = "map (\<lambda>i. base + int i) (filter (ns_bit s) [0..<nb])"
  have "sorted_wrt (<) (filter (ns_bit s) [0..<nb])"
    by (simp add: sorted_wrt_filter)
  then have "sorted_wrt (<) ?l"
    by (simp add: sorted_wrt_map)
  moreover have "set ?l = set xs"
  proof
    show "set xs \<subseteq> set ?l"
    proof
      fix x assume x: "x \<in> set xs"
      then obtain i where i: "x = base + int i" "i < nb"
        using xs by (metis add_diff_cancel_left' diff_add_cancel add.commute less_diff_eq
            of_nat_less_iff zle_iff_zadd)
      with x s(5) have "i \<in> set (filter (ns_bit s) [0..<nb])" by simp
      then show "x \<in> set ?l" unfolding i(1) set_map by (rule imageI)
    qed
  qed (use s(5) in auto)
  ultimately have "?l = xs"
    using assms(5) by (simp add: strict_sorted_equal)
  then have "ns_elems k s = Some xs"
    using s(2-4) assms(1-3) ns_between_set [of k s] by (simp add: ns_elems_eq)
  with s show thesis by (intro that) auto
qed

lemma from_base_and_set_empty: "bm_is_empty st \<Longrightarrow> from_base_and_set k base st = Some (ns_new_empty base)"
  by (simp add: from_base_and_set_def bm_is_empty_def bm_first_def)

lemma num_wrap_1 [simp]: "num_wrap k 1 = 1" and num_wrap_255 [simp]: "num_wrap k 255 = 255"
  by (cases k; simp add: wrap_i64_def wrap_u32_def)+

lemma from_base_and_set_nonempty:
  assumes first: "bm_first st = Some (start, u)" and last: "bm_last st = Some (end0, v)"
    and base: "1 \<le> base" "base \<le> start" "num_in k base"
    and end_in: "num_in k end0" "num_in k (end0 + 1)"
  obtains s where "from_base_and_set k base st = Some s" and "ns_wf s"
    and "bitmap_base s = base" and "ns_elems k s = Some (filter (\<lambda>x. x < base + 256) (bs_iter st))"
proof -
  have start_end: "start \<le> end0"
    using first_SomeD(2) [OF first] last_SomeD(1) [OF last] by (simp add: bm_contains_def)
  have elems: "start \<le> x \<and> x \<le> end0" if "x \<in> set (bs_iter st)" for x
    using that first_SomeD(2) [OF first] last_SomeD(2) [OF last] by simp
  define e where "e = (if end0 - base \<ge> 256 then base + 255 else end0)"
  have "in_i64 base" "in_i64 end0"
    using base(3) end_in(1) by (auto intro: num_in_i64)
  then have w1: "wrap_i64 (end0 - base) = end0 - base"
    using base start_end by (intro wrap_i64_id) (simp add: in_i64_def i64_min_def)
  have e: "base \<le> e" "e \<le> end0" "e - base < 256" "num_in k e" "num_in k (e + 1)"
    using base start_end num_in_between [OF base(3) end_in(1), of e]
      num_in_between [OF base(3) end_in(2), of "e + 1"] by (auto simp: e_def)
  then have e_def': "(if wrap_i64 (end0 - base) \<ge> 256 then num_wrap k (base + num_wrap k 255) else end0) = e"
    by (auto simp: w1 e_def num_wrap_id)
  have "num_in k (e - base)" "num_in k (e - base + 1)" "in_u32 (e - base + 1)"
    using e by (auto intro: num_in_small simp: in_u32_def)
  then have bits: "nat (wrap_u32 (num_wrap k (num_wrap k (e - base) + num_wrap k 1))) = nat (e - base + 1)"
    by (simp add: num_wrap_id wrap_u32_id)
  have filter: "filter (\<lambda>s. base \<le> s \<and> s \<le> e) (bs_iter st) = filter (\<lambda>x. x < base + 256) (bs_iter st)"
  proof (rule filter_cong [OF refl])
    fix x assume "x \<in> set (bs_iter st)"
    then have "base \<le> x" "x \<le> end0" using elems [of x] base(2) by auto
    then show "(base \<le> x \<and> x \<le> e) = (x < base + 256)" by (auto simp: e_def)
  qed
  have top: "base + int (nat (e - base + 1)) = e + 1"
    using e by simp
  let ?xs = "filter (\<lambda>x. x < base + 256) (bs_iter st)"
  obtain s where "ns_insert_all k ?xs (ns_new base (nat (e - base + 1))) = Some s" "ns_wf s"
      "bitmap_base s = base" "ns_elems k s = Some ?xs"
  proof (rule ns_insert_all_elems [of k base "nat (e - base + 1)" ?xs])
    show "\<forall>x\<in>set ?xs. base \<le> x \<and> x < base + int (nat (e - base + 1))"
      unfolding top filter [symmetric] by auto
    show "sorted_wrt (<) ?xs"
      by (simp add: sorted_wrt_filter)
  qed (use base e top in auto)
  moreover have "from_base_and_set k base st = ns_insert_all k ?xs (ns_new base (nat (e - base + 1)))"
    using first last base unfolding from_base_and_set_def
    by (simp add: Let_def e_def' bits filter del: num_wrap_1 num_wrap_255) simp
  ultimately show thesis
    by (intro that) auto
qed

lemma from_base_and_set_spec:
  assumes "1 \<le> base" and "num_in k base"
    and "\<forall>x \<in> set (bs_iter st). base \<le> x \<and> num_in k (x + 1)"
  shows "\<exists>s. from_base_and_set k base st = Some s \<and> ns_wf s \<and> bitmap_base s = base
    \<and> ns_elems k s = Some (filter (\<lambda>x. x < base + 256) (bs_iter st))"
proof (cases "bm_is_empty st")
  case True
  then have "bs_iter st = []"
    by (simp add: bm_is_empty_def bm_keys_def)
  moreover have "ns_wf (ns_new_empty base)" "ns_elems k (ns_new_empty base) = Some []"
    using ns_wf_new [of 0 base] by (simp_all add: ns_new_empty_def ns_elems_eq) (simp add: ns_new_def)
  ultimately show ?thesis
    using True by (simp add: from_base_and_set_empty) (simp add: ns_new_empty_def ns_new_def)
next
  case False
  then obtain start u end0 v where fl: "bm_first st = Some (start, u)" "bm_last st = Some (end0, v)"
    by (metis first_None_iff last_None_iff not_None_eq surj_pair)
  then have "bs_contains st start" "bs_contains st end0"
    using first_SomeD(1) last_SomeD(1) by (auto simp: bm_contains_def)
  with assms(3) have "base \<le> start" "base \<le> end0" "num_in k (end0 + 1)"
    by auto
  moreover from this have "num_in k end0"
    using num_in_between [OF assms(2), of "end0 + 1" end0] by simp
  ultimately show ?thesis
    using from_base_and_set_nonempty [OF fl assms(1) _ assms(2)] by metis
qed

section \<open>Properties\<close>

text \<open>C39: a set built by \<open>from_base_and_set\<close> from a base of at least 1 and a tree set whose elements
  are all at or above the base never panics, keeps the base, satisfies the size invariant of the
  bitmap, and iterates over exactly the elements of the tree set below \<open>base + 256\<close>, in order.\<close>

theorem from_base_and_set_elems:
  assumes "1 \<le> base" and "num_in k base"
    and "\<forall>x \<in> set (bs_iter st). base \<le> x \<and> num_in k (x + 1)"
  shows "\<exists>s. from_base_and_set k base st = Some s \<and> ns_wf s \<and> bitmap_base s = base
    \<and> ns_elems k s = Some (filter (\<lambda>x. x < base + 256) (bs_iter st))"
  by (rule from_base_and_set_spec [OF assms])

theorem from_base_and_set_elems_witness:
  "\<exists>s. from_base_and_set SeqNum 5 (bs_insert 300 (bs_insert 7 bm_empty)) = Some s
    \<and> bitmap_base s = 5 \<and> ns_elems SeqNum s = Some [7]"
  using from_base_and_set_elems [of 5 SeqNum "bs_insert 300 (bs_insert 7 bm_empty)"]
  by (simp add: bm_keys_def in_i64_def i64_min_def i64_max_def) blast

text \<open>iterating a well-formed number set from the back gives the elements of the forward
  iteration in reverse, and neither iteration panics.\<close>

theorem number_set_double_ended:
  assumes "ns_wf s"
  shows "\<exists>xs. ns_elems k s = Some xs \<and> ns_elems_back k s = Some (rev xs)"
  using assms by (simp add: ns_elems_eq ns_elems_back_eq)

theorem number_set_double_ended_witness:
  "\<exists>xs. ns_elems SeqNum \<lparr>bitmap_base = 10, num_bits = 3, bitmap = [0xA0000000]\<rparr> = Some xs
    \<and> ns_elems_back SeqNum \<lparr>bitmap_base = 10, num_bits = 3, bitmap = [0xA0000000]\<rparr> = Some (rev xs)"
  by (rule number_set_double_ended) (simp add: ns_wf_def)

end
