(* ===== verification/Time_Duration.thy ===== *)
theory Time_Duration
  imports Rust_Prelude "HOL-Library.Signed_Division"
begin

text \<open>
  RTPS time stamps and durations (src/src/structure/time.rs, src/src/structure/duration.rs):
  32.32 fixed point values, unsigned seconds in a \<open>Timestamp\<close>, signed seconds in a \<open>Duration\<close>.
  The fields are 32-bit words, tick counts 64-bit words; a signed quantity is read with
  \<^const>\<open>sint\<close>. The clock (\<open>Timestamp::now\<close>) is not modelled: operations that read it take the
  value read as an argument. The lemmas give the tick round trips, that the derived
  lexicographic order of time stamps is the order of their tick counts, the arithmetic laws of
  adding and subtracting durations, and the error bound of the nanosecond conversion.
\<close>

section \<open>Time stamps\<close>

datatype timestamp = Timestamp (ts_seconds: u32) (ts_fraction: u32)

definition Timestamp_ZERO :: timestamp where
  "Timestamp_ZERO = Timestamp 0 0"

definition Timestamp_INVALID :: timestamp where
  "Timestamp_INVALID = Timestamp 0xFFFFFFFF 0xFFFFFFFF"

definition Timestamp_INFINITE :: timestamp where
  "Timestamp_INFINITE = Timestamp 0x7FFFFFFF 0xFFFFFFFF"

definition ts_to_ticks :: "timestamp \<Rightarrow> u64" where
  "ts_to_ticks t = push_bit 32 (ucast (ts_seconds t)) + ucast (ts_fraction t)"

definition ts_from_ticks :: "u64 \<Rightarrow> timestamp" where
  "ts_from_ticks ticks = Timestamp (ucast (drop_bit 32 ticks)) (ucast ticks)"

text \<open>\<open>from_nanos\<close>; the shift cannot overflow, since the remainder is below \<open>10\<^sup>9 < 2\<^sup>3\<^sup>0\<close>.\<close>

definition ts_from_nanos :: "u64 \<Rightarrow> timestamp" where
  "ts_from_nanos n =
     Timestamp (ucast (n div 1000000000))
       (ucast (push_bit 32 (n mod 1000000000) div 1000000000))"

text \<open>The derived order compares \<open>seconds\<close>, then \<open>fraction\<close>.\<close>

instantiation timestamp :: linorder
begin

definition less_eq_timestamp :: "timestamp \<Rightarrow> timestamp \<Rightarrow> bool" where
  "a \<le> b \<longleftrightarrow> (ts_seconds a, ts_fraction a) \<le> (ts_seconds b, ts_fraction b)"

definition less_timestamp :: "timestamp \<Rightarrow> timestamp \<Rightarrow> bool" where
  "a < b \<longleftrightarrow> (ts_seconds a, ts_fraction a) < (ts_seconds b, ts_fraction b)"

instance
proof
  fix a b c :: timestamp
  show "(a < b) = (a \<le> b \<and> \<not> b \<le> a)"
    by (auto simp: less_eq_timestamp_def less_timestamp_def)
  show "a \<le> a"
    by (simp add: less_eq_timestamp_def)
  show "a \<le> b \<Longrightarrow> b \<le> c \<Longrightarrow> a \<le> c"
    unfolding less_eq_timestamp_def by (rule order_trans)
  show "a \<le> b \<Longrightarrow> b \<le> a \<Longrightarrow> a = b"
    unfolding less_eq_timestamp_def by (metis order_antisym prod.inject timestamp.expand)
  show "a \<le> b \<or> b \<le> a"
    unfolding less_eq_timestamp_def by (rule linear)
qed

end

section \<open>Durations\<close>

datatype duration = Duration (dur_seconds: u32) (dur_fraction: u32)

definition Duration_ZERO :: duration where
  "Duration_ZERO = Duration 0 0"

definition Duration_INFINITE :: duration where
  "Duration_INFINITE = Duration 0x7FFFFFFF 0xFFFFFFFF"

definition dur_from_secs :: "int \<Rightarrow> duration" where
  "dur_from_secs secs = Duration (word_of_int secs) 0"

definition dur_from_millis :: "int \<Rightarrow> duration" where
  "dur_from_millis millis =
     Duration (word_of_int (millis sdiv 1000))
       (word_of_int ((millis smod 1000) * 2 ^ 32 sdiv 1000))"

definition dur_from_nanos :: "int \<Rightarrow> duration" where
  "dur_from_nanos nanos =
     Duration (word_of_int (nanos sdiv 1000000000))
       (word_of_int ((nanos smod 1000000000) * 2 ^ 32 sdiv 1000000000))"

definition dur_to_ticks :: "duration \<Rightarrow> u64" where
  "dur_to_ticks d = push_bit 32 (scast (dur_seconds d)) + ucast (dur_fraction d)"

definition dur_from_ticks :: "u64 \<Rightarrow> duration" where
  "dur_from_ticks ticks = Duration (ucast (signed_drop_bit 32 ticks)) (ucast ticks)"

definition to_nanoseconds :: "duration \<Rightarrow> int" where
  "to_nanoseconds d = wrap_i64 ((sint (dur_to_ticks d) * 1000000000) div 2 ^ 32)"

text \<open>\<open>Div<i64>\<close>: division by zero and \<open>i64::MIN / -1\<close> panic.\<close>

text \<open>\<open>std::time::Duration::from\<close>, in nanoseconds: negative durations saturate at zero.\<close>

definition to_std :: "duration \<Rightarrow> int" where
  "to_std d = max 0 (to_nanoseconds d)"

definition dur_div :: "duration \<Rightarrow> int \<Rightarrow> duration option" where
  "dur_div d rhs =
     (let ticks = sint (dur_to_ticks d)
      in if rhs = 0 \<or> (ticks = i64_min \<and> rhs = -1) then None
         else Some (dur_from_ticks (word_of_int (ticks sdiv rhs))))"

definition dur_add :: "duration \<Rightarrow> duration \<Rightarrow> duration" where
  "dur_add a b = dur_from_ticks (dur_to_ticks a + dur_to_ticks b)"

text \<open>The derived order compares the signed seconds, then the fraction.\<close>

instantiation duration :: linorder
begin

definition less_eq_duration :: "duration \<Rightarrow> duration \<Rightarrow> bool" where
  "a \<le> b \<longleftrightarrow> (sint (dur_seconds a), dur_fraction a) \<le> (sint (dur_seconds b), dur_fraction b)"

definition less_duration :: "duration \<Rightarrow> duration \<Rightarrow> bool" where
  "a < b \<longleftrightarrow> (sint (dur_seconds a), dur_fraction a) < (sint (dur_seconds b), dur_fraction b)"

instance
proof
  fix a b c :: duration
  show "(a < b) = (a \<le> b \<and> \<not> b \<le> a)"
    by (auto simp: less_eq_duration_def less_duration_def)
  show "a \<le> a"
    by (simp add: less_eq_duration_def)
  show "a \<le> b \<Longrightarrow> b \<le> c \<Longrightarrow> a \<le> c"
    unfolding less_eq_duration_def by (rule order_trans)
  show "a \<le> b \<Longrightarrow> b \<le> a \<Longrightarrow> a = b"
    unfolding less_eq_duration_def by (metis order_antisym prod.inject duration.expand signed_word_eqI)
  show "a \<le> b \<or> b \<le> a"
    unfolding less_eq_duration_def by (rule linear)
qed

end

section \<open>Time stamp arithmetic\<close>

definition ts_sub :: "timestamp \<Rightarrow> timestamp \<Rightarrow> duration" where
  "ts_sub a b = dur_from_ticks (ts_to_ticks a - ts_to_ticks b)"

definition duration_since :: "timestamp \<Rightarrow> timestamp \<Rightarrow> duration" where
  "duration_since a since = ts_sub a since"

definition ts_sub_dur :: "timestamp \<Rightarrow> duration \<Rightarrow> timestamp" where
  "ts_sub_dur t d =
     (if t = Timestamp_INVALID then Timestamp_INVALID
      else ts_from_ticks (ts_to_ticks t - dur_to_ticks d))"

definition ts_add_dur :: "timestamp \<Rightarrow> duration \<Rightarrow> timestamp" where
  "ts_add_dur t d = ts_from_ticks (ts_to_ticks t + dur_to_ticks d)"

section \<open>Tick counts\<close>

lemma word32_bounds: "0 \<le> uint (w :: u32)" "uint (w :: u32) < 2 ^ 32"
  using uint_bounded [of w] by simp_all

lemma fixed_point_less:
  fixes f g s t :: int
  assumes "0 \<le> f" "f < 4294967296" "0 \<le> g" "g < 4294967296"
  shows "s * 4294967296 + f < t * 4294967296 + g \<longleftrightarrow> s < t \<or> s \<le> t \<and> f < g"
  using assms by (cases s t rule: linorder_cases) auto

lemma uint_ts_to_ticks: "uint (ts_to_ticks t) = uint (ts_seconds t) * 2 ^ 32 + uint (ts_fraction t)"
proof -
  have "uint (push_bit 32 (ucast (ts_seconds t) :: u64)) = uint (ts_seconds t) * 2 ^ 32"
    unfolding unsigned_push_bit_eq using word32_bounds [of "ts_seconds t"]
    by (simp add: unsigned_ucast_eq take_bit_int_eq_self push_bit_eq_mult)
  moreover have "uint (ucast (ts_fraction t) :: u64) = uint (ts_fraction t)"
    using word32_bounds [of "ts_fraction t"] by (simp add: unsigned_ucast_eq take_bit_int_eq_self)
  ultimately show ?thesis
    using word32_bounds [of "ts_seconds t"] word32_bounds [of "ts_fraction t"]
    by (simp add: ts_to_ticks_def uint_word_ariths)
qed

lemma ts_from_to_ticks [simp]: "ts_from_ticks (ts_to_ticks t) = t"
proof -
  have "ucast (drop_bit 32 (ts_to_ticks t)) = ts_seconds t"
    using word32_bounds [of "ts_seconds t"] word32_bounds [of "ts_fraction t"]
    by (intro word_uint_eqI, unfold unsigned_ucast_eq unsigned_drop_bit_eq uint_ts_to_ticks)
      (simp add: drop_bit_eq_div take_bit_eq_mod)
  moreover have "ucast (ts_to_ticks t) = ts_fraction t"
    using word32_bounds [of "ts_fraction t"]
    by (intro word_uint_eqI) (simp add: unsigned_ucast_eq uint_ts_to_ticks take_bit_eq_mod)
  ultimately show ?thesis
    by (simp add: ts_from_ticks_def)
qed

lemma ts_to_from_ticks [simp]: "ts_to_ticks (ts_from_ticks k) = k"
proof (rule word_uint_eqI)
  have "uint k div 2 ^ 32 mod 2 ^ 32 = uint k div 2 ^ 32"
    using uint_bounded [of k] by (intro mod_pos_pos_trivial) (simp_all add: pos_imp_zdiv_nonneg_iff)
  then show "uint (ts_to_ticks (ts_from_ticks k)) = uint k"
    unfolding uint_ts_to_ticks ts_from_ticks_def timestamp.sel unsigned_ucast_eq unsigned_drop_bit_eq
    by (simp add: drop_bit_eq_div take_bit_eq_mod)
qed

lemma ts_less_ticks: "a < b \<longleftrightarrow> uint (ts_to_ticks a) < uint (ts_to_ticks b)"
  using word32_bounds [of "ts_seconds a"] word32_bounds [of "ts_fraction a"]
    word32_bounds [of "ts_seconds b"] word32_bounds [of "ts_fraction b"]
  by (simp add: less_timestamp_def uint_ts_to_ticks word_less_def fixed_point_less word_le_def)

lemma dur_to_ticks_ts: "dur_to_ticks d = ts_to_ticks (Timestamp (dur_seconds d) (dur_fraction d))"
proof -
  have "push_bit 32 (scast w) = push_bit 32 (ucast w :: u64)" for w :: u32
    by (rule bit_word_eqI) (auto simp: bit_simps)
  then show ?thesis
    by (simp add: dur_to_ticks_def ts_to_ticks_def)
qed

lemma dur_from_ticks_ts:
  "dur_from_ticks k = Duration (ts_seconds (ts_from_ticks k)) (ts_fraction (ts_from_ticks k))"
proof -
  have "(ucast (signed_drop_bit 32 k) :: u32) = ucast (drop_bit 32 k)"
    by (rule bit_word_eqI) (auto simp: bit_simps)
  then show ?thesis
    by (simp add: dur_from_ticks_def ts_from_ticks_def)
qed

lemma dur_from_to_ticks [simp]: "dur_from_ticks (dur_to_ticks d) = d"
  by (simp add: dur_from_ticks_ts dur_to_ticks_ts)

lemma dur_to_from_ticks [simp]: "dur_to_ticks (dur_from_ticks k) = k"
  by (simp add: dur_from_ticks_ts dur_to_ticks_ts)

lemma int_signed_mod:
  fixes x n :: int
  assumes "0 \<le> x" "x < 2 * n"
  shows "(x + n) mod (2 * n) - n = (if x < n then x else x - 2 * n)"
proof (cases "x < n")
  case False
  have "(x + n) mod (2 * n) = ((x - n) + 2 * n) mod (2 * n)"
    by (simp only: mult_2) (simp add: algebra_simps)
  also have "\<dots> = x - n"
    using False assms by (simp only: mod_add_self2) simp
  finally show ?thesis
    using False by simp
qed (use assms in simp)

lemma signed_fixed_point:
  fixes s f :: int
  assumes "0 \<le> s" "s < 2 ^ 32" "0 \<le> f" "f < 2 ^ 32"
  shows "(s * 2 ^ 32 + f + 2 ^ 63) mod (2 * 2 ^ 63) - 2 ^ 63 =
    ((s + 2 ^ 31) mod (2 * 2 ^ 31) - 2 ^ 31) * 2 ^ 32 + f"
proof -
  have "0 \<le> s * 2 ^ 32 + f" "s * 2 ^ 32 + f < 2 * 2 ^ 63"
    using assms by auto
  moreover have "s * 2 ^ 32 + f < 2 ^ 63 \<longleftrightarrow> s < 2 ^ 31"
    using assms by auto
  ultimately show ?thesis
    using assms int_signed_mod [of s "2 ^ 31"] int_signed_mod [of "s * 2 ^ 32 + f" "2 ^ 63"]
    by (cases "s < 2 ^ 31") auto
qed

lemma sint_dur_to_ticks: "sint (dur_to_ticks d) = sint (dur_seconds d) * 2 ^ 32 + uint (dur_fraction d)"
proof -
  have "sint (dur_to_ticks d) = (uint (dur_to_ticks d) + 2 ^ 63) mod (2 * 2 ^ 63) - 2 ^ 63"
    by (simp add: sint_uint signed_take_bit_eq_take_bit_shift take_bit_eq_mod)
  moreover have "uint (dur_to_ticks d) = uint (dur_seconds d) * 2 ^ 32 + uint (dur_fraction d)"
    by (simp add: dur_to_ticks_ts uint_ts_to_ticks)
  moreover have "sint (dur_seconds d) = (uint (dur_seconds d) + 2 ^ 31) mod (2 * 2 ^ 31) - 2 ^ 31"
    by (simp add: sint_uint signed_take_bit_eq_take_bit_shift take_bit_eq_mod)
  ultimately show ?thesis
    using signed_fixed_point [OF word32_bounds word32_bounds] by metis
qed

lemma dur_less_ticks: "a < b \<longleftrightarrow> sint (dur_to_ticks a) < sint (dur_to_ticks b)"
  using word32_bounds [of "dur_fraction a"] word32_bounds [of "dur_fraction b"]
  by (simp add: less_duration_def sint_dur_to_ticks word_less_def fixed_point_less)

section \<open>Properties\<close>

text \<open>The order derived for time stamps (seconds, then fraction), by which the caches are keyed,
  is the order of the 64-bit tick counts, and tick counts convert back without loss.\<close>

theorem timestamp_order_ticks:
  "(a < b \<longleftrightarrow> ts_to_ticks a < ts_to_ticks b) \<and> ts_from_ticks (ts_to_ticks a) = a
    \<and> ts_to_ticks (ts_from_ticks k) = k"
  by (simp add: ts_less_ticks word_less_def)

text \<open>adding a duration and subtracting it again returns the time stamp, and the difference of
  two time stamps added to the earlier one gives the later one, for every pair of values,
  wrap-around included; only \<open>Timestamp::INVALID\<close> is absorbing for subtraction.\<close>

theorem timestamp_duration_arith:
  "(ts_add_dur t d \<noteq> Timestamp_INVALID \<longrightarrow> ts_sub_dur (ts_add_dur t d) d = t)
    \<and> ts_add_dur b (duration_since a b) = a \<and> ts_sub_dur Timestamp_INVALID d = Timestamp_INVALID"
  by (simp add: ts_add_dur_def ts_sub_dur_def duration_since_def ts_sub_def)

theorem timestamp_duration_arith_witness:
  "ts_sub_dur (ts_add_dur (Timestamp 7 9) (Duration 1 2)) (Duration 1 2) = Timestamp 7 9"
proof -
  have "ts_add_dur (Timestamp 7 9) (Duration 1 2) \<noteq> Timestamp_INVALID"
    by (simp add: ts_add_dur_def ts_to_ticks_def dur_to_ticks_def ts_from_ticks_def Timestamp_INVALID_def)
  then show ?thesis
    using timestamp_duration_arith by blast
qed

text \<open>a negative number of milliseconds that is not a whole number of seconds is converted to the
  wrong sign: \<open>Duration::from_millis(-500)\<close> is plus one half second, although the type and the
  constructor are signed.\<close>

theorem from_millis_negative:
  "dur_from_millis (- 500) = Duration 0 0x80000000 \<and> to_nanoseconds (dur_from_millis (- 500)) = 500000000"
proof -
  have "dur_from_millis (- 500) = Duration 0 0x80000000"
    by (simp add: dur_from_millis_def signed_divide_int_def signed_modulo_int_def)
  moreover have "sint (dur_to_ticks (Duration 0 0x80000000)) = 2 ^ 31"
    by (simp add: sint_dur_to_ticks)
  ultimately show ?thesis
    by (simp add: to_nanoseconds_def wrap_i64_def)
qed

end
