(* ===== verification/Guid.thy ===== *)
theory Guid
  imports Rust_Prelude
begin

text \<open>
  Entity identifiers (src/src/structure/guid.rs): GUID prefixes, entity kinds, entity ids and
  GUIDs, their byte forms, the polling tokens an entity id is packed into, and the derived
  lexicographic orders. A prefix is a list of bytes, of length 12 when it is well formed
  (\<open>wf_prefix\<close>); \<open>usize\<close> is a 64-bit word; a \<open>mio::Token\<close> is the \<open>usize\<close> it wraps. The lemmas show
  the byte and token round trips and that \<open>GuidPrefix::range\<close> selects exactly the GUIDs of one
  participant.
\<close>

section \<open>Prefixes, kinds and entity ids\<close>

datatype guid_prefix = GuidPrefix (prefix_bytes: bytes)

definition wf_prefix :: "guid_prefix \<Rightarrow> bool" where
  "wf_prefix p \<longleftrightarrow> length (prefix_bytes p) = 12"

definition GuidPrefix_UNKNOWN :: guid_prefix where
  "GuidPrefix_UNKNOWN = GuidPrefix (replicate 12 0)"

text \<open>The first twelve bytes of the argument over an array of zeros.\<close>

definition guid_prefix_new :: "bytes \<Rightarrow> guid_prefix" where
  "guid_prefix_new pre = GuidPrefix (take 12 pre @ replicate (12 - length pre) 0)"

type_synonym entity_kind = u8

definition is_reader :: "entity_kind \<Rightarrow> bool" where
  "is_reader k = (let e = k AND 0x0F in e = 0x04 \<or> e = 0x07 \<or> e = 0x09)"

definition is_writer :: "entity_kind \<Rightarrow> bool" where
  "is_writer k = (let e = k AND 0x0F in e = 0x02 \<or> e = 0x03 \<or> e = 0x08)"

definition is_built_in :: "entity_kind \<Rightarrow> bool" where
  "is_built_in k \<longleftrightarrow> k AND 0xF0 = 0xC0"

definition is_user_defined :: "entity_kind \<Rightarrow> bool" where
  "is_user_defined k \<longleftrightarrow> k AND 0xF0 = 0x00"

datatype entity_id = EntityId (entity_key: "u8 \<times> u8 \<times> u8") (entity_kind: entity_kind)

definition EntityId_UNKNOWN :: entity_id where
  "EntityId_UNKNOWN = EntityId (0, 0, 0) 0x00"

definition EntityId_PARTICIPANT :: entity_id where
  "EntityId_PARTICIPANT = EntityId (0, 0, 1) 0xC1"

definition SEDP_BUILTIN_PUBLICATIONS_WRITER :: entity_id where
  "SEDP_BUILTIN_PUBLICATIONS_WRITER = EntityId (0, 0, 3) 0xC2"

definition SEDP_BUILTIN_PUBLICATIONS_READER :: entity_id where
  "SEDP_BUILTIN_PUBLICATIONS_READER = EntityId (0, 0, 3) 0xC7"

definition SEDP_BUILTIN_SUBSCRIPTIONS_WRITER :: entity_id where
  "SEDP_BUILTIN_SUBSCRIPTIONS_WRITER = EntityId (0, 0, 4) 0xC2"

definition SEDP_BUILTIN_SUBSCRIPTIONS_READER :: entity_id where
  "SEDP_BUILTIN_SUBSCRIPTIONS_READER = EntityId (0, 0, 4) 0xC7"

definition SPDP_BUILTIN_PARTICIPANT_WRITER :: entity_id where
  "SPDP_BUILTIN_PARTICIPANT_WRITER = EntityId (0, 1, 0) 0xC2"

definition SPDP_BUILTIN_PARTICIPANT_READER :: entity_id where
  "SPDP_BUILTIN_PARTICIPANT_READER = EntityId (0, 1, 0) 0xC7"

definition EntityId_MIN :: entity_id where
  "EntityId_MIN = EntityId (0, 0, 0) 0x00"

definition EntityId_MAX :: entity_id where
  "EntityId_MAX = EntityId (0xFF, 0xFF, 0xFF) 0xFF"

fun entity_id_to_slice :: "entity_id \<Rightarrow> bytes" where
  "entity_id_to_slice (EntityId (a, b, c) k) = [a, b, c, k]"

fun entity_id_from_slice :: "bytes \<Rightarrow> entity_id option" where
  "entity_id_from_slice [a, b, c, k] = Some (EntityId (a, b, c) k)"
| "entity_id_from_slice _ = None"

fun entity_id_as_usize :: "entity_id \<Rightarrow> u64" where
  "entity_id_as_usize (EntityId (a, b, c) k) =
     ucast (push_bit 24 (ucast a) OR push_bit 16 (ucast b) OR push_bit 8 (ucast c) OR ucast k :: u32)"

definition entity_id_from_usize :: "u64 \<Rightarrow> entity_id" where
  "entity_id_from_usize n =
     EntityId (ucast (drop_bit 24 n AND 0xFF), ucast (drop_bit 16 n AND 0xFF), ucast (drop_bit 8 n AND 0xFF))
       (ucast (n AND 0xFF))"

text \<open>The assertion in \<open>as_token\<close> that bit 5 is zero panics otherwise.\<close>

definition as_token :: "entity_id \<Rightarrow> u64 option" where
  "as_token e = (let u = entity_id_as_usize e in if u AND NOT 0x20 = u then Some u else None)"

definition as_alt_token :: "entity_id \<Rightarrow> u64" where
  "as_alt_token e = entity_id_as_usize e OR 0x20"

datatype token_decode = Entity entity_id | AltEntity entity_id | FixedToken u64

definition from_token :: "u64 \<Rightarrow> token_decode" where
  "from_token t =
     (let n = (ucast (t AND 0xF0) :: u8)
      in if n = 0x00 \<or> n = 0xC0 then Entity (entity_id_from_usize t)
         else if n = 0x20 \<or> n = 0xE0 then AltEntity (entity_id_from_usize (t AND NOT 0x20))
         else FixedToken t)"

section \<open>GUIDs\<close>

datatype guid = GUID (guid_prefix: guid_prefix) (guid_entity_id: entity_id)

definition GUID_UNKNOWN :: guid where
  "GUID_UNKNOWN = GUID GuidPrefix_UNKNOWN EntityId_UNKNOWN"

definition guid_from_prefix :: "guid \<Rightarrow> entity_id \<Rightarrow> guid" where
  "guid_from_prefix g e = GUID (guid_prefix g) e"

definition guid_to_bytes :: "guid \<Rightarrow> bytes" where
  "guid_to_bytes g = prefix_bytes (guid_prefix g) @ entity_id_to_slice (guid_entity_id g)"

definition guid_from_bytes :: "bytes \<Rightarrow> guid option" where
  "guid_from_bytes bs =
     map_option (GUID (GuidPrefix (take 12 bs))) (entity_id_from_slice (take 4 (drop 12 bs)))"

subsection \<open>The derived orders\<close>

instantiation entity_id :: linorder
begin

definition less_eq_entity_id :: "entity_id \<Rightarrow> entity_id \<Rightarrow> bool" where
  "a \<le> b \<longleftrightarrow> (entity_key a, entity_kind a) \<le> (entity_key b, entity_kind b)"

definition less_entity_id :: "entity_id \<Rightarrow> entity_id \<Rightarrow> bool" where
  "a < b \<longleftrightarrow> (entity_key a, entity_kind a) < (entity_key b, entity_kind b)"

instance
proof
  fix a b c :: entity_id
  show "(a < b) = (a \<le> b \<and> \<not> b \<le> a)"
    unfolding less_eq_entity_id_def less_entity_id_def by (rule less_le_not_le)
  show "a \<le> a"
    unfolding less_eq_entity_id_def by (rule order_refl)
  show "a \<le> b \<Longrightarrow> b \<le> c \<Longrightarrow> a \<le> c"
    unfolding less_eq_entity_id_def by (rule order_trans)
  show "a \<le> b \<Longrightarrow> b \<le> a \<Longrightarrow> a = b"
    unfolding less_eq_entity_id_def by (metis order_antisym prod.inject entity_id.expand)
  show "a \<le> b \<or> b \<le> a"
    unfolding less_eq_entity_id_def by (rule linear)
qed

end

instantiation guid_prefix :: linorder
begin

definition less_eq_guid_prefix :: "guid_prefix \<Rightarrow> guid_prefix \<Rightarrow> bool" where
  "a \<le> b \<longleftrightarrow> prefix_bytes a \<le> prefix_bytes b"

definition less_guid_prefix :: "guid_prefix \<Rightarrow> guid_prefix \<Rightarrow> bool" where
  "a < b \<longleftrightarrow> prefix_bytes a < prefix_bytes b"

instance
proof
  fix a b c :: guid_prefix
  show "(a < b) = (a \<le> b \<and> \<not> b \<le> a)"
    unfolding less_eq_guid_prefix_def less_guid_prefix_def by (rule less_le_not_le)
  show "a \<le> a"
    unfolding less_eq_guid_prefix_def by (rule order_refl)
  show "a \<le> b \<Longrightarrow> b \<le> c \<Longrightarrow> a \<le> c"
    unfolding less_eq_guid_prefix_def by (rule order_trans)
  show "a \<le> b \<Longrightarrow> b \<le> a \<Longrightarrow> a = b"
    unfolding less_eq_guid_prefix_def by (metis order_antisym guid_prefix.expand)
  show "a \<le> b \<or> b \<le> a"
    unfolding less_eq_guid_prefix_def by (rule linear)
qed

end

instantiation guid :: linorder
begin

definition less_eq_guid :: "guid \<Rightarrow> guid \<Rightarrow> bool" where
  "a \<le> b \<longleftrightarrow> (guid_prefix a, guid_entity_id a) \<le> (guid_prefix b, guid_entity_id b)"

definition less_guid :: "guid \<Rightarrow> guid \<Rightarrow> bool" where
  "a < b \<longleftrightarrow> (guid_prefix a, guid_entity_id a) < (guid_prefix b, guid_entity_id b)"

instance
proof
  fix a b c :: guid
  show "(a < b) = (a \<le> b \<and> \<not> b \<le> a)"
    unfolding less_eq_guid_def less_guid_def by (rule less_le_not_le)
  show "a \<le> a"
    unfolding less_eq_guid_def by (rule order_refl)
  show "a \<le> b \<Longrightarrow> b \<le> c \<Longrightarrow> a \<le> c"
    unfolding less_eq_guid_def by (rule order_trans)
  show "a \<le> b \<Longrightarrow> b \<le> a \<Longrightarrow> a = b"
    unfolding less_eq_guid_def by (metis order_antisym prod.inject guid.expand)
  show "a \<le> b \<or> b \<le> a"
    unfolding less_eq_guid_def by (rule linear)
qed

end

text \<open>\<open>GuidPrefix::range\<close>: the inclusive range of GUIDs of one participant.\<close>

definition guid_prefix_range :: "guid_prefix \<Rightarrow> guid \<times> guid" where
  "guid_prefix_range p = (GUID p EntityId_MIN, GUID p EntityId_MAX)"

definition in_guid_range :: "guid \<times> guid \<Rightarrow> guid \<Rightarrow> bool" where
  "in_guid_range r g \<longleftrightarrow> fst r \<le> g \<and> g \<le> snd r"

section \<open>Lemmas\<close>

lemma entity_id_min: "EntityId_MIN \<le> e"
  by (cases e) (auto simp: less_eq_entity_id_def EntityId_MIN_def word_less_def word_le_def
      order_less_le)

lemma u8_max: "w \<le> (0xFF :: u8)"
  using uint_bounded [of w] by (simp add: word_le_def)

lemma entity_id_max: "e \<le> EntityId_MAX"
  using u8_max by (cases e) (auto simp: less_eq_entity_id_def EntityId_MAX_def order_less_le)

lemma in_guid_range_iff: "in_guid_range (guid_prefix_range p) g \<longleftrightarrow> guid_prefix g = p"
  using entity_id_min [of "guid_entity_id g"] entity_id_max [of "guid_entity_id g"]
  by (auto simp: in_guid_range_def guid_prefix_range_def less_eq_guid_def)

lemma entity_id_slice [simp]: "entity_id_from_slice (entity_id_to_slice e) = Some e"
  by (cases e rule: entity_id_to_slice.cases) simp

lemma length_entity_id_slice [simp]: "length (entity_id_to_slice e) = 4"
  by (cases e rule: entity_id_to_slice.cases) simp

lemma and_FF: "x AND 0xFF = take_bit 8 x" for x :: u64
  by (simp add: take_bit_eq_mask mask_eq_exp_minus_1)

lemma bit_u8_high: "8 \<le> n \<Longrightarrow> \<not> bit (w :: u8) n"
  by (auto dest: bit_imp_le_length)

lemma entity_id_usize [simp]: "entity_id_from_usize (entity_id_as_usize e) = e"
proof (cases e rule: entity_id_to_slice.cases)
  case (1 a b c k)
  show ?thesis
    unfolding 1 entity_id_as_usize.simps entity_id_from_usize_def and_FF
    by (auto intro!: bit_word_eqI simp: bit_simps bit_u8_high dest: bit_imp_le_length)
qed

text \<open>The kind occupies the low byte of the packed value.\<close>

lemma ucast_low_byte: "(ucast (entity_id_as_usize e) :: u8) = entity_kind e"
proof (cases e rule: entity_id_to_slice.cases)
  case (1 a b c k)
  show ?thesis
    unfolding 1 entity_id_as_usize.simps entity_id.sel
    by (auto intro!: bit_word_eqI simp: bit_simps bit_u8_high dest: bit_imp_le_length)
qed

lemma ucast_and: "(ucast (x AND y) :: u8) = ucast x AND ucast (y :: u64)"
  by (rule bit_word_eqI) (simp add: bit_simps)

lemma ucast_or: "(ucast (x OR y) :: u8) = ucast x OR ucast (y :: u64)"
  by (rule bit_word_eqI) (auto simp: bit_simps)

lemma bit_0x20: "bit (0x20 :: u64) n \<longleftrightarrow> n = 5"
  using bit_exp_iff [of 5 n, where 'a = u64] by auto

lemma low_nibble_masks: "(k :: u8) AND 0xF0 = 0x00 \<or> k AND 0xF0 = 0xC0 \<Longrightarrow> \<not> bit k 5"
proof
  assume "bit k 5" and eq: "k AND 0xF0 = 0x00 \<or> k AND 0xF0 = 0xC0"
  then have "bit (k AND 0xF0) 5" by (simp add: bit_and_iff bit_numeral_rec)
  with eq show False by (auto simp: bit_numeral_rec)
qed

lemma from_token_as_token:
  assumes "is_user_defined (entity_kind e) \<or> is_built_in (entity_kind e)"
  shows "\<exists>t. as_token e = Some t \<and> from_token t = Entity e"
proof -
  let ?u = "entity_id_as_usize e"
  have low: "(ucast (?u AND 0xF0) :: u8) = entity_kind e AND 0xF0"
    by (simp add: ucast_and ucast_low_byte)
  have "\<not> bit (entity_kind e) 5"
    using assms by (auto simp: is_user_defined_def is_built_in_def intro!: low_nibble_masks)
  then have "\<not> bit ?u 5"
    by (simp add: bit_ucast_iff flip: ucast_low_byte)
  then have "?u AND NOT 0x20 = ?u"
    by (intro bit_word_eqI, unfold bit_and_iff bit_or_iff bit_not_iff bit_0x20) auto
  moreover have "from_token ?u = Entity e"
    using assms low by (auto simp: from_token_def Let_def is_user_defined_def is_built_in_def)
  ultimately show ?thesis
    by (simp add: as_token_def Let_def)
qed

lemma from_token_as_alt_token:
  assumes "is_user_defined (entity_kind e) \<or> is_built_in (entity_kind e)"
  shows "from_token (as_alt_token e) = AltEntity e"
proof -
  let ?u = "entity_id_as_usize e"
  let ?k = "entity_kind e"
  have "\<not> bit ?k 5"
    using assms by (auto simp: is_user_defined_def is_built_in_def intro!: low_nibble_masks)
  then have "\<not> bit ?u 5"
    by (simp add: bit_ucast_iff flip: ucast_low_byte)
  then have strip: "(?u OR 0x20) AND NOT 0x20 = ?u"
    by (intro bit_word_eqI, unfold bit_and_iff bit_or_iff bit_not_iff bit_0x20) auto
  have "(ucast ((?u OR 0x20) AND 0xF0) :: u8) = (?k OR 0x20) AND 0xF0"
    by (simp add: ucast_and ucast_or ucast_low_byte)
  also have "\<dots> = (?k AND 0xF0) OR 0x20"
    by (simp add: and.commute bit.conj_disj_distrib)
  finally have "(ucast ((?u OR 0x20) AND 0xF0) :: u8) = (?k AND 0xF0) OR 0x20" .
  with assms strip show ?thesis
    by (auto simp: from_token_def as_alt_token_def Let_def is_user_defined_def is_built_in_def)
qed

lemma guid_bytes:
  assumes "wf_prefix (guid_prefix g)"
  shows "guid_from_bytes (guid_to_bytes g) = Some g" and "length (guid_to_bytes g) = 16"
  using assms by (cases g; simp add: guid_from_bytes_def guid_to_bytes_def wf_prefix_def)+

lemma wf_guid_prefix_new: "wf_prefix (guid_prefix_new pre)"
  by (simp add: wf_prefix_def guid_prefix_new_def)

lemma reader_not_writer: "is_reader k \<Longrightarrow> \<not> is_writer k"
  by (auto simp: is_reader_def is_writer_def Let_def)

section \<open>Properties\<close>

text \<open>for an entity id of a user-defined or a built-in kind, its polling token and its
  alternative (timer) token both decode to that entity id, each with its own tag, so the event
  loop never confuses the two.\<close>

theorem token_roundtrip:
  assumes "is_user_defined (entity_kind e) \<or> is_built_in (entity_kind e)"
  shows "(\<exists>t. as_token e = Some t \<and> from_token t = Entity e) \<and> from_token (as_alt_token e) = AltEntity e"
  using assms by (simp add: from_token_as_token from_token_as_alt_token)

theorem token_roundtrip_witness:
  "from_token (as_alt_token SPDP_BUILTIN_PARTICIPANT_WRITER) = AltEntity SPDP_BUILTIN_PARTICIPANT_WRITER"
  using token_roundtrip [of SPDP_BUILTIN_PARTICIPANT_WRITER]
  by (simp add: SPDP_BUILTIN_PARTICIPANT_WRITER_def is_built_in_def)

text \<open>The GUID range of a prefix holds exactly the GUIDs with that prefix, under the derived
  lexicographic order; removing a lost participant by range removes all of its endpoints and
  nobody else's.\<close>

theorem guid_prefix_range_exact: "in_guid_range (guid_prefix_range p) g \<longleftrightarrow> guid_prefix g = p"
  by (rule in_guid_range_iff)

end
