(* ===== verification/Locators.thy ===== *)
theory Locators
  imports Rust_Prelude
begin

text \<open>
  Transport locators (src/src/structure/locator.rs): the \<open>Locator\<close> enum, its wire representation
  \<open>repr::Locator\<close> and the conversions in both directions and from socket addresses. IP addresses
  are byte lists (4 or 16 octets), as the standard library's \<open>octets()\<close> returns them; a
  \<open>SocketAddrV6\<close> carries its flow info and scope id.
\<close>

record socket_v4 =
  v4_ip :: "u8 \<times> u8 \<times> u8 \<times> u8"
  v4_port :: u16

record socket_v6 =
  v6_ip :: bytes
  v6_port :: u16
  v6_flowinfo :: u32
  v6_scope_id :: u32

datatype locator =
    Locator_Invalid
  | Locator_Reserved
  | UdpV4 socket_v4
  | UdpV6 socket_v6
  | Locator_Other int u32 bytes

datatype socket_addr = SocketV4 socket_v4 | SocketV6 socket_v6

record repr_locator =
  rl_kind :: int
  rl_port :: u32
  rl_address :: bytes

definition INVALID_ADDRESS :: bytes where
  "INVALID_ADDRESS = replicate 16 0"

fun is_udp :: "locator \<Rightarrow> bool" where
  "is_udp (UdpV4 _) = True"
| "is_udp (UdpV6 _) = True"
| "is_udp _ = False"

text \<open>The standard library: 127.0.0.0/8 and ::1 are the loopback addresses.\<close>

definition v4_is_loopback :: "u8 \<times> u8 \<times> u8 \<times> u8 \<Rightarrow> bool" where
  "v4_is_loopback ip \<longleftrightarrow> fst ip = 127"

definition v6_is_loopback :: "bytes \<Rightarrow> bool" where
  "v6_is_loopback ip \<longleftrightarrow> ip = replicate 15 0 @ [1]"

fun is_loopback :: "locator \<Rightarrow> bool" where
  "is_loopback (UdpV4 a) = v4_is_loopback (v4_ip a)"
| "is_loopback (UdpV6 a) = v6_is_loopback (v6_ip a)"
| "is_loopback _ = False"

fun locator_to_socket_addr :: "locator \<Rightarrow> socket_addr" where
  "locator_to_socket_addr (UdpV4 a) = SocketV4 a"
| "locator_to_socket_addr (UdpV6 a) = SocketV6 a"
| "locator_to_socket_addr _ =
     SocketV6 \<lparr>v6_ip = INVALID_ADDRESS, v6_port = 0, v6_flowinfo = 0, v6_scope_id = 0\<rparr>"

fun socket_is_unspecified :: "socket_addr \<Rightarrow> bool" where
  "socket_is_unspecified (SocketV4 a) = (v4_ip a = (0, 0, 0, 0))"
| "socket_is_unspecified (SocketV6 a) = (v6_ip a = replicate 16 0)"

fun locator_from_socket_addr :: "socket_addr \<Rightarrow> locator" where
  "locator_from_socket_addr sa =
     (if socket_is_unspecified sa then Locator_Invalid
      else case sa of SocketV4 a \<Rightarrow> UdpV4 a | SocketV6 a \<Rightarrow> UdpV6 a)"

text \<open>
  \<open>From<repr::Locator>\<close>; the address array has 16 octets, so the indices are in range.
\<close>

definition locator_from_repr :: "repr_locator \<Rightarrow> locator" where
  "locator_from_repr r =
     (if rl_kind r = -1 then Locator_Invalid
      else if rl_kind r = 0 then Locator_Reserved
      else if rl_kind r = 1 then
        UdpV4 \<lparr>v4_ip = (rl_address r ! 12, rl_address r ! 13, rl_address r ! 14, rl_address r ! 15),
               v4_port = ucast (rl_port r)\<rparr>
      else if rl_kind r = 2 then
        UdpV6 \<lparr>v6_ip = rl_address r, v6_port = ucast (rl_port r), v6_flowinfo = 0, v6_scope_id = 0\<rparr>
      else Locator_Other (rl_kind r) (rl_port r) (rl_address r))"

fun locator_to_repr :: "locator \<Rightarrow> repr_locator" where
  "locator_to_repr Locator_Invalid = \<lparr>rl_kind = -1, rl_port = 0, rl_address = INVALID_ADDRESS\<rparr>"
| "locator_to_repr Locator_Reserved = \<lparr>rl_kind = 0, rl_port = 0, rl_address = INVALID_ADDRESS\<rparr>"
| "locator_to_repr (UdpV4 a) =
     (case v4_ip a of (w, x, y, z) \<Rightarrow>
        \<lparr>rl_kind = 1, rl_port = ucast (v4_port a), rl_address = replicate 12 0 @ [w, x, y, z]\<rparr>)"
| "locator_to_repr (UdpV6 a) =
     \<lparr>rl_kind = 2, rl_port = ucast (v6_port a), rl_address = v6_ip a\<rparr>"
| "locator_to_repr (Locator_Other k p a) = \<lparr>rl_kind = k, rl_port = p, rl_address = a\<rparr>"

text \<open>What a locator loses on the wire: the flow info and the scope of an IPv6 address.\<close>

fun wire_locator :: "locator \<Rightarrow> bool" where
  "wire_locator (UdpV6 a) = (length (v6_ip a) = 16 \<and> v6_flowinfo a = 0 \<and> v6_scope_id a = 0)"
| "wire_locator (Locator_Other k p a) = (k \<notin> {-1, 0, 1, 2} \<and> length a = 16)"
| "wire_locator _ = True"

lemma ucast_u16_u32: "ucast (ucast p :: u32) = (p :: u16)"
  by (rule bit_word_eqI) (simp add: bit_simps)

lemma locator_repr_roundtrip: "wire_locator l \<Longrightarrow> locator_from_repr (locator_to_repr l) = l"
  by (cases l rule: locator_to_repr.cases)
    (auto simp: locator_from_repr_def ucast_u16_u32 nth_append split: prod.splits)

lemma wire_locator_from_repr:
  "length (rl_address r) = 16 \<Longrightarrow> wire_locator (locator_from_repr r)"
  by (auto simp: locator_from_repr_def)

lemma locator_socket_roundtrip:
  "is_udp l \<Longrightarrow> \<not> socket_is_unspecified (locator_to_socket_addr l)
    \<Longrightarrow> locator_from_socket_addr (locator_to_socket_addr l) = l"
  by (cases l) auto

end
