(* ===== verification/Writer_Proxy.thy ===== *)
theory Writer_Proxy
  imports Sequence_Number Time_Duration Guid Locators
begin

text \<open>
  The reader's view of a remote writer (src/src/rtps/rtps_writer_proxy.rs): which sequence
  numbers have been received or declared unavailable, and below which one everything can be
  acknowledged. The operations return the updated proxy; those that iterate over a range of
  sequence numbers return \<^const>\<open>None\<close> when the iteration never ends.

  The abstract specification is the set of known sequence numbers (\<open>wp_known\<close>): every operation
  adds exactly the numbers it is told about, \<open>ack_base\<close> is the least unknown number
  (\<open>wp_inv\<close>) and \<open>missing_seqnums\<close> lists exactly the unknown numbers of the heartbeat's range.
  The locale \<open>reception_tracker\<close> states this contract for the RTPS reader that uses the proxy.
\<close>

record rtps_writer_proxy =
  remote_writer_guid :: guid
  wp_unicast_locator_list :: "locator list"
  wp_multicast_locator_list :: "locator list"
  wp_remote_group_entity_id :: entity_id
  changes :: "(seqnum, timestamp option) btree_map"
  received_heartbeat_count :: int
  sent_ack_nack_count :: int
  ack_base :: seqnum
  last_received_sequence_number :: seqnum
  last_received_timestamp :: timestamp

definition wp_new :: "guid \<Rightarrow> locator list \<Rightarrow> locator list \<Rightarrow> entity_id \<Rightarrow> rtps_writer_proxy" where
  "wp_new g ul ml ge = \<lparr>
     remote_writer_guid = g,
     wp_unicast_locator_list = ul,
     wp_multicast_locator_list = ml,
     wp_remote_group_entity_id = ge,
     changes = bm_empty,
     received_heartbeat_count = 0,
     sent_ack_nack_count = 0,
     ack_base = sn_new 1,
     last_received_sequence_number = sn_new 0,
     last_received_timestamp = Timestamp_INVALID\<rparr>"

definition next_ack_nack_sequence_number :: "rtps_writer_proxy \<Rightarrow> int \<times> rtps_writer_proxy" where
  "next_ack_nack_sequence_number w =
     (sent_ack_nack_count w, w\<lparr>sent_ack_nack_count := wrap_i32 (sent_ack_nack_count w + 1)\<rparr>)"

definition all_ackable_before :: "rtps_writer_proxy \<Rightarrow> seqnum" where
  "all_ackable_before w = ack_base w"

definition wp_update_contents :: "rtps_writer_proxy \<Rightarrow> rtps_writer_proxy \<Rightarrow> rtps_writer_proxy" where
  "wp_update_contents w other = w\<lparr>
     wp_unicast_locator_list := wp_unicast_locator_list other,
     wp_multicast_locator_list := wp_multicast_locator_list other,
     wp_remote_group_entity_id := wp_remote_group_entity_id other\<rparr>"

definition last_change_timestamp :: "rtps_writer_proxy \<Rightarrow> timestamp option" where
  "last_change_timestamp w =
     (if last_received_sequence_number w > sn_new 0 then Some (last_received_timestamp w) else None)"

definition no_changes_received :: "rtps_writer_proxy \<Rightarrow> bool" where
  "no_changes_received w \<longleftrightarrow> ack_base w = sn_new 0 \<and> bm_is_empty (changes w)"

text \<open>The body of the loop over the advertised range, with the remaining known numbers.\<close>

fun missing_loop :: "seqnum list \<Rightarrow> seqnum list \<Rightarrow> seqnum list" where
  "missing_loop known [] = []"
| "missing_loop [] (s # ss) = s # missing_loop [] ss"
| "missing_loop (k # ks) (s # ss) =
     (if k = s then missing_loop ks ss else s # missing_loop (k # ks) ss)"

definition missing_seqnums :: "rtps_writer_proxy \<Rightarrow> seqnum \<Rightarrow> seqnum \<Rightarrow> seqnum list option" where
  "missing_seqnums w hb_first_sn hb_last_sn =
     (if hb_first_sn > hb_last_sn then Some []
      else
        let relevant_interval = range_inclusive (max hb_first_sn (ack_base w)) hb_last_sn;
            known = (if range_begin relevant_interval \<le> range_end relevant_interval
                     then filter (\<lambda>k. range_begin relevant_interval \<le> k \<and> k \<le> range_end relevant_interval)
                            (bm_keys (changes w))
                     else [])
        in map_option (missing_loop known) (sn_range_collect relevant_interval))"

definition should_ignore_change :: "rtps_writer_proxy \<Rightarrow> seqnum \<Rightarrow> bool" where
  "should_ignore_change w seqnum \<longleftrightarrow> seqnum < ack_base w \<or> bm_contains (changes w) seqnum"

text \<open>The loop of \<open>advance_ack_base\<close>: current base, number looked for, keys from the base on.\<close>

fun advance_loop :: "seqnum \<Rightarrow> seqnum \<Rightarrow> seqnum list \<Rightarrow> seqnum" where
  "advance_loop base test_sn [] = base"
| "advance_loop base test_sn (sn # sns) =
     (if sn = test_sn
      then let test_sn' = sn_add test_sn (sn_new 1) in advance_loop test_sn' test_sn' sns
      else base)"

definition advance_ack_base :: "rtps_writer_proxy \<Rightarrow> rtps_writer_proxy" where
  "advance_ack_base w =
     w\<lparr>ack_base := advance_loop (ack_base w) (ack_base w)
                     (filter (\<lambda>k. ack_base w \<le> k) (bm_keys (changes w)))\<rparr>"

definition received_changes_add :: "rtps_writer_proxy \<Rightarrow> seqnum \<Rightarrow> timestamp \<Rightarrow> rtps_writer_proxy" where
  "received_changes_add w seq_num receive_timestamp =
     (let w1 = w\<lparr>changes := bm_insert seq_num (Some receive_timestamp) (changes w)\<rparr>;
          w2 = (if seq_num > last_received_sequence_number w1
                then w1\<lparr>last_received_sequence_number := seq_num,
                        last_received_timestamp := receive_timestamp\<rparr>
                else w1)
      in if seq_num = ack_base w2 then advance_ack_base w2 else w2)"

definition set_irrelevant_change :: "rtps_writer_proxy \<Rightarrow> seqnum \<Rightarrow> rtps_writer_proxy" where
  "set_irrelevant_change w seq_num =
     (let w1 = (if seq_num \<ge> ack_base w
                then w\<lparr>changes := bm_insert seq_num None (changes w)\<rparr> else w)
      in if seq_num = ack_base w1 then advance_ack_base w1 else w1)"

definition irrelevant_changes_range ::
    "rtps_writer_proxy \<Rightarrow> seqnum \<Rightarrow> seqnum \<Rightarrow> rtps_writer_proxy option" where
  "irrelevant_changes_range w remove_from remove_until_before =
     (if remove_from > remove_until_before then Some w
      else if remove_from \<le> ack_base w then
        let (before, removed_and_after) = bm_split_off remove_from (changes w);
            (removed, after) = bm_split_off remove_until_before removed_and_after;
            w1 = w\<lparr>changes := bm_append before after\<rparr>
        in Some (if remove_until_before > ack_base w1
                 then advance_ack_base (w1\<lparr>ack_base := remove_until_before\<rparr>)
                 else w1)
      else
        map_option
          (\<lambda>nas. w\<lparr>changes := fold (\<lambda>na. bm_insert na None) nas (changes w)\<rparr>)
          (sn_range_collect (range_inclusive remove_from (sn_sub remove_until_before (sn_new 1)))))"

definition irrelevant_changes_up_to :: "rtps_writer_proxy \<Rightarrow> seqnum \<Rightarrow> rtps_writer_proxy option" where
  "irrelevant_changes_up_to w smallest_seqnum =
     irrelevant_changes_range w (sn_new 0) smallest_seqnum"

definition discovered_or_default :: "locator list \<Rightarrow> locator list \<Rightarrow> locator list" where
  "discovered_or_default drd dflt = (if drd = [] then dflt else drd)"

text \<open>
  \<open>from_discovered_writer_data\<close>, on the three fields of the discovered writer it reads: the
  GUID and the unicast and multicast locator lists of its \<open>writer_proxy\<close>.
\<close>

definition wp_from_discovered_writer_data ::
    "guid \<times> locator list \<times> locator list \<Rightarrow> locator list \<Rightarrow> locator list \<Rightarrow> rtps_writer_proxy" where
  "wp_from_discovered_writer_data dwd default_ul default_ml =
     (case dwd of (g, ul, ml) \<Rightarrow> \<lparr>
       remote_writer_guid = g,
       wp_unicast_locator_list = discovered_or_default ul default_ul,
       wp_multicast_locator_list = discovered_or_default ml default_ml,
       wp_remote_group_entity_id = EntityId_UNKNOWN,
       changes = bm_empty,
       received_heartbeat_count = 0,
       sent_ack_nack_count = 0,
       ack_base = sn_default,
       last_received_sequence_number = sn_new 0,
       last_received_timestamp = Timestamp_INVALID\<rparr>)"

section \<open>The abstract specification\<close>

definition wp_known :: "rtps_writer_proxy \<Rightarrow> seqnum \<Rightarrow> bool" where
  "wp_known w sn \<longleftrightarrow> sn < ack_base w \<or> bm_contains (changes w) sn"

text \<open>
  The invariant: \<open>ack_base\<close> itself is not known, and every number is a valid sequence number
  below the largest \<open>i64\<close>, so that advancing past it does not overflow.
\<close>

definition wp_inv :: "rtps_writer_proxy \<Rightarrow> bool" where
  "wp_inv w \<longleftrightarrow> \<not> bm_contains (changes w) (ack_base w)
     \<and> in_i64 (ack_base w)
     \<and> (\<forall>k. bm_contains (changes w) k \<longrightarrow> in_i64 k \<and> k < i64_max)"

text \<open>What arrives from the remote writer: data, one gap number, a range of gap numbers.\<close>

datatype rx_event = RxData seqnum timestamp | RxGap seqnum | RxGapRange seqnum seqnum

fun wp_step :: "rtps_writer_proxy \<Rightarrow> rx_event \<Rightarrow> rtps_writer_proxy option" where
  "wp_step w (RxData sn ts) = Some (received_changes_add w sn ts)"
| "wp_step w (RxGap sn) = Some (set_irrelevant_change w sn)"
| "wp_step w (RxGapRange a b) = irrelevant_changes_range w a b"

fun rx_covers :: "rx_event \<Rightarrow> seqnum \<Rightarrow> bool" where
  "rx_covers (RxData sn ts) x = (x = sn)"
| "rx_covers (RxGap sn) x = (x = sn)"
| "rx_covers (RxGapRange a b) x = (a \<le> x \<and> x < b)"

fun rx_valid :: "rx_event \<Rightarrow> bool" where
  "rx_valid (RxData sn ts) = (in_i64 sn \<and> sn < i64_max)"
| "rx_valid (RxGap sn) = (in_i64 sn \<and> sn < i64_max)"
| "rx_valid (RxGapRange a b) = (in_i64 a \<and> in_i64 b)"

section \<open>Advancing the base\<close>

lemma advance_loop_spec:
  assumes "sorted_wrt (<) ks" and "\<forall>k \<in> set ks. t \<le> k \<and> in_i64 k \<and> k < i64_max" and "in_i64 t"
  shows "t \<le> advance_loop t t ks \<and> advance_loop t t ks \<notin> set ks
    \<and> in_i64 (advance_loop t t ks) \<and> (\<forall>x. t \<le> x \<and> x < advance_loop t t ks \<longrightarrow> x \<in> set ks)"
  using assms
proof (induction ks arbitrary: t)
  case (Cons k ks)
  show ?case
  proof (cases "k = t")
    case True
    then have "sn_add t (sn_new 1) = t + 1" and "in_i64 (t + 1)"
      using Cons.prems by (auto simp: sn_new_def in_i64_def intro!: sn_add_exact)
    moreover from this have IH: "t + 1 \<le> advance_loop (t + 1) (t + 1) ks
        \<and> advance_loop (t + 1) (t + 1) ks \<notin> set ks \<and> in_i64 (advance_loop (t + 1) (t + 1) ks)
        \<and> (\<forall>x. t + 1 \<le> x \<and> x < advance_loop (t + 1) (t + 1) ks \<longrightarrow> x \<in> set ks)"
      using Cons.prems True by (intro Cons.IH) auto
    moreover have "x \<in> set (k # ks)" if "t \<le> x" "x < advance_loop (t + 1) (t + 1) ks" for x
      using IH that True by (cases "x = t") auto
    ultimately show ?thesis
      using True by (auto simp: Let_def)
  qed (use Cons.prems in \<open>auto simp: Let_def\<close>)
qed simp

lemma advance_ack_base_spec:
  assumes "\<forall>k. bm_contains (changes w) k \<longrightarrow> in_i64 k \<and> k < i64_max" and "in_i64 (ack_base w)"
  shows "wp_inv (advance_ack_base w)"
    and "wp_known (advance_ack_base w) = wp_known w"
    and "ack_base w \<le> ack_base (advance_ack_base w)"
    and "changes (advance_ack_base w) = changes w"
proof -
  define ks where "ks = filter (\<lambda>k. ack_base w \<le> k) (bm_keys (changes w))"
  define r where "r = advance_loop (ack_base w) (ack_base w) ks"
  have ks: "x \<in> set ks \<longleftrightarrow> ack_base w \<le> x \<and> bm_contains (changes w) x" for x
    by (auto simp: ks_def)
  have "sorted_wrt (<) ks" "\<forall>k \<in> set ks. ack_base w \<le> k \<and> in_i64 k \<and> k < i64_max"
    using assms by (auto simp: ks_def sorted_wrt_filter)
  from advance_loop_spec [OF this assms(2)] have r: "ack_base w \<le> r" "r \<notin> set ks" "in_i64 r"
      and between: "\<And>x. ack_base w \<le> x \<Longrightarrow> x < r \<Longrightarrow> x \<in> set ks"
    by (simp_all flip: r_def)
  have eq: "advance_ack_base w = w\<lparr>ack_base := r\<rparr>"
    by (simp add: advance_ack_base_def r_def ks_def)
  show "ack_base w \<le> ack_base (advance_ack_base w)" "changes (advance_ack_base w) = changes w"
    using r by (simp_all add: eq)
  show "wp_inv (advance_ack_base w)"
    using assms r by (simp add: eq wp_inv_def ks)
  show "wp_known (advance_ack_base w) = wp_known w"
  proof
    fix x
    show "wp_known (advance_ack_base w) x = wp_known w x"
      using r(1) between [of x] by (cases "ack_base w \<le> x") (auto simp: wp_known_def eq ks)
  qed
qed

lemma wp_inv_new: "wp_inv (wp_new g ul ml ge)"
  by (simp add: wp_inv_def wp_new_def sn_new_def in_i64_def i64_min_def i64_max_def)

lemma should_ignore_change_iff: "should_ignore_change w sn \<longleftrightarrow> wp_known w sn"
  by (simp add: should_ignore_change_def wp_known_def)

section \<open>Each operation adds exactly what it is told\<close>

lemma received_changes_add_spec:
  assumes inv: "wp_inv w" and sn: "in_i64 sn" "sn < i64_max"
  shows "wp_inv (received_changes_add w sn ts)"
    and "wp_known (received_changes_add w sn ts) = (\<lambda>x. wp_known w x \<or> x = sn)"
    and "ack_base w \<le> ack_base (received_changes_add w sn ts)"
proof -
  define w2 where "w2 = (let w1 = w\<lparr>changes := bm_insert sn (Some ts) (changes w)\<rparr>
      in if sn > last_received_sequence_number w1
         then w1\<lparr>last_received_sequence_number := sn, last_received_timestamp := ts\<rparr> else w1)"
  have w2: "changes w2 = bm_insert sn (Some ts) (changes w)" "ack_base w2 = ack_base w"
    by (simp_all add: w2_def Let_def)
  have eq: "received_changes_add w sn ts = (if sn = ack_base w then advance_ack_base w2 else w2)"
    by (simp add: received_changes_add_def w2_def Let_def)
  have keys: "\<forall>k. bm_contains (changes w2) k \<longrightarrow> in_i64 k \<and> k < i64_max" "in_i64 (ack_base w2)"
    using inv sn by (auto simp: wp_inv_def w2)
  have known: "wp_known w2 = (\<lambda>x. wp_known w x \<or> x = sn)"
    by (auto simp: wp_known_def w2)
  show "wp_inv (received_changes_add w sn ts)"
    using advance_ack_base_spec(1) [OF keys] inv keys by (auto simp: eq wp_inv_def w2)
  show "wp_known (received_changes_add w sn ts) = (\<lambda>x. wp_known w x \<or> x = sn)"
    using advance_ack_base_spec(2) [OF keys] known by (simp add: eq)
  show "ack_base w \<le> ack_base (received_changes_add w sn ts)"
    using advance_ack_base_spec(3) [OF keys] by (simp add: eq w2)
qed

lemma set_irrelevant_change_spec:
  assumes inv: "wp_inv w" and sn: "in_i64 sn" "sn < i64_max"
  shows "wp_inv (set_irrelevant_change w sn)"
    and "wp_known (set_irrelevant_change w sn) = (\<lambda>x. wp_known w x \<or> x = sn)"
    and "ack_base w \<le> ack_base (set_irrelevant_change w sn)"
proof -
  define w1 where "w1 = (if sn \<ge> ack_base w
      then w\<lparr>changes := bm_insert sn None (changes w)\<rparr> else w)"
  have w1: "ack_base w1 = ack_base w"
    "bm_contains (changes w1) k \<longleftrightarrow> bm_contains (changes w) k \<or> k = sn \<and> sn \<ge> ack_base w" for k
    by (auto simp: w1_def)
  have eq: "set_irrelevant_change w sn = (if sn = ack_base w then advance_ack_base w1 else w1)"
    by (simp add: set_irrelevant_change_def w1_def Let_def)
  have keys: "\<forall>k. bm_contains (changes w1) k \<longrightarrow> in_i64 k \<and> k < i64_max" "in_i64 (ack_base w1)"
    using inv sn by (auto simp: wp_inv_def w1)
  have known: "wp_known w1 = (\<lambda>x. wp_known w x \<or> x = sn)"
    by (rule ext) (auto simp: wp_known_def w1)
  show "wp_inv (set_irrelevant_change w sn)"
    using advance_ack_base_spec(1) [OF keys] inv keys by (auto simp: eq wp_inv_def w1)
  show "wp_known (set_irrelevant_change w sn) = (\<lambda>x. wp_known w x \<or> x = sn)"
    using advance_ack_base_spec(2) [OF keys] known by (simp add: eq)
  show "ack_base w \<le> ack_base (set_irrelevant_change w sn)"
    using advance_ack_base_spec(3) [OF keys] by (simp add: eq w1)
qed

lemma contains_fold_insert:
  "bm_contains (fold (\<lambda>k. bm_insert k v) ks m) x \<longleftrightarrow> x \<in> set ks \<or> bm_contains m x"
  by (induction ks arbitrary: m) auto

lemma irrelevant_changes_range_spec:
  assumes inv: "wp_inv w" and ab: "in_i64 a" "in_i64 b"
  obtains w' where "irrelevant_changes_range w a b = Some w'" and "wp_inv w'"
    and "wp_known w' = (\<lambda>x. wp_known w x \<or> a \<le> x \<and> x < b)" and "ack_base w \<le> ack_base w'"
proof (cases "a > b")
  case True
  then show thesis
    using inv by (intro that [of w]) (auto simp: irrelevant_changes_range_def)
next
  case False
  show thesis
  proof (cases "a \<le> ack_base w")
    case True
    define m where "m = bm_append (bm_retain (\<lambda>k _. k < a) (changes w))
        (bm_retain (\<lambda>k _. b \<le> k) (bm_retain (\<lambda>k _. a \<le> k) (changes w)))"
    have m: "bm_contains m k \<longleftrightarrow> bm_contains (changes w) k \<and> \<not> (a \<le> k \<and> k < b)" for k
      using False by (auto simp: m_def bm_contains_def get_append split: option.splits)
    let ?w1 = "w\<lparr>changes := m, ack_base := b\<rparr>"
    have eq: "irrelevant_changes_range w a b =
        Some (if b > ack_base w then advance_ack_base ?w1 else w\<lparr>changes := m\<rparr>)"
      using True False by (simp add: irrelevant_changes_range_def bm_split_off_def m_def Let_def)
    show thesis
    proof (cases "b > ack_base w")
      case less: True
      have keys: "\<forall>k. bm_contains (changes ?w1) k \<longrightarrow> in_i64 k \<and> k < i64_max" "in_i64 (ack_base ?w1)"
        using inv ab by (auto simp: wp_inv_def m)
      have "wp_known ?w1 = (\<lambda>x. wp_known w x \<or> a \<le> x \<and> x < b)"
        using True less by (auto simp: wp_known_def m fun_eq_iff)
      with advance_ack_base_spec [OF keys] eq less show thesis
        by (intro that) auto
    next
      case ge: False
      have "wp_known (w\<lparr>changes := m\<rparr>) = (\<lambda>x. wp_known w x \<or> a \<le> x \<and> x < b)"
        using ge by (auto simp: wp_known_def m fun_eq_iff)
      moreover have "wp_inv (w\<lparr>changes := m\<rparr>)"
        using inv by (auto simp: wp_inv_def m)
      ultimately show thesis
        using eq ge by (intro that) auto
    qed
  next
    case gt: False
    have "b > i64_min"
      using False gt inv ab by (auto simp: wp_inv_def in_i64_def)
    then have sub: "sn_sub b (sn_new 1) = b - 1" and "b - 1 < i64_max"
      using ab by (auto simp: sn_sub_def sn_new_def in_i64_def intro!: wrap_i64_id)
    then have "sn_range_collect (range_inclusive a (sn_sub b (sn_new 1))) = Some [a..b - 1]"
      using ab by (simp add: sn_range_collect_eq)
    then have eq: "irrelevant_changes_range w a b =
        Some (w\<lparr>changes := fold (\<lambda>na. bm_insert na None) [a..b - 1] (changes w)\<rparr>)"
      using False gt by (simp add: irrelevant_changes_range_def)
    have "x \<le> b - 1 \<longleftrightarrow> x < b" for x :: int by auto
    then show thesis
      using inv gt ab
      by (intro that [OF eq]) (auto simp: wp_inv_def wp_known_def contains_fold_insert fun_eq_iff in_i64_def)
  qed
qed

lemma missing_loop_eq:
  assumes "sorted_wrt (<) ks" and "sorted_wrt (<) ss" and "set ks \<subseteq> set ss"
  shows "missing_loop ks ss = filter (\<lambda>s. s \<notin> set ks) ss"
  using assms
proof (induction ks ss rule: missing_loop.induct)
  case (3 k ks s ss)
  show ?case
  proof (cases "k = s")
    case True
    then have "set ks \<subseteq> set ss" and "s \<notin> set ss"
      using 3 by fastforce+
    with True 3 show ?thesis
      by (auto intro!: filter_cong)
  next
    case False
    moreover from this have "s \<notin> set ks"
      using 3 by fastforce
    moreover have "set (k # ks) \<subseteq> set ss"
      using 3 False \<open>s \<notin> set ks\<close> by auto
    ultimately show ?thesis
      using 3 by simp
  qed
qed simp_all

lemma upto_sorted: "sorted_wrt (<) [a..b]"
  by (induction a b rule: upto.induct) (subst upto.simps, auto)

lemma missing_seqnums_spec:
  assumes inv: "wp_inv w" and f: "in_i64 f" and l: "l < i64_max"
  shows "missing_seqnums w f l = Some (filter (\<lambda>x. \<not> wp_known w x) [f..l])"
proof (cases "f > l")
  case False
  let ?lo = "max f (ack_base w)"
  let ?known = "filter (\<lambda>k. ?lo \<le> k \<and> k \<le> l) (bm_keys (changes w))"
  have "in_i64 ?lo"
    using inv f by (auto simp: wp_inv_def max_def)
  then have "sn_range_collect (range_inclusive ?lo l) = Some [?lo..l]"
    using l by (rule sn_range_collect_eq)
  moreover have "(if ?lo \<le> l then ?known else []) = ?known"
    by (auto simp: filter_empty_conv)
  ultimately have "missing_seqnums w f l = Some (missing_loop ?known [?lo..l])"
    using False by (simp add: missing_seqnums_def Let_def range_inclusive_def)
  also have "missing_loop ?known [?lo..l] = filter (\<lambda>x. x \<notin> set ?known) [?lo..l]"
    by (rule missing_loop_eq) (auto simp: upto_sorted sorted_wrt_filter)
  also have "\<dots> = filter (\<lambda>x. \<not> wp_known w x) [?lo..l]"
    by (rule filter_cong) (auto simp: wp_known_def)
  also have "\<dots> = filter (\<lambda>x. \<not> wp_known w x) [f..l]"
  proof (cases "ack_base w \<le> f")
    case False
    then have "filter (\<lambda>x. \<not> wp_known w x) [f..min l (ack_base w - 1)] = []"
      by (auto simp: filter_empty_conv wp_known_def)
    moreover have "[f..l] = [f..min l (ack_base w - 1)] @ [?lo..l]"
      using False upto_split2 [of f "ack_base w - 1" l] by (auto simp: min_def max_def)
    ultimately show ?thesis
      by simp
  qed (simp add: max_def)
  finally show ?thesis .
qed (simp add: missing_seqnums_def)

lemma missing_seqnums_None:
  assumes "wp_inv wp" and "in_i64 f"
  shows "missing_seqnums wp f i64_max = None"
  using assms sn_range_collect_None [of "max f (ack_base wp)"]
  by (auto simp: missing_seqnums_def wp_inv_def in_i64_def max_def Let_def)

section \<open>The contract the reader relies on\<close>

text \<open>
  A tracker of received numbers: a set \<open>known\<close>, the least unknown number \<open>ack\<close>, a step for each
  kind of information and the list of unknown numbers of a range. Inside the locale: a run of
  events makes exactly the covered numbers known, acknowledgements never move backwards and
  never pass an uncovered number, and receiving everything a request listed completes the range.
\<close>

locale reception_tracker =
  fixes inv :: "'w \<Rightarrow> bool"
    and known :: "'w \<Rightarrow> seqnum \<Rightarrow> bool"
    and ack :: "'w \<Rightarrow> seqnum"
    and step :: "'w \<Rightarrow> rx_event \<Rightarrow> 'w option"
    and missing :: "'w \<Rightarrow> seqnum \<Rightarrow> seqnum \<Rightarrow> seqnum list option"
  assumes step_law: "inv w \<Longrightarrow> rx_valid e \<Longrightarrow>
      \<exists>w'. step w e = Some w' \<and> inv w' \<and> known w' = (\<lambda>x. known w x \<or> rx_covers e x)"
    and ack_law: "inv w \<Longrightarrow> \<not> known w (ack w) \<and> (\<forall>x < ack w. known w x)"
    and missing_law: "inv w \<Longrightarrow> in_i64 f \<Longrightarrow> l < i64_max \<Longrightarrow>
      missing w f l = Some (filter (\<lambda>x. \<not> known w x) [f..l])"
begin

primrec run :: "'w \<Rightarrow> rx_event list \<Rightarrow> 'w option" where
  "run w [] = Some w"
| "run w (e # es) = Option.bind (step w e) (\<lambda>w'. run w' es)"

lemma run_covers:
  assumes "inv w" and "\<forall>e \<in> set es. rx_valid e"
  shows "\<exists>w'. run w es = Some w' \<and> inv w' \<and>
    known w' = (\<lambda>x. known w x \<or> (\<exists>e \<in> set es. rx_covers e x))"
  using assms
proof (induction es arbitrary: w)
  case (Cons e es)
  from Cons.prems obtain w1 where w1: "step w e = Some w1" "inv w1"
      "known w1 = (\<lambda>x. known w x \<or> rx_covers e x)"
    using step_law [of w e] by auto
  with Cons.IH [of w1] Cons.prems show ?case
    by (auto simp: fun_eq_iff)
qed auto

lemma ack_mono:
  assumes "inv w" and "inv w'" and "\<forall>x. known w x \<longrightarrow> known w' x"
  shows "ack w \<le> ack w'"
  using ack_law [OF assms(1)] ack_law [OF assms(2)] assms(3) by (meson not_le)

lemma ack_only_covered:
  assumes "inv w" and "\<forall>e \<in> set es. rx_valid e" and "run w es = Some w'" and "x < ack w'"
  shows "x < ack w \<or> known w x \<or> (\<exists>e \<in> set es. rx_covers e x)"
proof -
  from run_covers [OF assms(1,2)] assms(3) have "inv w'"
    and "known w' = (\<lambda>x. known w x \<or> (\<exists>e \<in> set es. rx_covers e x))"
    by auto
  with ack_law [of w'] assms(4) show ?thesis by auto
qed

lemma run_ack_mono:
  assumes "inv w" and "\<forall>e \<in> set es. rx_valid e" and "run w es = Some w'"
  shows "ack w \<le> ack w'"
  using run_covers [OF assms(1,2)] assms(3) ack_mono [OF assms(1)] by auto

text \<open>Once every requested number is covered, nothing of the range is missing any more.\<close>

lemma request_completes:
  assumes "inv w" and "in_i64 f" and "l < i64_max" and "f \<le> ack w" and "f \<le> l"
    and "missing w f l = Some ms" and "\<forall>e \<in> set es. rx_valid e"
    and "\<forall>m \<in> set ms. \<exists>e \<in> set es. rx_covers e m" and "run w es = Some w'"
  shows "l < ack w'" and "missing w' f l = Some []"
proof -
  from run_covers [OF assms(1,7)] assms(9) have inv': "inv w'"
    and known': "known w' = (\<lambda>x. known w x \<or> (\<exists>e \<in> set es. rx_covers e x))"
    by auto
  have all: "known w' x" if "f \<le> x" "x \<le> l" for x
    using missing_law [OF assms(1-3)] assms(6,8) that by (auto simp: known')
  then show "missing w' f l = Some []"
    using missing_law [OF inv' assms(2,3)] by (auto simp: filter_empty_conv)
  have "known w' x" if "x \<le> l" for x
    using all [of x] ack_law [OF assms(1)] assms(4) that by (cases "f \<le> x") (auto simp: known')
  then show "l < ack w'"
    using ack_law [OF inv'] by (meson not_le)
qed

end

lemma wp_step_law:
  assumes "wp_inv w" and "rx_valid e"
  shows "\<exists>w'. wp_step w e = Some w' \<and> wp_inv w' \<and> wp_known w' = (\<lambda>x. wp_known w x \<or> rx_covers e x)"
proof (cases e)
  case (RxGapRange a b)
  with assms show ?thesis
    by (auto intro: irrelevant_changes_range_spec [of w a b])
qed (use assms in \<open>simp_all add: received_changes_add_spec set_irrelevant_change_spec\<close>)

interpretation wpt: reception_tracker wp_inv wp_known ack_base wp_step missing_seqnums
proof
  show "\<not> wp_known w (ack_base w) \<and> (\<forall>x < ack_base w. wp_known w x)" if "wp_inv w" for w
    using that by (simp add: wp_inv_def wp_known_def)
qed (simp_all add: wp_step_law missing_seqnums_spec)

section \<open>Runs from a new proxy\<close>

fun wp_run :: "rtps_writer_proxy \<Rightarrow> rx_event list \<Rightarrow> rtps_writer_proxy option" where
  "wp_run w [] = Some w"
| "wp_run w (e # es) = Option.bind (wp_step w e) (\<lambda>w'. wp_run w' es)"

lemma wp_run_eq: "wp_run w es = wpt.run w es"
  by (induction es arbitrary: w) (simp_all split: bind_splits)

lemma wp_known_new: "wp_known (wp_new g ul ml ge) x \<longleftrightarrow> x < 1"
  by (simp add: wp_known_def wp_new_def sn_new_def)

section \<open>Properties\<close>

text \<open>C3: starting from a new writer proxy, any sequence of DATA, GAP and HEARTBEAT information is
  processed without looping, after which the proxy ignores exactly the numbers below 1 and those
  some event covered, and \<open>all_ackable_before\<close> is the least number not covered: the reader
  acknowledges everything it can and nothing it has not been told about.\<close>

theorem writer_proxy_run_refines:
  assumes "\<forall>e \<in> set es. rx_valid e"
  shows "\<exists>w. wp_run (wp_new g ul ml ge) es = Some w
    \<and> (\<forall>x. should_ignore_change w x \<longleftrightarrow> x < 1 \<or> (\<exists>e \<in> set es. rx_covers e x))
    \<and> \<not> should_ignore_change w (all_ackable_before w)
    \<and> (\<forall>x < all_ackable_before w. should_ignore_change w x)"
proof -
  from wpt.run_covers [OF wp_inv_new assms] obtain w where
    w: "wp_run (wp_new g ul ml ge) es = Some w" "wp_inv w"
      "wp_known w = (\<lambda>x. wp_known (wp_new g ul ml ge) x \<or> (\<exists>e \<in> set es. rx_covers e x))"
    unfolding wp_run_eq by blast
  with wpt.ack_law [of w] show ?thesis
    by (simp add: should_ignore_change_iff all_ackable_before_def wp_known_new)
qed

theorem writer_proxy_run_refines_witness:
  "\<exists>w. wp_run (wp_new GUID_UNKNOWN [] [] EntityId_UNKNOWN) [RxData 2 Timestamp_ZERO, RxGapRange 1 2] = Some w
    \<and> should_ignore_change w 2 \<and> \<not> should_ignore_change w 3"
  using writer_proxy_run_refines [of "[RxData 2 Timestamp_ZERO, RxGapRange 1 2]"
      GUID_UNKNOWN "[]" "[]" EntityId_UNKNOWN]
  by (fastforce simp: in_i64_def i64_min_def i64_max_def)

text \<open>C6: for every reachable proxy state, \<open>missing_seqnums\<close> returns, in increasing order, exactly the
  numbers of the heartbeat's range that were neither received nor declared irrelevant.\<close>

theorem missing_seqnums_exact:
  assumes "wp_inv w" and "in_i64 hb_first_sn" and "hb_last_sn < i64_max"
  shows "missing_seqnums w hb_first_sn hb_last_sn =
    Some (filter (\<lambda>x. \<not> should_ignore_change w x) [hb_first_sn..hb_last_sn])"
  using missing_seqnums_spec [OF assms] by (simp add: should_ignore_change_iff)

theorem missing_seqnums_exact_witness:
  "missing_seqnums (received_changes_add (wp_new GUID_UNKNOWN [] [] EntityId_UNKNOWN) 2 Timestamp_ZERO) 1 3 =
    Some [1, 3]"
proof -
  let ?w = "received_changes_add (wp_new GUID_UNKNOWN [] [] EntityId_UNKNOWN) 2 Timestamp_ZERO"
  have "wp_inv ?w"
    by (rule received_changes_add_spec(1) [OF wp_inv_new]) (simp_all add: in_i64_def i64_min_def i64_max_def)
  then have "missing_seqnums ?w 1 3 = Some (filter (\<lambda>x. \<not> should_ignore_change ?w x) [1..3])"
    by (rule missing_seqnums_exact) (simp_all add: in_i64_def i64_min_def i64_max_def)
  then show ?thesis
    by (simp add: should_ignore_change_def received_changes_add_def wp_new_def sn_new_def Let_def upto_rec1)
qed

text \<open>C10: when every number the reader requested after a heartbeat has been answered by data or
  declared irrelevant, nothing of the heartbeat's range is missing and the acknowledgement base
  has passed the heartbeat's last number.\<close>

theorem repair_request_completes:
  assumes "wp_inv w" and "in_i64 f" and "l < i64_max" and "f \<le> all_ackable_before w" and "f \<le> l"
    and "missing_seqnums w f l = Some ms" and "\<forall>e \<in> set es. rx_valid e"
    and "\<forall>m \<in> set ms. \<exists>e \<in> set es. rx_covers e m" and "wp_run w es = Some w'"
  shows "l < all_ackable_before w' \<and> missing_seqnums w' f l = Some []"
  using wpt.request_completes [OF assms(1-3) _ assms(5-8)] assms(4,9)
  by (simp add: all_ackable_before_def wp_run_eq)

theorem repair_request_completes_witness:
  "\<exists>w'. wp_run (wp_new GUID_UNKNOWN [] [] EntityId_UNKNOWN) [RxGap 2, RxData 1 Timestamp_ZERO] = Some w'
    \<and> 2 < all_ackable_before w' \<and> missing_seqnums w' 1 2 = Some []"
proof -
  let ?w = "wp_new GUID_UNKNOWN [] [] EntityId_UNKNOWN"
  let ?es = "[RxGap 2, RxData 1 Timestamp_ZERO]"
  have valid: "\<forall>e \<in> set ?es. rx_valid e"
    by (simp add: in_i64_def i64_min_def i64_max_def)
  have ms: "missing_seqnums ?w 1 2 = Some [1, 2]"
    using missing_seqnums_spec [OF wp_inv_new [of GUID_UNKNOWN "[]" "[]" EntityId_UNKNOWN], of 1 2]
    by (simp add: wp_known_new in_i64_def i64_min_def i64_max_def upto_rec1)
  obtain w' where w': "wp_run ?w ?es = Some w'"
    using wpt.run_covers [OF wp_inv_new valid] unfolding wp_run_eq by blast
  have "2 < all_ackable_before w' \<and> missing_seqnums w' 1 2 = Some []"
    by (rule repair_request_completes [OF wp_inv_new _ _ _ _ ms valid _ w'])
      (simp_all add: in_i64_def i64_min_def i64_max_def all_ackable_before_def wp_new_def sn_new_def)
  with w' show ?thesis by blast
qed

text \<open>no reachable proxy state satisfies \<open>no_changes_received\<close>: it tests \<open>ack_base == 0\<close>, but the
  base starts at 1 and never decreases, so it is false even of a proxy that has received nothing.\<close>

theorem no_changes_received_never:
  assumes "\<forall>e \<in> set es. rx_valid e" and "wp_run (wp_new g ul ml ge) es = Some w"
  shows "\<not> no_changes_received w"
  using wpt.run_ack_mono [OF wp_inv_new assms(1)] assms(2)
  by (force simp: wp_run_eq no_changes_received_def wp_new_def sn_new_def)

theorem no_changes_received_never_witness:
  "\<not> no_changes_received (wp_new GUID_UNKNOWN [] [] EntityId_UNKNOWN)"
  by (rule no_changes_received_never [of "[]"]) simp_all

end
