(* ===== verification/External.thy ===== *)
theory External
  imports Rust_Prelude "HOL-Library.Monad_Syntax"
begin

text \<open>
  The third-party crates the sources call, as one parameter of the model. A value of the record
  \<open>ext\<close> supplies the primitive readers and writers of \<open>speedy\<close> (for the endianness of a
  context), the flag sets of \<open>enumflags2\<close> and the bit vectors of \<open>bit_vec\<close>. What the sources
  rely on is the predicate \<open>ext_ok\<close>, whose clauses are the documented behaviour of these crates:

  \<^item> a primitive that was written is read back, leaving the bytes after it, and occupies its
    fixed size; reading \<open>n\<close> raw bytes takes the next \<open>n\<close> bytes or fails;
  \<^item> a \<open>bool\<close> takes one byte; an \<open>Option\<close> starts with a tag byte, 1 before a value, 0 alone;
  \<^item> a flag set over a \<open>u8\<close> enumeration is its bits: \<open>contains\<close> tests bits,
    \<open>from_bits_truncate\<close> drops the undeclared ones, and union (\<open>insert\<close>, \<open>|\<close>) is bitwise or;
  \<^item> a bit vector is its sequence of bits; \<open>set\<close> panics outside of it, \<open>get\<close> returns nothing;
    \<open>all\<close>, \<open>any\<close> and \<open>none\<close> ask for set bits.

  A flag set is represented by its bits and a bit vector by its list of bits. Every definition
  that calls one of these crates takes the record as its first argument; every property about
  such a definition has the hypothesis \<open>ext_ok\<close>, and \<open>sample_ext\<close> shows that it can hold.
  \<open>bytes::Bytes\<close> buffers are the byte lists they hold.
\<close>

named_theorems wire \<open>reading back what was written\<close>

datatype endianness = LittleEndian | BigEndian

type_synonym 'a reader = "bytes \<Rightarrow> ('a \<times> bytes) option"

record ext =
  write_u8 :: "u8 \<Rightarrow> bytes"
  read_u8 :: "u8 reader"
  write_u16 :: "endianness \<Rightarrow> u16 \<Rightarrow> bytes"
  read_u16 :: "endianness \<Rightarrow> u16 reader"
  write_u32 :: "endianness \<Rightarrow> u32 \<Rightarrow> bytes"
  read_u32 :: "endianness \<Rightarrow> u32 reader"
  write_i32 :: "endianness \<Rightarrow> int \<Rightarrow> bytes"
  read_i32 :: "endianness \<Rightarrow> int reader"
  write_bool :: "bool \<Rightarrow> bytes"
  read_bool :: "bool reader"
  read_vec :: "nat \<Rightarrow> bytes reader"
  write_option_tag :: "bool \<Rightarrow> bytes"
  read_option_tag :: "bool reader"
  flags_contains :: "u8 \<Rightarrow> u8 \<Rightarrow> bool"
  flags_truncate :: "u8 \<Rightarrow> u8 \<Rightarrow> u8"
  flags_union :: "u8 \<Rightarrow> u8 \<Rightarrow> u8"
  bv_from_elem :: "nat \<Rightarrow> bool \<Rightarrow> bool list"
  bv_set :: "bool list \<Rightarrow> nat \<Rightarrow> bool \<Rightarrow> bool list option"
  bv_get :: "bool list \<Rightarrow> nat \<Rightarrow> bool option"
  bv_grow :: "bool list \<Rightarrow> nat \<Rightarrow> bool \<Rightarrow> bool list"
  bv_from_bytes :: "bytes \<Rightarrow> bool list"
  bv_to_bytes :: "bool list \<Rightarrow> bytes"
  bv_all :: "bool list \<Rightarrow> bool"
  bv_any :: "bool list \<Rightarrow> bool"
  bv_none :: "bool list \<Rightarrow> bool"

text \<open>The bits of a byte from the most significant one.\<close>

definition byte_bits :: "u8 \<Rightarrow> bool list" where
  "byte_bits b = map (bit b) [7, 6, 5, 4, 3, 2, 1, 0]"

definition reads_back :: "('a \<Rightarrow> bool) \<Rightarrow> nat \<Rightarrow> ('a \<Rightarrow> bytes) \<Rightarrow> 'a reader \<Rightarrow> bool" where
  "reads_back valid n write read \<longleftrightarrow>
     (\<forall>a r. valid a \<longrightarrow> read (write a @ r) = Some (a, r) \<and> length (write a) = n)"

definition takes :: "nat \<Rightarrow> 'a reader \<Rightarrow> bool" where
  "takes n read \<longleftrightarrow>
     (\<forall>bs. case read bs of None \<Rightarrow> length bs < n | Some (_, r) \<Rightarrow> n \<le> length bs \<and> r = drop n bs)"

definition ext_ok :: "ext \<Rightarrow> bool" where
  "ext_ok x \<longleftrightarrow>
     (\<forall>b. write_u8 x b = [b]) \<and> (\<forall>b r. read_u8 x (b # r) = Some (b, r)) \<and> read_u8 x [] = None
   \<and> (\<forall>e. reads_back (\<lambda>_. True) 2 (write_u16 x e) (read_u16 x e) \<and> takes 2 (read_u16 x e))
   \<and> (\<forall>e. reads_back (\<lambda>_. True) 4 (write_u32 x e) (read_u32 x e) \<and> takes 4 (read_u32 x e))
   \<and> (\<forall>e. reads_back in_i32 4 (write_i32 x e) (read_i32 x e) \<and> takes 4 (read_i32 x e))
   \<and> reads_back (\<lambda>_. True) 1 (write_bool x) (read_bool x)
   \<and> (\<forall>n bs. read_vec x n bs = (if n \<le> length bs then Some (take n bs, drop n bs) else None))
   \<and> (\<forall>b. write_option_tag x b = [if b then 1 else 0])
   \<and> reads_back (\<lambda>_. True) 1 (write_option_tag x) (read_option_tag x)
   \<and> (\<forall>b f. flags_contains x b f \<longleftrightarrow> b AND f = f)
   \<and> (\<forall>m b. flags_truncate x m b = b AND m)
   \<and> (\<forall>a b. flags_union x a b = a OR b)
   \<and> (\<forall>n b. bv_from_elem x n b = replicate n b)
   \<and> (\<forall>v i b. bv_set x v i b = (if i < length v then Some (v[i := b]) else None))
   \<and> (\<forall>v i. bv_get x v i = (if i < length v then Some (v ! i) else None))
   \<and> (\<forall>v n b. bv_grow x v n b = v @ replicate n b)
   \<and> (\<forall>bs. bv_from_bytes x bs = concat (map byte_bits bs))
   \<and> (\<forall>bs. bv_to_bytes x (concat (map byte_bits bs)) = bs)
   \<and> (\<forall>v. bv_all x v \<longleftrightarrow> (\<forall>b \<in> set v. b)) \<and> (\<forall>v. bv_any x v \<longleftrightarrow> True \<in> set v)
   \<and> (\<forall>v. bv_none x v \<longleftrightarrow> True \<notin> set v)"

section \<open>What \<open>ext_ok\<close> gives\<close>

lemma ext_u8 [wire]:
  assumes "ext_ok x"
  shows "write_u8 x b = [b]" and "read_u8 x (b # r) = Some (b, r)" and "read_u8 x [] = None"
  using assms by (simp_all add: ext_ok_def)

lemma ext_u16 [wire]:
  assumes "ext_ok x"
  shows "read_u16 x e (write_u16 x e v @ r) = Some (v, r)" and "length (write_u16 x e v) = 2"
  using assms by (simp_all add: ext_ok_def reads_back_def)

lemma ext_u32 [wire]:
  assumes "ext_ok x"
  shows "read_u32 x e (write_u32 x e w @ r) = Some (w, r)" and "length (write_u32 x e w) = 4"
  using assms by (simp_all add: ext_ok_def reads_back_def)

lemma ext_i32 [wire]:
  assumes "ext_ok x" and "in_i32 i"
  shows "read_i32 x e (write_i32 x e i @ r) = Some (i, r)" and "length (write_i32 x e i) = 4"
  using assms by (simp_all add: ext_ok_def reads_back_def)

lemma ext_bool [wire]:
  assumes "ext_ok x"
  shows "read_bool x (write_bool x b @ r) = Some (b, r)" and "length (write_bool x b) = 1"
  using assms by (simp_all add: ext_ok_def reads_back_def)

lemma ext_vec [wire]:
  assumes "ext_ok x"
  shows "read_vec x n bs = (if n \<le> length bs then Some (take n bs, drop n bs) else None)"
  using assms by (simp add: ext_ok_def)

lemma ext_option [wire]:
  assumes "ext_ok x"
  shows "write_option_tag x b = [if b then 1 else 0]"
    and "read_option_tag x ((if b then 1 else 0) # r) = Some (b, r)"
proof -
  show *: "write_option_tag x b = [if b then 1 else 0]"
    using assms by (simp add: ext_ok_def)
  have "reads_back (\<lambda>_. True) 1 (write_option_tag x) (read_option_tag x)"
    using assms unfolding ext_ok_def by blast
  then have "read_option_tag x (write_option_tag x b @ r) = Some (b, r)"
    by (simp add: reads_back_def)
  then show "read_option_tag x ((if b then 1 else 0) # r) = Some (b, r)"
    by (simp add: *)
qed

lemma takesD: "takes n read \<Longrightarrow> read bs = Some (a, r) \<Longrightarrow> n \<le> length bs \<and> r = drop n bs"
  by (auto simp: takes_def dest: spec [of _ bs])

lemma ext_takes:
  assumes "ext_ok x"
  shows "read_u16 x e bs = Some (v, r) \<Longrightarrow> 2 \<le> length bs \<and> r = drop 2 bs"
    and "read_u32 x e bs = Some (w, r) \<Longrightarrow> 4 \<le> length bs \<and> r = drop 4 bs"
    and "read_i32 x e bs = Some (i, r) \<Longrightarrow> 4 \<le> length bs \<and> r = drop 4 bs"
    and "read_u8 x bs = Some (b, r) \<Longrightarrow> 1 \<le> length bs \<and> r = drop 1 bs"
proof -
  have "takes 2 (read_u16 x e)" "takes 4 (read_u32 x e)" "takes 4 (read_i32 x e)"
    using assms by (simp_all add: ext_ok_def)
  from this [THEN takesD]
  show "read_u16 x e bs = Some (v, r) \<Longrightarrow> 2 \<le> length bs \<and> r = drop 2 bs"
    "read_u32 x e bs = Some (w, r) \<Longrightarrow> 4 \<le> length bs \<and> r = drop 4 bs"
    "read_i32 x e bs = Some (i, r) \<Longrightarrow> 4 \<le> length bs \<and> r = drop 4 bs"
    by blast+
  show "read_u8 x bs = Some (b, r) \<Longrightarrow> 1 \<le> length bs \<and> r = drop 1 bs"
    by (cases bs) (simp_all add: ext_u8 [OF assms])
qed

lemma ext_flags:
  assumes "ext_ok x"
  shows "flags_contains x b f \<longleftrightarrow> b AND f = f" and "flags_truncate x m b = b AND m"
    and "flags_union x a b = a OR b"
  using assms by (simp_all add: ext_ok_def)

lemma ext_bv:
  assumes "ext_ok x"
  shows "bv_from_elem x n b = replicate n b"
    and "bv_set x v i b = (if i < length v then Some (v[i := b]) else None)"
    and "bv_get x v i = (if i < length v then Some (v ! i) else None)"
    and "bv_grow x v n b = v @ replicate n b"
    and "bv_from_bytes x bs = concat (map byte_bits bs)"
    and "bv_to_bytes x (concat (map byte_bits bs)) = bs"
    and "bv_all x v \<longleftrightarrow> (\<forall>b \<in> set v. b)" and "bv_any x v \<longleftrightarrow> True \<in> set v" and "bv_none x v \<longleftrightarrow> True \<notin> set v"
  using assms by (simp_all add: ext_ok_def)

section \<open>An instance\<close>

text \<open>Little- and big-endian byte sequences of words, from the low byte on.\<close>

definition u16_le :: "u16 \<Rightarrow> bytes" where
  "u16_le v = [ucast v, ucast (drop_bit 8 v)]"

definition u32_le :: "u32 \<Rightarrow> bytes" where
  "u32_le w = [ucast w, ucast (drop_bit 8 w), ucast (drop_bit 16 w), ucast (drop_bit 24 w)]"

definition le_u16 :: "bytes \<Rightarrow> u16" where
  "le_u16 bs = ucast (bs ! 0) OR push_bit 8 (ucast (bs ! 1))"

definition le_u32 :: "bytes \<Rightarrow> u32" where
  "le_u32 bs = ucast (bs ! 0) OR push_bit 8 (ucast (bs ! 1)) OR push_bit 16 (ucast (bs ! 2))
     OR push_bit 24 (ucast (bs ! 3))"

definition swap :: "endianness \<Rightarrow> bytes \<Rightarrow> bytes" where
  "swap e bs = (case e of LittleEndian \<Rightarrow> bs | BigEndian \<Rightarrow> rev bs)"

definition read_n :: "nat \<Rightarrow> (bytes \<Rightarrow> 'a) \<Rightarrow> 'a reader" where
  "read_n n f bs = (if n \<le> length bs then Some (f (take n bs), drop n bs) else None)"

fun bits_bytes :: "bool list \<Rightarrow> bytes" where
  "bits_bytes (b7 # b6 # b5 # b4 # b3 # b2 # b1 # b0 # v) =
     horner_sum of_bool 2 [b0, b1, b2, b3, b4, b5, b6, b7] # bits_bytes v"
| "bits_bytes _ = []"

lemma horner_byte: "horner_sum of_bool 2 (map (bit b) [0, 1, 2, 3, 4, 5, 6, 7]) = (b :: u8)"
proof -
  have "[0, 1, 2, 3, 4, 5, 6, 7] = [0..<8]"
    by (simp add: upt_rec)
  moreover have "take_bit 8 b = b"
    by (rule bit_word_eqI) (simp add: bit_simps)
  ultimately show ?thesis
    using horner_sum_bit_eq_take_bit [of b 8] by simp
qed

lemma bits_bytes_concat: "bits_bytes (concat (map byte_bits bs)) = bs"
proof (induction bs)
  case (Cons b bs)
  have "bits_bytes (byte_bits b @ v) = b # bits_bytes v" for v
    using horner_byte [of b] by (simp add: byte_bits_def)
  with Cons show ?case by simp
qed simp

definition sample_ext :: ext where
  "sample_ext = \<lparr>
     write_u8 = (\<lambda>b. [b]),
     read_u8 = read_n 1 (\<lambda>bs. bs ! 0),
     write_u16 = (\<lambda>e v. swap e (u16_le v)),
     read_u16 = (\<lambda>e. read_n 2 (\<lambda>bs. le_u16 (swap e bs))),
     write_u32 = (\<lambda>e w. swap e (u32_le w)),
     read_u32 = (\<lambda>e. read_n 4 (\<lambda>bs. le_u32 (swap e bs))),
     write_i32 = (\<lambda>e i. swap e (u32_le (word_of_int i))),
     read_i32 = (\<lambda>e. read_n 4 (\<lambda>bs. sint (le_u32 (swap e bs)))),
     write_bool = (\<lambda>b. [if b then 1 else 0]),
     read_bool = read_n 1 (\<lambda>bs. bs ! 0 \<noteq> 0),
     read_vec = (\<lambda>n. read_n n (\<lambda>bs. bs)),
     write_option_tag = (\<lambda>b. [if b then 1 else 0]),
     read_option_tag = read_n 1 (\<lambda>bs. bs ! 0 \<noteq> 0),
     flags_contains = (\<lambda>b f. b AND f = f),
     flags_truncate = (\<lambda>m b. b AND m),
     flags_union = (\<lambda>a b. a OR b),
     bv_from_elem = replicate,
     bv_set = (\<lambda>v i b. if i < length v then Some (v[i := b]) else None),
     bv_get = (\<lambda>v i. if i < length v then Some (v ! i) else None),
     bv_grow = (\<lambda>v n b. v @ replicate n b),
     bv_from_bytes = (\<lambda>bs. concat (map byte_bits bs)),
     bv_to_bytes = bits_bytes,
     bv_all = (\<lambda>v. \<forall>b \<in> set v. b),
     bv_any = (\<lambda>v. True \<in> set v),
     bv_none = (\<lambda>v. True \<notin> set v)\<rparr>"

lemma le_u16_u16_le: "le_u16 (u16_le v) = v"
  unfolding le_u16_def u16_le_def
  by (rule bit_word_eqI) (auto simp: bit_simps)

lemma less_32_cases:
  assumes "(n::nat) < 32"
  obtains "n < 8" | "8 \<le> n" "n < 16" | "16 \<le> n" "n < 24" | "24 \<le> n" "n < 32"
  using assms by linarith

lemma le_u32_u32_le: "le_u32 (u32_le w) = w"
  unfolding le_u32_def u32_le_def
proof (rule bit_word_eqI)
  fix n assume "n < LENGTH(32)"
  then have "n < 32" by simp
  then show "bit (ucast ([ucast w :: u8, ucast (drop_bit 8 w), ucast (drop_bit 16 w), ucast (drop_bit 24 w)] ! 0)
      OR push_bit 8 (ucast ([ucast w :: u8, ucast (drop_bit 8 w), ucast (drop_bit 16 w), ucast (drop_bit 24 w)] ! 1))
      OR push_bit 16 (ucast ([ucast w :: u8, ucast (drop_bit 8 w), ucast (drop_bit 16 w), ucast (drop_bit 24 w)] ! 2))
      OR push_bit 24 (ucast ([ucast w :: u8, ucast (drop_bit 8 w), ucast (drop_bit 16 w), ucast (drop_bit 24 w)] ! 3))
      :: u32) n \<longleftrightarrow> bit w n"
    by (cases rule: less_32_cases) (auto simp: bit_simps)
qed

lemma length_swap [simp]: "length (swap e bs) = length bs"
  by (simp add: swap_def split: endianness.split)

lemma swap_swap [simp]: "swap e (swap e bs) = bs"
  by (simp add: swap_def split: endianness.split)

lemma sint_word_of_int_i32: "in_i32 i \<Longrightarrow> sint (word_of_int i :: u32) = i"
  by (simp add: in_i32_def int_word_sint)

lemma reads_back_n:
  assumes "\<And>a. valid a \<Longrightarrow> f (write a) = a" and "\<And>a. valid a \<Longrightarrow> length (write a) = n"
  shows "reads_back valid n write (read_n n f)"
  using assms by (simp add: reads_back_def read_n_def)

lemma takes_read_n: "takes n (read_n n f)"
  by (simp add: takes_def read_n_def)

lemma ext_ok_sample: "ext_ok sample_ext"
proof -
  have "reads_back (\<lambda>_. True) 2 (write_u16 sample_ext e) (read_u16 sample_ext e)"
    "reads_back (\<lambda>_. True) 4 (write_u32 sample_ext e) (read_u32 sample_ext e)"
    "reads_back in_i32 4 (write_i32 sample_ext e) (read_i32 sample_ext e)"
    "reads_back (\<lambda>_. True) 1 (write_bool sample_ext) (read_bool sample_ext)"
    "reads_back (\<lambda>_. True) 1 (write_option_tag sample_ext) (read_option_tag sample_ext)" for e
    by (simp_all add: sample_ext_def, (rule reads_back_n;
        simp add: le_u16_u16_le le_u32_u32_le sint_word_of_int_i32 u16_le_def [THEN arg_cong, of length]
          u32_le_def [THEN arg_cong, of length])+)
  then show ?thesis
    unfolding ext_ok_def by (simp add: sample_ext_def bits_bytes_concat takes_read_n read_n_def [of _ _ "_ # _"] read_n_def [of _ _ "[]"] read_n_def [of _ "\<lambda>bs. bs"])
qed

end
