(* ===== verification/Wire_Elements.thy ===== *)
theory Wire_Elements
  imports External Sequence_Number Time_Duration Guid Locators
begin

text \<open>
  The elements of RTPS submessages on the wire: how the source's \<open>Readable\<close> and \<open>Writable\<close>
  implementations read and write sequence numbers, fragment numbers, number sets, GUIDs, time
  stamps, locators and parameter lists (src/src/structure, src/src/messages/submessages/elements
  and src/src/serialization/speedy_pl_cdr_helpers.rs). A derived implementation writes the fields
  in declaration order. A reader takes the remaining bytes and returns the value with the bytes
  after it, or \<^const>\<open>None\<close> for an \<open>Err\<close>.

  The locale \<open>wire_format\<close> is the contract a submessage relies on for its elements: reading back
  what was written, whatever follows. It is interpreted for each element type; unique decoding and
  the round trip of sequences of elements are proved once inside it.
\<close>

section \<open>The contract of an element\<close>

fun read_many :: "'a reader \<Rightarrow> nat \<Rightarrow> 'a list reader" where
  "read_many rd 0 bs = Some ([], bs)"
| "read_many rd (Suc n) bs =
     do { (a, bs) \<leftarrow> rd bs; (vs, bs) \<leftarrow> read_many rd n bs; Some (a # vs, bs) }"

locale wire_format =
  fixes wr :: "ext \<Rightarrow> endianness \<Rightarrow> 'a \<Rightarrow> bytes"
    and rd :: "ext \<Rightarrow> endianness \<Rightarrow> 'a reader"
    and valid :: "'a \<Rightarrow> bool"
  assumes reads_written: "ext_ok x \<Longrightarrow> valid a \<Longrightarrow> rd x e (wr x e a @ r) = Some (a, r)"
begin

lemma unique_decoding:
  assumes "ext_ok x" "valid a" "valid b" "wr x e a @ r = wr x e b @ s"
  shows "a = b \<and> r = s"
proof -
  have "Some (a, r) = rd x e (wr x e b @ s)"
    using reads_written [OF assms(1,2)] by (simp only: flip: assms(4))
  then show ?thesis
    by (simp only: reads_written [OF assms(1,3)]) simp
qed

lemma reads_written_many:
  assumes "ext_ok x" "\<forall>a \<in> set vs. valid a"
  shows "read_many (rd x e) (length vs) (concat (map (wr x e) vs) @ r) = Some (vs, r)"
  using assms by (induction vs) (simp_all add: reads_written)

lemma reads_written_end:
  assumes "ext_ok x" "valid a"
  shows "rd x e (wr x e a) = Some (a, [])"
  using reads_written [OF assms, of e "[]"] by simp

end

section \<open>Sequence and fragment numbers\<close>

definition write_seqnum :: "ext \<Rightarrow> endianness \<Rightarrow> seqnum \<Rightarrow> bytes" where
  "write_seqnum x e sn = write_i32 x e (wrap_i32 (sn div 2 ^ 32)) @ write_u32 x e (word_of_int sn)"

definition read_seqnum :: "ext \<Rightarrow> endianness \<Rightarrow> seqnum reader" where
  "read_seqnum x e bs =
     do { (high, bs) \<leftarrow> read_i32 x e bs;
          (low, bs) \<leftarrow> read_u32 x e bs;
          Some (wrap_i64 (wrap_i64 (high * 2 ^ 32) + uint low), bs) }"

lemma sn_halves:
  assumes "in_i64 sn"
  shows "in_i32 (sn div 2 ^ 32)"
    and "wrap_i64 (wrap_i64 (sn div 2 ^ 32 * 2 ^ 32) + sn mod 2 ^ 32) = sn"
proof -
  have eq: "sn div 2 ^ 32 * 2 ^ 32 + sn mod 2 ^ 32 = sn"
    by (rule div_mult_mod_eq)
  have "0 \<le> sn mod 2 ^ 32" "sn mod 2 ^ 32 < 2 ^ 32"
    by simp_all
  with eq assms show "in_i32 (sn div 2 ^ 32)"
    unfolding in_i32_def in_i64_def i64_min_def i64_max_def by auto
  then have "in_i64 (sn div 2 ^ 32 * 2 ^ 32)"
    unfolding in_i32_def in_i64_def i64_min_def i64_max_def by auto
  then show "wrap_i64 (wrap_i64 (sn div 2 ^ 32 * 2 ^ 32) + sn mod 2 ^ 32) = sn"
    by (simp only: wrap_i64_id eq assms)
qed

lemma uint_word_of_int_32: "uint (word_of_int n :: u32) = n mod 2 ^ 32"
  by (simp add: uint_word_of_int take_bit_eq_mod)

lemma read_write_seqnum [wire]:
  assumes "ext_ok x" "in_i64 sn"
  shows "read_seqnum x e (write_seqnum x e sn @ r) = Some (sn, r)"
  using assms sn_halves [OF assms(2)]
  by (simp add: read_seqnum_def write_seqnum_def wire wrap_i32_id uint_word_of_int_32 del: power_numeral)

interpretation wire_sn: wire_format write_seqnum read_seqnum in_i64
  by unfold_locales (rule read_write_seqnum)

definition write_fragnum :: "ext \<Rightarrow> endianness \<Rightarrow> fragnum \<Rightarrow> bytes" where
  "write_fragnum x e f = write_u32 x e (word_of_int f)"

definition read_fragnum :: "ext \<Rightarrow> endianness \<Rightarrow> fragnum reader" where
  "read_fragnum x e bs = do { (f, bs) \<leftarrow> read_u32 x e bs; Some (uint f, bs) }"

lemma read_write_fragnum [wire]:
  assumes "ext_ok x" "in_u32 f"
  shows "read_fragnum x e (write_fragnum x e f @ r) = Some (f, r)"
  using assms by (simp add: read_fragnum_def write_fragnum_def wire uint_word_of_int_32 in_u32_def)

interpretation wire_fn: wire_format write_fragnum read_fragnum in_u32
  by unfold_locales (rule read_write_fragnum)

text \<open>The number type of a \<open>NumberSet<N>\<close>.\<close>

fun write_number :: "number_kind \<Rightarrow> ext \<Rightarrow> endianness \<Rightarrow> int \<Rightarrow> bytes" where
  "write_number SeqNum = write_seqnum"
| "write_number FragNum = write_fragnum"

fun read_number :: "number_kind \<Rightarrow> ext \<Rightarrow> endianness \<Rightarrow> int reader" where
  "read_number SeqNum = read_seqnum"
| "read_number FragNum = read_fragnum"

fun number_size :: "number_kind \<Rightarrow> nat" where
  "number_size SeqNum = 8"
| "number_size FragNum = 4"

definition ns_len_serialized :: "number_kind \<Rightarrow> number_set \<Rightarrow> nat" where
  "ns_len_serialized k s = number_size k + 4 + 4 * ((num_bits s + 31) div 32)"

definition write_number_set :: "number_kind \<Rightarrow> ext \<Rightarrow> endianness \<Rightarrow> number_set \<Rightarrow> bytes" where
  "write_number_set k x e s =
     write_number k x e (bitmap_base s) @ write_u32 x e (of_nat (num_bits s))
     @ concat (map (write_u32 x e)
         (take (min (word_count (num_bits s)) (length (bitmap s) mod 2 ^ 32)) (bitmap s)))"

definition read_number_set :: "number_kind \<Rightarrow> ext \<Rightarrow> endianness \<Rightarrow> number_set reader" where
  "read_number_set k x e bs =
     do { (base, bs) \<leftarrow> read_number k x e bs;
          (nbits, bs) \<leftarrow> read_u32 x e bs;
          if unat nbits > 256 then None
          else do { (words, bs) \<leftarrow> read_many (read_u32 x e) ((unat nbits + 31) div 32) bs;
                    Some (\<lparr>bitmap_base = base, num_bits = unat nbits, bitmap = words\<rparr>, bs) } }"

definition ns_wire :: "number_kind \<Rightarrow> number_set \<Rightarrow> bool" where
  "ns_wire k s \<longleftrightarrow> ns_wf s \<and> num_in k (bitmap_base s)"

interpretation wire_u32: wire_format write_u32 read_u32 "\<lambda>_. True"
  by unfold_locales (simp add: wire)

lemma read_write_number [wire]:
  assumes "ext_ok x" "num_in k n"
  shows "read_number k x e (write_number k x e n @ r) = Some (n, r)"
  using assms by (cases k) (simp_all add: wire)

lemma read_write_number_set [wire]:
  assumes "ext_ok x" "ns_wire k s"
  shows "read_number_set k x e (write_number_set k x e s @ r) = Some (s, r)"
proof -
  have nb: "num_bits s \<le> 256" and len: "length (bitmap s) = (num_bits s + 31) div 32"
    and base: "num_in k (bitmap_base s)"
    using assms(2) by (simp_all add: ns_wire_def ns_wf_def)
  have "unat (of_nat (num_bits s) :: u32) = num_bits s"
    using nb by (simp add: unsigned_of_nat take_bit_nat_eq_self)
  moreover have "min (word_count (num_bits s)) (length (bitmap s) mod 2 ^ 32) = length (bitmap s)"
    using nb len by (simp add: word_count_eq)
  moreover have "read_many (read_u32 x e) ((num_bits s + 31) div 32)
      (concat (map (write_u32 x e) (bitmap s)) @ r) = Some (bitmap s, r)"
    using wire_u32.reads_written_many [OF assms(1), of "bitmap s"] len by simp
  ultimately show ?thesis
    using nb assms(1) base
    by (simp add: read_number_set_def write_number_set_def read_write_number ext_u32)
qed

interpretation wire_sns: wire_format "write_number_set SeqNum" "read_number_set SeqNum" "ns_wire SeqNum"
  by unfold_locales (rule read_write_number_set)

interpretation wire_fns: wire_format "write_number_set FragNum" "read_number_set FragNum" "ns_wire FragNum"
  by unfold_locales (rule read_write_number_set)

section \<open>GUIDs\<close>

definition write_octets :: "ext \<Rightarrow> bytes \<Rightarrow> bytes" where
  "write_octets x bs = concat (map (write_u8 x) bs)"

lemma write_octets_eq [wire]: "ext_ok x \<Longrightarrow> write_octets x bs = bs"
  by (induction bs) (simp_all add: write_octets_def wire)

lemma read_octets [wire]:
  "ext_ok x \<Longrightarrow> length bs = n \<Longrightarrow> read_many (read_u8 x) n (bs @ r) = Some (bs, r)"
  by (induction bs arbitrary: n) (auto simp: wire)

definition write_guid_prefix :: "ext \<Rightarrow> endianness \<Rightarrow> guid_prefix \<Rightarrow> bytes" where
  "write_guid_prefix x e p = write_octets x (prefix_bytes p)"

definition read_guid_prefix :: "ext \<Rightarrow> endianness \<Rightarrow> guid_prefix reader" where
  "read_guid_prefix x e bs = do { (os, bs) \<leftarrow> read_many (read_u8 x) 12 bs; Some (GuidPrefix os, bs) }"

lemma read_write_guid_prefix [wire]:
  assumes "ext_ok x" "wf_prefix p"
  shows "read_guid_prefix x e (write_guid_prefix x e p @ r) = Some (p, r)"
  using assms by (simp add: read_guid_prefix_def write_guid_prefix_def wire wf_prefix_def)

interpretation wire_prefix: wire_format write_guid_prefix read_guid_prefix wf_prefix
  by unfold_locales (rule read_write_guid_prefix)

definition write_entity_id :: "ext \<Rightarrow> endianness \<Rightarrow> entity_id \<Rightarrow> bytes" where
  "write_entity_id x e i =
     (case entity_key i of (a, b, c) \<Rightarrow> write_u8 x a @ write_u8 x b @ write_u8 x c)
     @ write_u8 x (entity_kind i)"

definition read_entity_id :: "ext \<Rightarrow> endianness \<Rightarrow> entity_id reader" where
  "read_entity_id x e bs =
     do { (a, bs) \<leftarrow> read_u8 x bs; (b, bs) \<leftarrow> read_u8 x bs; (c, bs) \<leftarrow> read_u8 x bs;
          (k, bs) \<leftarrow> read_u8 x bs;
          Some (EntityId (a, b, c) k, bs) }"

lemma read_write_entity_id [wire]:
  assumes "ext_ok x"
  shows "read_entity_id x e (write_entity_id x e i @ r) = Some (i, r)"
  using assms by (cases i) (auto simp: read_entity_id_def write_entity_id_def wire)

interpretation wire_eid: wire_format write_entity_id read_entity_id "\<lambda>_. True"
  by unfold_locales (rule read_write_entity_id)

definition write_guid :: "ext \<Rightarrow> endianness \<Rightarrow> guid \<Rightarrow> bytes" where
  "write_guid x e g = write_guid_prefix x e (guid_prefix g) @ write_entity_id x e (guid_entity_id g)"

definition read_guid :: "ext \<Rightarrow> endianness \<Rightarrow> guid reader" where
  "read_guid x e bs =
     do { (p, bs) \<leftarrow> read_guid_prefix x e bs; (i, bs) \<leftarrow> read_entity_id x e bs; Some (GUID p i, bs) }"

lemma read_write_guid [wire]:
  assumes "ext_ok x" "wf_prefix (guid_prefix g)"
  shows "read_guid x e (write_guid x e g @ r) = Some (g, r)"
  using assms by (simp add: read_guid_def write_guid_def wire)

interpretation wire_guid: wire_format write_guid read_guid "\<lambda>g. wf_prefix (guid_prefix g)"
  by unfold_locales (rule read_write_guid)

section \<open>Time stamps, durations, locators\<close>

definition write_timestamp :: "ext \<Rightarrow> endianness \<Rightarrow> timestamp \<Rightarrow> bytes" where
  "write_timestamp x e t = write_u32 x e (ts_seconds t) @ write_u32 x e (ts_fraction t)"

definition read_timestamp :: "ext \<Rightarrow> endianness \<Rightarrow> timestamp reader" where
  "read_timestamp x e bs =
     do { (s, bs) \<leftarrow> read_u32 x e bs; (f, bs) \<leftarrow> read_u32 x e bs; Some (Timestamp s f, bs) }"

lemma read_write_timestamp [wire]:
  "ext_ok x \<Longrightarrow> read_timestamp x e (write_timestamp x e t @ r) = Some (t, r)"
  by (simp add: read_timestamp_def write_timestamp_def wire)

interpretation wire_ts: wire_format write_timestamp read_timestamp "\<lambda>_. True"
  by unfold_locales (rule read_write_timestamp)

definition write_duration :: "ext \<Rightarrow> endianness \<Rightarrow> duration \<Rightarrow> bytes" where
  "write_duration x e d = write_i32 x e (sint (dur_seconds d)) @ write_u32 x e (dur_fraction d)"

definition read_duration :: "ext \<Rightarrow> endianness \<Rightarrow> duration reader" where
  "read_duration x e bs =
     do { (s, bs) \<leftarrow> read_i32 x e bs; (f, bs) \<leftarrow> read_u32 x e bs; Some (Duration (word_of_int s) f, bs) }"

lemma in_i32_sint: "in_i32 (sint (w :: u32))"
  using sint_lt [of w] sint_ge [of w] by (simp add: in_i32_def)

lemma read_write_duration [wire]:
  "ext_ok x \<Longrightarrow> read_duration x e (write_duration x e d @ r) = Some (d, r)"
  by (simp add: read_duration_def write_duration_def wire in_i32_sint)

interpretation wire_dur: wire_format write_duration read_duration "\<lambda>_. True"
  by unfold_locales (rule read_write_duration)

definition write_locator :: "ext \<Rightarrow> endianness \<Rightarrow> locator \<Rightarrow> bytes" where
  "write_locator x e l =
     (let r = locator_to_repr l
      in write_i32 x e (rl_kind r) @ write_u32 x e (rl_port r) @ write_octets x (rl_address r))"

definition read_locator :: "ext \<Rightarrow> endianness \<Rightarrow> locator reader" where
  "read_locator x e bs =
     do { (k, bs) \<leftarrow> read_i32 x e bs; (p, bs) \<leftarrow> read_u32 x e bs;
          (a, bs) \<leftarrow> read_many (read_u8 x) 16 bs;
          Some (locator_from_repr \<lparr>rl_kind = k, rl_port = p, rl_address = a\<rparr>, bs) }"

definition locator_wire :: "locator \<Rightarrow> bool" where
  "locator_wire l \<longleftrightarrow> wire_locator l \<and> in_i32 (rl_kind (locator_to_repr l))"

lemma read_write_locator [wire]:
  assumes "ext_ok x" "locator_wire l"
  shows "read_locator x e (write_locator x e l @ r) = Some (l, r)"
proof -
  have "length (rl_address (locator_to_repr l)) = 16"
    using assms(2) by (cases l) (auto simp: locator_wire_def INVALID_ADDRESS_def split: prod.splits)
  moreover have "locator_from_repr
      \<lparr>rl_kind = rl_kind q, rl_port = rl_port q, rl_address = rl_address q\<rparr> = l"
    if "locator_to_repr l = q" for q
    using assms(2) that locator_repr_roundtrip [of l] by (cases q) (simp add: locator_wire_def)
  ultimately show ?thesis
    using assms by (simp add: read_locator_def write_locator_def Let_def wire locator_wire_def)
qed

interpretation wire_loc: wire_format write_locator read_locator locator_wire
  by unfold_locales (rule read_write_locator)

section \<open>Parameter lists\<close>

record parameter =
  parameter_id :: u16
  pvalue :: bytes

record parameter_list =
  parameters :: "parameter list"

abbreviation PID_SENTINEL :: u16 where "PID_SENTINEL \<equiv> 0x0001"
abbreviation PID_KEY_HASH :: u16 where "PID_KEY_HASH \<equiv> 0x0070"
abbreviation PID_STATUS_INFO :: u16 where "PID_STATUS_INFO \<equiv> 0x0071"
abbreviation PID_RELATED_SAMPLE_IDENTITY :: u16 where "PID_RELATED_SAMPLE_IDENTITY \<equiv> 0x800f"

definition param_pad :: "nat \<Rightarrow> nat" where
  "param_pad n = (if n mod 4 \<noteq> 0 then 4 - n mod 4 else 0)"

definition param_len_serialized :: "parameter \<Rightarrow> nat" where
  "param_len_serialized p = 2 + 2 + length (pvalue p) + param_pad (length (pvalue p))"

definition write_parameter :: "ext \<Rightarrow> endianness \<Rightarrow> parameter \<Rightarrow> bytes" where
  "write_parameter x e p =
     (let len = length (pvalue p); pad = param_pad len
      in write_u16 x e (parameter_id p) @ write_u16 x e (of_nat (len + pad)) @ pvalue p
         @ concat (replicate pad (write_u8 x 0)))"

definition SENTINEL :: parameter where
  "SENTINEL = \<lparr>parameter_id = PID_SENTINEL, pvalue = []\<rparr>"

definition pl_len_serialized :: "parameter_list \<Rightarrow> nat" where
  "pl_len_serialized pl =
     sum_list (map param_len_serialized (parameters pl)) + param_len_serialized SENTINEL"

definition write_parameter_list :: "ext \<Rightarrow> endianness \<Rightarrow> parameter_list \<Rightarrow> bytes" where
  "write_parameter_list x e pl =
     concat (map (write_parameter x e) (parameters pl)) @ write_parameter x e SENTINEL"

text \<open>
  The loop of \<open>ParameterList::read_from\<close>: it ends at the end marker or at the first read that
  fails.
\<close>

partial_function (option) read_parameters ::
    "ext \<Rightarrow> endianness \<Rightarrow> bytes \<Rightarrow> (parameter list \<times> bytes) option" where
  "read_parameters x e bs =
     do { (pid, bs) \<leftarrow> read_u16 x e bs;
          (len, bs) \<leftarrow> read_u16 x e bs;
          if pid = PID_SENTINEL then Some ([], bs)
          else do { (v, bs) \<leftarrow> read_vec x (unat len) bs;
                    (ps, bs) \<leftarrow> read_parameters x e bs;
                    Some (\<lparr>parameter_id = pid, pvalue = v\<rparr> # ps, bs) } }"

definition read_parameter_list :: "ext \<Rightarrow> endianness \<Rightarrow> parameter_list reader" where
  "read_parameter_list x e bs =
     do { (ps, bs) \<leftarrow> read_parameters x e bs; Some (\<lparr>parameters = ps\<rparr>, bs) }"

text \<open>Padding is part of the value that is read back.\<close>

definition pad_parameter :: "parameter \<Rightarrow> parameter" where
  "pad_parameter p = p\<lparr>pvalue := pvalue p @ replicate (param_pad (length (pvalue p))) 0\<rparr>"

definition param_ok :: "parameter \<Rightarrow> bool" where
  "param_ok p \<longleftrightarrow> parameter_id p \<noteq> PID_SENTINEL
     \<and> length (pvalue p) + param_pad (length (pvalue p)) < 2 ^ 16"

lemma unat_of_nat_u16: "n < 2 ^ 16 \<Longrightarrow> unat (of_nat n :: u16) = n"
  by (simp add: unsigned_of_nat take_bit_nat_eq_self)

lemma write_parameter_eq:
  assumes "ext_ok x"
  shows "write_parameter x e p = write_u16 x e (parameter_id p)
    @ write_u16 x e (of_nat (length (pvalue (pad_parameter p)))) @ pvalue (pad_parameter p)"
proof -
  have "concat (replicate n (write_u8 x 0)) = replicate n 0" for n
    using assms by (induction n) (simp_all add: wire)
  then show ?thesis
    by (simp add: write_parameter_def pad_parameter_def Let_def)
qed

lemma length_write_parameter: "ext_ok x \<Longrightarrow> length (write_parameter x e p) = param_len_serialized p"
  by (simp add: write_parameter_eq wire param_len_serialized_def pad_parameter_def)

lemma length_write_parameter_list:
  "ext_ok x \<Longrightarrow> length (write_parameter_list x e pl) = pl_len_serialized pl"
  by (simp add: write_parameter_list_def pl_len_serialized_def length_write_parameter length_concat comp_def)

lemma read_write_parameters:
  assumes "ext_ok x" "\<forall>p \<in> set ps. param_ok p"
  shows "read_parameters x e (concat (map (write_parameter x e) ps) @ write_parameter x e SENTINEL @ r)
    = Some (map pad_parameter ps, r)"
  using assms(2)
proof (induction ps)
  case Nil
  show ?case
    by (subst read_parameters.simps)
      (simp add: write_parameter_eq [OF assms(1)] SENTINEL_def pad_parameter_def param_pad_def wire [OF assms(1)])
next
  case (Cons p ps)
  have len: "unat (of_nat (length (pvalue (pad_parameter p))) :: u16) = length (pvalue (pad_parameter p))"
    using Cons.prems by (intro unat_of_nat_u16) (simp add: param_ok_def pad_parameter_def)
  have "\<lparr>parameter_id = parameter_id p, pvalue = pvalue (pad_parameter p)\<rparr> = pad_parameter p"
    by (simp add: pad_parameter_def)
  with Cons show ?case
    by (subst read_parameters.simps)
      (simp add: write_parameter_eq [OF assms(1), of _ p] ext_u16 [OF assms(1)] ext_vec [OF assms(1)]
        len param_ok_def)
qed

lemma read_write_parameter_list [wire]:
  assumes "ext_ok x" "\<forall>p \<in> set (parameters pl). param_ok p"
  shows "read_parameter_list x e (write_parameter_list x e pl @ r) =
    Some (\<lparr>parameters = map pad_parameter (parameters pl)\<rparr>, r)"
  using assms by (simp add: read_parameter_list_def write_parameter_list_def read_write_parameters)

lemma pad_parameter_aligned: "length (pvalue p) mod 4 = 0 \<Longrightarrow> pad_parameter p = p"
  by (simp add: pad_parameter_def param_pad_def)

definition pl_wire :: "parameter_list \<Rightarrow> bool" where
  "pl_wire pl \<longleftrightarrow> (\<forall>p \<in> set (parameters pl). param_ok p \<and> length (pvalue p) mod 4 = 0)"

interpretation wire_pl: wire_format write_parameter_list read_parameter_list pl_wire
proof (unfold_locales, goal_cases)
  case (1 x pl e r)
  then have "map pad_parameter (parameters pl) = parameters pl"
    by (intro map_idI) (simp add: pl_wire_def pad_parameter_aligned)
  with 1 show ?case
    by (simp add: read_write_parameter_list pl_wire_def)
qed

section \<open>Lookup of parameters by id\<close>

definition pl_to_map :: "parameter_list \<Rightarrow> (u16, parameter list) btree_map" where
  "pl_to_map pl =
     fold (\<lambda>p m. bm_insert (parameter_id p)
               ((case bm_get m (parameter_id p) of None \<Rightarrow> [] | Some v \<Rightarrow> v) @ [p]) m)
       (parameters pl) bm_empty"

text \<open>
  The value readers discard what follows the value in the buffer. An \<open>Err\<close> is \<^const>\<open>None\<close>.
\<close>

definition from_buffer :: "'a reader \<Rightarrow> bytes \<Rightarrow> 'a option" where
  "from_buffer rd bs = map_option fst (rd bs)"

definition get_first_from_pl_map ::
    "(u16, parameter list) btree_map \<Rightarrow> 'a reader \<Rightarrow> u16 \<Rightarrow> 'a option" where
  "get_first_from_pl_map m rd pid =
     (case bm_get m pid of
        Some (p # _) \<Rightarrow> from_buffer rd (pvalue p)
      | _ \<Rightarrow> None)"

definition get_all_from_pl_map ::
    "(u16, parameter list) btree_map \<Rightarrow> 'a reader \<Rightarrow> u16 \<Rightarrow> 'a list option" where
  "get_all_from_pl_map m rd pid =
     those (map (\<lambda>p. from_buffer rd (pvalue p)) (case bm_get m pid of None \<Rightarrow> [] | Some v \<Rightarrow> v))"

definition get_option_from_pl_map ::
    "(u16, parameter list) btree_map \<Rightarrow> 'a reader \<Rightarrow> u16 \<Rightarrow> 'a option option" where
  "get_option_from_pl_map m rd pid =
     (case bm_get m pid of
        Some (p # _) \<Rightarrow> map_option Some (from_buffer rd (pvalue p))
      | _ \<Rightarrow> Some None)"

lemma get_pl_to_map:
  "bm_get (pl_to_map pl) pid =
     (case filter (\<lambda>p. parameter_id p = pid) (parameters pl) of [] \<Rightarrow> None | ps \<Rightarrow> Some ps)"
proof -
  have "bm_get (fold (\<lambda>p m. bm_insert (parameter_id p)
             ((case bm_get m (parameter_id p) of None \<Rightarrow> [] | Some v \<Rightarrow> v) @ [p]) m) ps m) pid =
      (case filter (\<lambda>p. parameter_id p = pid) ps of [] \<Rightarrow> bm_get m pid
       | qs \<Rightarrow> Some ((case bm_get m pid of None \<Rightarrow> [] | Some v \<Rightarrow> v) @ qs))" for ps and m
    by (induction ps arbitrary: m) (auto split: list.splits option.splits)
  from this [of "parameters pl" bm_empty] show ?thesis
    by (auto simp: pl_to_map_def split: list.splits)
qed

text \<open>Looking a parameter up finds the first one with its id, wherever it is in the list.\<close>

definition find_parameter :: "parameter list \<Rightarrow> u16 \<Rightarrow> parameter option" where
  "find_parameter ps pid = List.find (\<lambda>p. parameter_id p = pid) ps"

lemma find_filter:
  "List.find P xs = (case filter P xs of [] \<Rightarrow> None | x # _ \<Rightarrow> Some x)"
  by (induction xs) auto

lemma get_option_pl_to_map:
  "get_option_from_pl_map (pl_to_map pl) rd pid =
     (case find_parameter (parameters pl) pid of
        None \<Rightarrow> Some None | Some p \<Rightarrow> map_option Some (from_buffer rd (pvalue p)))"
  by (auto simp: get_option_from_pl_map_def get_pl_to_map find_parameter_def find_filter
      split: list.splits)

lemma get_first_pl_to_map:
  "get_first_from_pl_map (pl_to_map pl) rd pid =
     (case find_parameter (parameters pl) pid of
        None \<Rightarrow> None | Some p \<Rightarrow> from_buffer rd (pvalue p))"
  by (auto simp: get_first_from_pl_map_def get_pl_to_map find_parameter_def find_filter
      split: list.splits)

end
