(* ===== verification/Payload.thy ===== *)
theory Payload
  imports Wire_Elements
begin

text \<open>
  What a cache change carries: representation identifiers, serialized payloads, key hashes,
  sample identities, write options, status info and inline QoS, and the change itself
  (src/src/serialization/representation_identifier.rs, src/src/messages/submessages/elements,
  src/src/dds/key.rs, src/src/structure/rpc.rs, src/src/structure/cache_change.rs,
  src/src/dds/ddsdata.rs). \<open>bytes_slice\<close>, which avoids copying where it can, is shown to be the
  plain slice of the serialized payload.
\<close>

section \<open>Representation identifiers\<close>

datatype representation_identifier = RepId (rep_byte0: u8) (rep_byte1: u8)

definition CDR_BE :: representation_identifier where "CDR_BE = RepId 0 0"
definition CDR_LE :: representation_identifier where "CDR_LE = RepId 0 1"
definition PL_CDR_BE :: representation_identifier where "PL_CDR_BE = RepId 0 2"
definition PL_CDR_LE :: representation_identifier where "PL_CDR_LE = RepId 0 3"

definition rep_id_to_bytes :: "representation_identifier \<Rightarrow> bytes" where
  "rep_id_to_bytes r = [rep_byte0 r, rep_byte1 r]"

fun rep_id_from_bytes :: "bytes \<Rightarrow> representation_identifier option" where
  "rep_id_from_bytes (a # b # _) = Some (RepId a b)"
| "rep_id_from_bytes _ = None"

definition pl_cdr_rep_id_to_speedy :: "representation_identifier \<Rightarrow> endianness option" where
  "pl_cdr_rep_id_to_speedy r =
     (if r = PL_CDR_LE then Some LittleEndian
      else if r = PL_CDR_BE then Some BigEndian
      else if r = CDR_LE then Some LittleEndian
      else if r = CDR_BE then Some BigEndian
      else None)"

section \<open>Serialized payloads\<close>

record serialized_payload =
  representation_identifier :: representation_identifier
  representation_options :: "u8 \<times> u8"
  sp_value :: bytes

definition H_LEN :: nat where "H_LEN = 2 + 2"

definition sp_new_from_bytes :: "representation_identifier \<Rightarrow> bytes \<Rightarrow> serialized_payload" where
  "sp_new_from_bytes rep_id payload =
     \<lparr>representation_identifier = rep_id, representation_options = (0, 0), sp_value = payload\<rparr>"

definition sp_len_serialized :: "serialized_payload \<Rightarrow> nat" where
  "sp_len_serialized sp = H_LEN + length (sp_value sp)"

text \<open>\<open>slice(a..b)\<close> of a buffer; panics (\<^const>\<open>None\<close>) unless \<open>a \<le> b \<le> len\<close>.\<close>

definition slice :: "bytes \<Rightarrow> nat \<Rightarrow> nat \<Rightarrow> bytes option" where
  "slice bs a b = (if a \<le> b \<and> b \<le> length bs then Some (take (b - a) (drop a bs)) else None)"

definition sp_bytes_slice :: "serialized_payload \<Rightarrow> nat \<Rightarrow> nat \<Rightarrow> bytes option" where
  "sp_bytes_slice sp from0 to_before0 =
     (let to_before = min to_before0 (length (sp_value sp) + H_LEN);
          from = min from0 to_before
      in if from \<ge> H_LEN then slice (sp_value sp) (from - H_LEN) (to_before - H_LEN)
         else
           let b = rep_id_to_bytes (representation_identifier sp)
                   @ [fst (representation_options sp), snd (representation_options sp)]
           in if length b \<noteq> H_LEN then None
              else if to_before > H_LEN
              then Option.bind (slice (sp_value sp) 0 (to_before - H_LEN))
                     (\<lambda>v. slice (b @ v) from to_before)
              else slice b from to_before)"

definition sp_from_bytes :: "bytes \<Rightarrow> serialized_payload option" where
  "sp_from_bytes bs =
     (case bs of
        a # b # c # d # _ \<Rightarrow>
          if length bs \<ge> H_LEN
          then map_option
                 (\<lambda>v. \<lparr>representation_identifier = RepId a b, representation_options = (c, d), sp_value = v\<rparr>)
                 (slice bs H_LEN (length bs))
          else None
      | _ \<Rightarrow> None)"

definition write_serialized_payload :: "ext \<Rightarrow> serialized_payload \<Rightarrow> bytes" where
  "write_serialized_payload x sp =
     write_u8 x (rep_byte0 (representation_identifier sp)) @ write_u8 x (rep_byte1 (representation_identifier sp))
     @ write_u8 x (fst (representation_options sp)) @ write_u8 x (snd (representation_options sp))
     @ sp_value sp"

text \<open>The bytes of a payload, as they appear in a sample.\<close>

definition sp_bytes :: "serialized_payload \<Rightarrow> bytes" where
  "sp_bytes sp = rep_id_to_bytes (representation_identifier sp)
     @ [fst (representation_options sp), snd (representation_options sp)] @ sp_value sp"

lemma length_sp_bytes [simp]: "length (sp_bytes sp) = sp_len_serialized sp"
  by (simp add: sp_bytes_def rep_id_to_bytes_def sp_len_serialized_def H_LEN_def)

lemma write_serialized_payload_eq: "ext_ok x \<Longrightarrow> write_serialized_payload x sp = sp_bytes sp"
  by (simp add: write_serialized_payload_def sp_bytes_def rep_id_to_bytes_def wire)

lemma sp_from_bytes_sp_bytes: "sp_from_bytes (sp_bytes sp) = Some sp"
  by (simp add: sp_from_bytes_def sp_bytes_def rep_id_to_bytes_def H_LEN_def slice_def)

lemma sp_from_bytes_None: "sp_from_bytes bs = None \<longleftrightarrow> length bs < H_LEN"
  by (auto simp: sp_from_bytes_def H_LEN_def slice_def split: list.splits)

lemma sp_bytes_from_bytes: "sp_from_bytes bs = Some sp \<Longrightarrow> sp_bytes sp = bs"
  by (auto simp: sp_from_bytes_def sp_bytes_def rep_id_to_bytes_def H_LEN_def slice_def
      split: list.splits if_splits)

lemma drop_take_clamp:
  "drop from (take to xs) = drop (min from (min to (length xs))) (take (min to (length xs)) xs)"
proof -
  have "drop (min n (length ys)) ys = drop n ys" for n and ys :: "'a list"
    by (simp add: min_def)
  from this [of "from" "take to xs"] show ?thesis
    by (simp add: min.commute) (simp add: min_def)
qed

lemma sp_bytes_slice_eq:
  "sp_bytes_slice sp from to = Some (drop from (take to (sp_bytes sp)))"
proof -
  define t where "t = min to (length (sp_value sp) + 4)"
  define f where "f = min from t"
  obtain a b where h: "rep_id_to_bytes (representation_identifier sp)
      @ [fst (representation_options sp), snd (representation_options sp)] = a # b" "length b = 3"
    by (simp add: rep_id_to_bytes_def)
  define hd where "hd = a # b"
  have hd: "sp_bytes sp = hd @ sp_value sp" "length hd = 4"
    using h by (simp_all add: sp_bytes_def hd_def flip: append_assoc)
  have "drop from (take to (sp_bytes sp)) = drop f (take t (sp_bytes sp))"
    using drop_take_clamp [of "from" to "sp_bytes sp"] hd by (simp add: f_def t_def add.commute)
  also have "Some \<dots> = sp_bytes_slice sp from to"
  proof -
    have ft: "f \<le> t" "t \<le> length (sp_value sp) + 4"
      unfolding f_def t_def by linarith+
    have eq: "sp_bytes_slice sp from to =
        (if f \<ge> 4 then slice (sp_value sp) (f - 4) (t - 4)
         else if t > 4 then Option.bind (slice (sp_value sp) 0 (t - 4)) (\<lambda>v. slice (hd @ v) f t)
         else slice hd f t)"
      using hd(2) h by (simp add: sp_bytes_slice_def Let_def H_LEN_def t_def f_def hd_def)
    show ?thesis
      using ft hd(2) unfolding eq by (auto simp: slice_def hd(1) take_drop min_def)
  qed
  finally show ?thesis by simp
qed

section \<open>Key hashes, sample identities, write options\<close>

datatype key_hash = KeyHash (key_hash_bytes: bytes)

definition key_hash_from_pl_cdr_bytes :: "bytes \<Rightarrow> key_hash option" where
  "key_hash_from_pl_cdr_bytes bs = (if length bs = 16 then Some (KeyHash bs) else None)"

record sample_identity =
  si_writer_guid :: guid
  si_sequence_number :: seqnum

definition write_sample_identity :: "ext \<Rightarrow> endianness \<Rightarrow> sample_identity \<Rightarrow> bytes" where
  "write_sample_identity x e si =
     write_guid x e (si_writer_guid si) @ write_seqnum x e (si_sequence_number si)"

definition read_sample_identity :: "ext \<Rightarrow> endianness \<Rightarrow> sample_identity reader" where
  "read_sample_identity x e bs =
     do { (g, bs) \<leftarrow> read_guid x e bs; (sn, bs) \<leftarrow> read_seqnum x e bs;
          Some (\<lparr>si_writer_guid = g, si_sequence_number = sn\<rparr>, bs) }"

definition sample_identity_ok :: "sample_identity \<Rightarrow> bool" where
  "sample_identity_ok si \<longleftrightarrow> wf_prefix (guid_prefix (si_writer_guid si)) \<and> in_i64 (si_sequence_number si)"

lemma read_write_sample_identity [wire]:
  assumes "ext_ok x" "sample_identity_ok si"
  shows "read_sample_identity x e (write_sample_identity x e si @ r) = Some (si, r)"
  using assms by (simp add: read_sample_identity_def write_sample_identity_def sample_identity_ok_def wire)

interpretation wire_si: wire_format write_sample_identity read_sample_identity sample_identity_ok
  by unfold_locales (rule read_write_sample_identity)

record write_options =
  related_sample_identity :: "sample_identity option"
  source_timestamp :: "timestamp option"
  to_single_reader :: "guid option"

definition write_options_from :: "timestamp option \<Rightarrow> write_options" where
  "write_options_from ts =
     \<lparr>related_sample_identity = None, source_timestamp = ts, to_single_reader = None\<rparr>"

section \<open>Changes\<close>

datatype change_kind = Alive | NotAliveDisposed | NotAliveUnregistered

datatype dds_data =
    Data_Payload serialized_payload
  | DisposeByKey change_kind serialized_payload
  | DisposeByKeyHash change_kind key_hash

fun dds_change_kind :: "dds_data \<Rightarrow> change_kind" where
  "dds_change_kind (Data_Payload _) = Alive"
| "dds_change_kind (DisposeByKey k _) = k"
| "dds_change_kind (DisposeByKeyHash k _) = k"

fun payload_size :: "dds_data \<Rightarrow> nat" where
  "payload_size (Data_Payload sp) = sp_len_serialized sp"
| "payload_size (DisposeByKey _ key) = sp_len_serialized key"
| "payload_size (DisposeByKeyHash _ _) = 16"

fun dds_bytes_slice :: "dds_data \<Rightarrow> nat \<Rightarrow> nat \<Rightarrow> bytes option" where
  "dds_bytes_slice (Data_Payload sp) from to = sp_bytes_slice sp from to"
| "dds_bytes_slice (DisposeByKey _ key) from to = sp_bytes_slice key from to"
| "dds_bytes_slice (DisposeByKeyHash _ kh) from to =
     (let hash_vec = key_hash_bytes kh; end = min to (length hash_vec); start = min from end
      in slice hash_vec start end)"

record cache_change =
  writer_guid :: guid
  sequence_number :: seqnum
  write_options :: write_options
  data_value :: dds_data

definition cc_new :: "guid \<Rightarrow> seqnum \<Rightarrow> write_options \<Rightarrow> dds_data \<Rightarrow> cache_change" where
  "cc_new g sn wo d = \<lparr>writer_guid = g, sequence_number = sn, write_options = wo, data_value = d\<rparr>"

section \<open>Status info and inline QoS\<close>

abbreviation SI_Disposed :: u8 where "SI_Disposed \<equiv> 1"
abbreviation SI_Unregistered :: u8 where "SI_Unregistered \<equiv> 2"
abbreviation SI_Filtered :: u8 where "SI_Filtered \<equiv> 4"

datatype status_info = StatusInfo (status_bits: u8)

definition status_info_empty :: status_info where
  "status_info_empty = StatusInfo 0"

definition write_status_info :: "ext \<Rightarrow> status_info \<Rightarrow> bytes" where
  "write_status_info x s = write_u8 x 0 @ write_u8 x 0 @ write_u8 x 0 @ write_u8 x (status_bits s)"

definition read_status_info :: "ext \<Rightarrow> status_info reader" where
  "read_status_info x bs =
     do { (_, bs) \<leftarrow> read_u8 x bs; (_, bs) \<leftarrow> read_u8 x bs; (_, bs) \<leftarrow> read_u8 x bs;
          (b, bs) \<leftarrow> read_u8 x bs;
          Some (StatusInfo (flags_truncate x (SI_Disposed OR SI_Unregistered OR SI_Filtered) b), bs) }"

definition status_change_kind :: "ext \<Rightarrow> status_info \<Rightarrow> change_kind" where
  "status_change_kind x s =
     (if flags_contains x (status_bits s) SI_Disposed then NotAliveDisposed
      else if flags_contains x (status_bits s) SI_Unregistered then NotAliveUnregistered
      else Alive)"

definition create_pid_status_info_parameter :: "ext \<Rightarrow> bool \<Rightarrow> bool \<Rightarrow> bool \<Rightarrow> parameter option" where
  "create_pid_status_info_parameter x is_disposed is_unregistered is_filtered =
     do { v \<leftarrow> bv_set x (bv_from_bytes x [0]) 7 is_disposed;
          v \<leftarrow> bv_set x v 6 is_unregistered;
          v \<leftarrow> bv_set x v 5 is_filtered;
          case bv_to_bytes x v of
            [] \<Rightarrow> None
          | last_byte # _ \<Rightarrow> Some \<lparr>parameter_id = PID_STATUS_INFO, pvalue = [0, 0, 0, last_byte]\<rparr> }"

text \<open>The reads of inline QoS; \<^const>\<open>None\<close> is an \<open>Err\<close>.\<close>

definition iq_status_info :: "ext \<Rightarrow> parameter_list \<Rightarrow> representation_identifier \<Rightarrow> status_info option" where
  "iq_status_info x params rep_id =
     (let status_info = find_parameter (parameters params) PID_STATUS_INFO
      in do { ctx \<leftarrow> pl_cdr_rep_id_to_speedy rep_id;
              case status_info of
                Some p \<Rightarrow> from_buffer (read_status_info x) (pvalue p)
              | None \<Rightarrow> Some status_info_empty })"

definition iq_key_hash :: "parameter_list \<Rightarrow> key_hash option option" where
  "iq_key_hash params =
     (case find_parameter (parameters params) PID_KEY_HASH of
        Some p \<Rightarrow> map_option Some (key_hash_from_pl_cdr_bytes (pvalue p))
      | None \<Rightarrow> Some None)"

definition iq_related_sample_identity ::
    "ext \<Rightarrow> parameter_list \<Rightarrow> representation_identifier \<Rightarrow> sample_identity option option" where
  "iq_related_sample_identity x params rep_id =
     (let rsi = find_parameter (parameters params) PID_RELATED_SAMPLE_IDENTITY
      in do { endianness \<leftarrow> pl_cdr_rep_id_to_speedy rep_id;
              case rsi of
                Some p \<Rightarrow> map_option Some (from_buffer (read_sample_identity x endianness) (pvalue p))
              | None \<Rightarrow> Some None })"

definition status_byte :: "bool \<Rightarrow> bool \<Rightarrow> bool \<Rightarrow> u8" where
  "status_byte d u f = (if d then SI_Disposed else 0) OR (if u then SI_Unregistered else 0)
     OR (if f then SI_Filtered else 0)"

lemma create_pid_status_info_parameter_eq:
  assumes "ext_ok x"
  shows "create_pid_status_info_parameter x d u f =
    Some \<lparr>parameter_id = PID_STATUS_INFO, pvalue = [0, 0, 0, status_byte d u f]\<rparr>"
proof -
  have "bv_to_bytes x (byte_bits (status_byte d u f)) = [status_byte d u f]"
    using ext_bv(6) [OF assms, of "[status_byte d u f]"] by simp
  moreover have "byte_bits (status_byte d u f) = [False, False, False, False, False, f, u, d]"
    by (cases d; cases u; cases f) (simp_all add: byte_bits_def status_byte_def bit_simps)
  ultimately show ?thesis
    by (simp add: create_pid_status_info_parameter_def ext_bv(2,5) [OF assms] byte_bits_def)
qed

lemma status_info_roundtrip:
  assumes "ext_ok x"
  shows "from_buffer (read_status_info x) [0, 0, 0, status_byte d u f] = Some (StatusInfo (status_byte d u f))"
    and "status_change_kind x (StatusInfo (status_byte d u f)) =
      (if d then NotAliveDisposed else if u then NotAliveUnregistered else Alive)"
  using assms
  by (cases d; cases u; cases f;
      simp add: from_buffer_def read_status_info_def wire ext_flags status_byte_def status_change_kind_def)+

end
