(* ===== verification/Qos.thy ===== *)
theory Qos
  imports Wire_Elements
begin

text \<open>
  Quality-of-service policies (src/src/dds/qos.rs): the policy types, the builder, merging of two
  policy sets, the offered/requested compatibility check, and the conversion to and from the
  parameter lists that discovery sends. The model is of the default build, without the
  \<open>security\<close> feature and its \<open>property\<close> policy.

  \<open>dds_compatible\<close> states the rules that the comments of the check give (the table of the DDS
  specification); the check is compared with it, and the two places where it differs, the kind of
  \<open>Liveliness\<close> and the strength of \<open>Ownership\<close>, are stated as properties of their own.
\<close>

section \<open>Policies\<close>

datatype lifespan = Lifespan (lifespan_duration: duration)

datatype durability = Volatile | TransientLocal | Transient | Persistent

datatype presentation_access_scope = Scope_Instance | Scope_Topic | Scope_Group

record presentation =
  access_scope :: presentation_access_scope
  coherent_access :: bool
  ordered_access :: bool

datatype deadline = Deadline (deadline_period: duration)

datatype latency_budget = LatencyBudget (latency_duration: duration)

datatype ownership = Shared | Exclusive (strength: int)

datatype liveliness =
    Automatic (lease_duration: duration)
  | ManualByParticipant (lease_duration: duration)
  | ManualByTopic (lease_duration: duration)

datatype time_based_filter = TimeBasedFilter (minimum_separation: duration)

datatype reliability = BestEffort | Reliable (max_blocking_time: duration)

datatype destination_order = ByReceptionTimestamp | BySourceTimeStamp

datatype history = KeepLast (depth: int) | KeepAll

record resource_limits =
  max_samples :: int
  max_instances :: int
  max_samples_per_instance :: int

definition LENGTH_UNLIMITED :: int where
  "LENGTH_UNLIMITED = -1"

subsection \<open>Orders\<close>

datatype rust_ordering = Less | Equal | Greater

definition cmp :: "'a::linorder \<Rightarrow> 'a \<Rightarrow> rust_ordering" where
  "cmp a b = (if a < b then Less else if a = b then Equal else Greater)"

fun reverse :: "rust_ordering \<Rightarrow> rust_ordering" where
  "reverse Less = Greater"
| "reverse Equal = Equal"
| "reverse Greater = Less"

fun then_with :: "rust_ordering \<Rightarrow> rust_ordering \<Rightarrow> rust_ordering" where
  "then_with Equal o2 = o2"
| "then_with o1 _ = o1"

text \<open>The derived orders compare the positions of the variants.\<close>

fun durability_rank :: "durability \<Rightarrow> nat" where
  "durability_rank Volatile = 0"
| "durability_rank TransientLocal = 1"
| "durability_rank Transient = 2"
| "durability_rank Persistent = 3"

fun scope_rank :: "presentation_access_scope \<Rightarrow> nat" where
  "scope_rank Scope_Instance = 0"
| "scope_rank Scope_Topic = 1"
| "scope_rank Scope_Group = 2"

fun destination_order_rank :: "destination_order \<Rightarrow> nat" where
  "destination_order_rank ByReceptionTimestamp = 0"
| "destination_order_rank BySourceTimeStamp = 1"

fun kind_num :: "liveliness \<Rightarrow> int" where
  "kind_num (Automatic _) = 0"
| "kind_num (ManualByParticipant _) = 1"
| "kind_num (ManualByTopic _) = 2"

definition liveliness_cmp :: "liveliness \<Rightarrow> liveliness \<Rightarrow> rust_ordering" where
  "liveliness_cmp self other =
     then_with (cmp (kind_num other) (kind_num other))
       (reverse (cmp (lease_duration self) (lease_duration other)))"

fun reliability_cmp :: "reliability \<Rightarrow> reliability \<Rightarrow> rust_ordering" where
  "reliability_cmp BestEffort BestEffort = Equal"
| "reliability_cmp (Reliable _) (Reliable _) = Equal"
| "reliability_cmp BestEffort (Reliable _) = Less"
| "reliability_cmp (Reliable _) BestEffort = Greater"

section \<open>Policy sets\<close>

record qos_policies =
  durability :: "durability option"
  presentation :: "presentation option"
  deadline :: "deadline option"
  latency_budget :: "latency_budget option"
  ownership :: "ownership option"
  liveliness :: "liveliness option"
  time_based_filter :: "time_based_filter option"
  reliability :: "reliability option"
  destination_order :: "destination_order option"
  history :: "history option"
  resource_limits :: "resource_limits option"
  lifespan :: "lifespan option"

definition qos_none :: qos_policies where
  "qos_none = \<lparr>durability = None, presentation = None, deadline = None, latency_budget = None,
     ownership = None, liveliness = None, time_based_filter = None, reliability = None,
     destination_order = None, history = None, resource_limits = None, lifespan = None\<rparr>"

definition is_volatile :: "qos_policies \<Rightarrow> bool" where
  "is_volatile q \<longleftrightarrow> durability q = Some Volatile"

definition is_reliable :: "qos_policies \<Rightarrow> bool" where
  "is_reliable q \<longleftrightarrow> (case reliability q of Some (Reliable _) \<Rightarrow> True | _ \<Rightarrow> False)"

definition reliable_max_blocking_time :: "qos_policies \<Rightarrow> duration option" where
  "reliable_max_blocking_time q = (case reliability q of Some (Reliable t) \<Rightarrow> Some t | _ \<Rightarrow> None)"

definition option_or :: "'a option \<Rightarrow> 'a option \<Rightarrow> 'a option" where
  "option_or a b = (case a of Some _ \<Rightarrow> a | None \<Rightarrow> b)"

definition modify_by :: "qos_policies \<Rightarrow> qos_policies \<Rightarrow> qos_policies" where
  "modify_by self other = \<lparr>
     durability = option_or (durability other) (durability self),
     presentation = option_or (presentation other) (presentation self),
     deadline = option_or (deadline other) (deadline self),
     latency_budget = option_or (latency_budget other) (latency_budget self),
     ownership = option_or (ownership other) (ownership self),
     liveliness = option_or (liveliness other) (liveliness self),
     time_based_filter = option_or (time_based_filter other) (time_based_filter self),
     reliability = option_or (reliability other) (reliability self),
     destination_order = option_or (destination_order other) (destination_order self),
     history = option_or (history other) (history self),
     resource_limits = option_or (resource_limits other) (resource_limits self),
     lifespan = option_or (lifespan other) (lifespan self)\<rparr>"

datatype qos_policy_id =
    Durability_Id | Presentation_Id | Deadline_Id | LatencyBudget_Id | Ownership_Id | Liveliness_Id
  | TimeBasedFilter_Id | Reliability_Id | DestinationOrder_Id | History_Id | ResourceLimits_Id
  | Lifespan_Id | Property_Id

text \<open>One \<open>if let (Some(off), Some(req))\<close> test of the check.\<close>

definition fails :: "('a \<Rightarrow> 'a \<Rightarrow> bool) \<Rightarrow> 'a option \<Rightarrow> 'a option \<Rightarrow> bool" where
  "fails bad off req \<longleftrightarrow> (case (off, req) of (Some o1, Some r) \<Rightarrow> bad o1 r | _ \<Rightarrow> False)"

definition compliance_failure_wrt :: "qos_policies \<Rightarrow> qos_policies \<Rightarrow> qos_policy_id option" where
  "compliance_failure_wrt self other =
     (if fails (\<lambda>off req. durability_rank off < durability_rank req) (durability self) (durability other)
      then Some Durability_Id
      else if fails (\<lambda>off req. (coherent_access req \<and> \<not> coherent_access off)
                 \<or> (ordered_access req \<and> \<not> ordered_access off)
                 \<or> scope_rank (access_scope req) > scope_rank (access_scope off))
             (presentation self) (presentation other)
      then Some Presentation_Id
      else if fails (\<lambda>off req. deadline_period off > deadline_period req) (deadline self) (deadline other)
      then Some Deadline_Id
      else if fails (\<lambda>off req. latency_duration off > latency_duration req)
             (latency_budget self) (latency_budget other)
      then Some LatencyBudget_Id
      else if fails (\<lambda>off req. off \<noteq> req) (ownership self) (ownership other)
      then Some Ownership_Id
      else if fails (\<lambda>off req. liveliness_cmp off req = Less) (liveliness self) (liveliness other)
      then Some Liveliness_Id
      else if fails (\<lambda>off req. reliability_cmp off req = Less) (reliability self) (reliability other)
      then Some Reliability_Id
      else if fails (\<lambda>off req. destination_order_rank off < destination_order_rank req)
             (destination_order self) (destination_order other)
      then Some DestinationOrder_Id
      else None)"

section \<open>The builder\<close>

record qos_policy_builder =
  b_durability :: "durability option"
  b_presentation :: "presentation option"
  b_deadline :: "deadline option"
  b_latency_budget :: "latency_budget option"
  b_ownership :: "ownership option"
  b_liveliness :: "liveliness option"
  b_time_based_filter :: "time_based_filter option"
  b_reliability :: "reliability option"
  b_destination_order :: "destination_order option"
  b_history :: "history option"
  b_resource_limits :: "resource_limits option"
  b_lifespan :: "lifespan option"

datatype builder_call =
    B_durability durability | B_presentation presentation | B_deadline deadline
  | B_latency_budget latency_budget | B_ownership ownership | B_liveliness liveliness
  | B_time_based_filter time_based_filter | B_reliability reliability | B_best_effort
  | B_reliable duration | B_destination_order destination_order | B_history history
  | B_resource_limits resource_limits | B_lifespan lifespan

definition builder_new :: qos_policy_builder where
  "builder_new = \<lparr>b_durability = None, b_presentation = None, b_deadline = None, b_latency_budget = None,
     b_ownership = None, b_liveliness = None, b_time_based_filter = None, b_reliability = None,
     b_destination_order = None, b_history = None, b_resource_limits = None, b_lifespan = None\<rparr>"

fun builder_apply :: "builder_call \<Rightarrow> qos_policy_builder \<Rightarrow> qos_policy_builder" where
  "builder_apply (B_durability v) b = b\<lparr>b_durability := Some v\<rparr>"
| "builder_apply (B_presentation v) b = b\<lparr>b_presentation := Some v\<rparr>"
| "builder_apply (B_deadline v) b = b\<lparr>b_deadline := Some v\<rparr>"
| "builder_apply (B_latency_budget v) b = b\<lparr>b_latency_budget := Some v\<rparr>"
| "builder_apply (B_ownership v) b = b\<lparr>b_ownership := Some v\<rparr>"
| "builder_apply (B_liveliness v) b = b\<lparr>b_liveliness := Some v\<rparr>"
| "builder_apply (B_time_based_filter v) b = b\<lparr>b_time_based_filter := Some v\<rparr>"
| "builder_apply (B_reliability v) b = b\<lparr>b_reliability := Some v\<rparr>"
| "builder_apply B_best_effort b = b\<lparr>b_reliability := Some BestEffort\<rparr>"
| "builder_apply (B_reliable t) b = b\<lparr>b_reliability := Some (Reliable t)\<rparr>"
| "builder_apply (B_destination_order v) b = b\<lparr>b_destination_order := Some v\<rparr>"
| "builder_apply (B_history v) b = b\<lparr>b_history := Some v\<rparr>"
| "builder_apply (B_resource_limits v) b = b\<lparr>b_resource_limits := Some v\<rparr>"
| "builder_apply (B_lifespan v) b = b\<lparr>b_lifespan := Some v\<rparr>"

definition build :: "qos_policy_builder \<Rightarrow> qos_policies" where
  "build b = \<lparr>durability = b_durability b, presentation = b_presentation b, deadline = b_deadline b,
     latency_budget = b_latency_budget b, ownership = b_ownership b, liveliness = b_liveliness b,
     time_based_filter = b_time_based_filter b, reliability = b_reliability b,
     destination_order = b_destination_order b, history = b_history b,
     resource_limits = b_resource_limits b, lifespan = b_lifespan b\<rparr>"

section \<open>Conversion to and from parameters\<close>

text \<open>The derived encoding of an enumeration is a 32-bit tag: the variant's number.\<close>

definition write_tag :: "ext \<Rightarrow> endianness \<Rightarrow> nat \<Rightarrow> bytes" where
  "write_tag x e n = write_u32 x e (of_nat n)"

definition read_variant :: "ext \<Rightarrow> endianness \<Rightarrow> nat \<Rightarrow> 'a list \<Rightarrow> 'a reader" where
  "read_variant x e first variants bs =
     do { (t, bs) \<leftarrow> read_u32 x e bs;
          if first \<le> unat t \<and> unat t - first < length variants
          then Some (variants ! (unat t - first), bs) else None }"

definition write_durability :: "ext \<Rightarrow> endianness \<Rightarrow> durability \<Rightarrow> bytes" where
  "write_durability x e d = write_tag x e (durability_rank d)"

definition read_durability :: "ext \<Rightarrow> endianness \<Rightarrow> durability reader" where
  "read_durability x e = read_variant x e 0 [Volatile, TransientLocal, Transient, Persistent]"

definition write_presentation :: "ext \<Rightarrow> endianness \<Rightarrow> presentation \<Rightarrow> bytes" where
  "write_presentation x e p = write_tag x e (scope_rank (access_scope p))
     @ write_bool x (coherent_access p) @ write_bool x (ordered_access p)"

definition read_presentation :: "ext \<Rightarrow> endianness \<Rightarrow> presentation reader" where
  "read_presentation x e bs =
     do { (s, bs) \<leftarrow> read_variant x e 0 [Scope_Instance, Scope_Topic, Scope_Group] bs;
          (c, bs) \<leftarrow> read_bool x bs; (or1, bs) \<leftarrow> read_bool x bs;
          Some (\<lparr>access_scope = s, coherent_access = c, ordered_access = or1\<rparr>, bs) }"

definition write_liveliness :: "ext \<Rightarrow> endianness \<Rightarrow> liveliness \<Rightarrow> bytes" where
  "write_liveliness x e l = write_tag x e (nat (kind_num l)) @ write_duration x e (lease_duration l)"

definition read_liveliness :: "ext \<Rightarrow> endianness \<Rightarrow> liveliness reader" where
  "read_liveliness x e bs =
     do { (mk, bs) \<leftarrow> read_variant x e 0 [Automatic, ManualByParticipant, ManualByTopic] bs;
          (d, bs) \<leftarrow> read_duration x e bs; Some (mk d, bs) }"

definition write_destination_order :: "ext \<Rightarrow> endianness \<Rightarrow> destination_order \<Rightarrow> bytes" where
  "write_destination_order x e d = write_tag x e (destination_order_rank d)"

definition read_destination_order :: "ext \<Rightarrow> endianness \<Rightarrow> destination_order reader" where
  "read_destination_order x e = read_variant x e 0 [ByReceptionTimestamp, BySourceTimeStamp]"

definition write_resource_limits :: "ext \<Rightarrow> endianness \<Rightarrow> resource_limits \<Rightarrow> bytes" where
  "write_resource_limits x e r = write_i32 x e (max_samples r) @ write_i32 x e (max_instances r)
     @ write_i32 x e (max_samples_per_instance r)"

definition read_resource_limits :: "ext \<Rightarrow> endianness \<Rightarrow> resource_limits reader" where
  "read_resource_limits x e bs =
     do { (a, bs) \<leftarrow> read_i32 x e bs; (b, bs) \<leftarrow> read_i32 x e bs; (c, bs) \<leftarrow> read_i32 x e bs;
          Some (\<lparr>max_samples = a, max_instances = b, max_samples_per_instance = c\<rparr>, bs) }"

text \<open>The serialization forms of \<open>Ownership\<close>, \<open>Reliability\<close> and \<open>History\<close>.\<close>

datatype ownership_kind = OK_Shared | OK_Exclusive

datatype reliability_kind = RK_BestEffort | RK_Reliable

record reliability_serialization =
  rs_kind :: reliability_kind
  rs_max_blocking_time :: duration

datatype history_kind = HK_KeepLast | HK_KeepAll

record history_serialization =
  hs_kind :: history_kind
  hs_depth :: int

definition write_ownership_kind :: "ext \<Rightarrow> endianness \<Rightarrow> ownership_kind \<Rightarrow> bytes" where
  "write_ownership_kind x e k = write_tag x e (case k of OK_Shared \<Rightarrow> 0 | OK_Exclusive \<Rightarrow> 1)"

definition read_ownership_kind :: "ext \<Rightarrow> endianness \<Rightarrow> ownership_kind reader" where
  "read_ownership_kind x e = read_variant x e 0 [OK_Shared, OK_Exclusive]"

definition write_reliability :: "ext \<Rightarrow> endianness \<Rightarrow> reliability_serialization \<Rightarrow> bytes" where
  "write_reliability x e r = write_tag x e (case rs_kind r of RK_BestEffort \<Rightarrow> 1 | RK_Reliable \<Rightarrow> 2)
     @ write_duration x e (rs_max_blocking_time r)"

definition read_reliability :: "ext \<Rightarrow> endianness \<Rightarrow> reliability_serialization reader" where
  "read_reliability x e bs =
     do { (k, bs) \<leftarrow> read_variant x e 1 [RK_BestEffort, RK_Reliable] bs;
          (d, bs) \<leftarrow> read_duration x e bs; Some (\<lparr>rs_kind = k, rs_max_blocking_time = d\<rparr>, bs) }"

definition write_history :: "ext \<Rightarrow> endianness \<Rightarrow> history_serialization \<Rightarrow> bytes" where
  "write_history x e h = write_tag x e (case hs_kind h of HK_KeepLast \<Rightarrow> 0 | HK_KeepAll \<Rightarrow> 1)
     @ write_i32 x e (hs_depth h)"

definition read_history :: "ext \<Rightarrow> endianness \<Rightarrow> history_serialization reader" where
  "read_history x e bs =
     do { (k, bs) \<leftarrow> read_variant x e 0 [HK_KeepLast, HK_KeepAll] bs;
          (d, bs) \<leftarrow> read_i32 x e bs; Some (\<lparr>hs_kind = k, hs_depth = d\<rparr>, bs) }"

fun reliability_ser :: "reliability \<Rightarrow> reliability_serialization" where
  "reliability_ser BestEffort = \<lparr>rs_kind = RK_BestEffort, rs_max_blocking_time = Duration_ZERO\<rparr>"
| "reliability_ser (Reliable t) = \<lparr>rs_kind = RK_Reliable, rs_max_blocking_time = t\<rparr>"

fun history_ser :: "history \<Rightarrow> history_serialization" where
  "history_ser (KeepLast d) = \<lparr>hs_kind = HK_KeepLast, hs_depth = d\<rparr>"
| "history_ser KeepAll = \<lparr>hs_kind = HK_KeepAll, hs_depth = 0\<rparr>"

abbreviation PID_DURABILITY :: u16 where "PID_DURABILITY \<equiv> 0x001d"
abbreviation PID_PRESENTATION :: u16 where "PID_PRESENTATION \<equiv> 0x0021"
abbreviation PID_DEADLINE :: u16 where "PID_DEADLINE \<equiv> 0x0023"
abbreviation PID_LATENCY_BUDGET :: u16 where "PID_LATENCY_BUDGET \<equiv> 0x0027"
abbreviation PID_OWNERSHIP :: u16 where "PID_OWNERSHIP \<equiv> 0x001f"
abbreviation PID_OWNERSHIP_STRENGTH :: u16 where "PID_OWNERSHIP_STRENGTH \<equiv> 0x0006"
abbreviation PID_LIVELINESS :: u16 where "PID_LIVELINESS \<equiv> 0x001b"
abbreviation PID_TIME_BASED_FILTER :: u16 where "PID_TIME_BASED_FILTER \<equiv> 0x0004"
abbreviation PID_RELIABILITY :: u16 where "PID_RELIABILITY \<equiv> 0x001a"
abbreviation PID_DESTINATION_ORDER :: u16 where "PID_DESTINATION_ORDER \<equiv> 0x0025"
abbreviation PID_HISTORY :: u16 where "PID_HISTORY \<equiv> 0x0040"
abbreviation PID_RESOURCE_LIMITS :: u16 where "PID_RESOURCE_LIMITS \<equiv> 0x0041"
abbreviation PID_LIFESPAN :: u16 where "PID_LIFESPAN \<equiv> 0x002b"

definition emit_option :: "u16 \<Rightarrow> ('a \<Rightarrow> bytes) \<Rightarrow> 'a option \<Rightarrow> parameter list" where
  "emit_option pid w v = (case v of None \<Rightarrow> [] | Some m \<Rightarrow> [\<lparr>parameter_id = pid, pvalue = w m\<rparr>])"

definition qos_to_parameter_list :: "ext \<Rightarrow> endianness \<Rightarrow> qos_policies \<Rightarrow> parameter list" where
  "qos_to_parameter_list x e q =
     emit_option PID_DURABILITY (write_durability x e) (durability q)
     @ emit_option PID_PRESENTATION (write_presentation x e) (presentation q)
     @ emit_option PID_DEADLINE (\<lambda>d. write_duration x e (deadline_period d)) (deadline q)
     @ emit_option PID_LATENCY_BUDGET (\<lambda>l. write_duration x e (latency_duration l)) (latency_budget q)
     @ (case ownership q of
          Some (Exclusive s) \<Rightarrow>
            emit_option PID_OWNERSHIP (write_ownership_kind x e) (Some OK_Exclusive)
            @ emit_option PID_OWNERSHIP_STRENGTH (write_i32 x e) (Some s)
        | Some Shared \<Rightarrow> emit_option PID_OWNERSHIP (write_ownership_kind x e) (Some OK_Shared)
        | None \<Rightarrow> [])
     @ emit_option PID_LIVELINESS (write_liveliness x e) (liveliness q)
     @ emit_option PID_TIME_BASED_FILTER (\<lambda>t. write_duration x e (minimum_separation t)) (time_based_filter q)
     @ emit_option PID_RELIABILITY (write_reliability x e) (map_option reliability_ser (reliability q))
     @ emit_option PID_DESTINATION_ORDER (write_destination_order x e) (destination_order q)
     @ emit_option PID_HISTORY (write_history x e) (map_option history_ser (history q))
     @ emit_option PID_RESOURCE_LIMITS (write_resource_limits x e) (resource_limits q)
     @ emit_option PID_LIFESPAN (\<lambda>l. write_duration x e (lifespan_duration l)) (lifespan q)"

definition wrap_reader :: "('a \<Rightarrow> 'b) \<Rightarrow> 'a reader \<Rightarrow> 'b reader" where
  "wrap_reader mk rd bs = do { (a, bs) \<leftarrow> rd bs; Some (mk a, bs) }"

fun ownership_of_parts :: "ownership_kind option \<Rightarrow> int option \<Rightarrow> ownership option" where
  "ownership_of_parts (Some OK_Shared) None = Some Shared"
| "ownership_of_parts (Some OK_Shared) (Some _) = None"
| "ownership_of_parts (Some OK_Exclusive) (Some s) = Some (Exclusive s)"
| "ownership_of_parts (Some OK_Exclusive) None = None"
| "ownership_of_parts None _ = None"

definition qos_from_parameter_list ::
    "ext \<Rightarrow> endianness \<Rightarrow> (u16, parameter list) btree_map \<Rightarrow> qos_policies option" where
  "qos_from_parameter_list x e m =
     do { dur \<leftarrow> get_option_from_pl_map m (read_durability x e) PID_DURABILITY;
          pres \<leftarrow> get_option_from_pl_map m (read_presentation x e) PID_PRESENTATION;
          dl \<leftarrow> get_option_from_pl_map m (wrap_reader Deadline (read_duration x e)) PID_DEADLINE;
          lb \<leftarrow> get_option_from_pl_map m (wrap_reader LatencyBudget (read_duration x e)) PID_LATENCY_BUDGET;
          ok \<leftarrow> get_option_from_pl_map m (read_ownership_kind x e) PID_OWNERSHIP;
          os \<leftarrow> get_option_from_pl_map m (read_i32 x e) PID_OWNERSHIP_STRENGTH;
          rs \<leftarrow> get_option_from_pl_map m (read_reliability x e) PID_RELIABILITY;
          dord \<leftarrow> get_option_from_pl_map m (read_destination_order x e) PID_DESTINATION_ORDER;
          hs \<leftarrow> get_option_from_pl_map m (read_history x e) PID_HISTORY;
          live \<leftarrow> get_option_from_pl_map m (read_liveliness x e) PID_LIVELINESS;
          tbf \<leftarrow> get_option_from_pl_map m (wrap_reader TimeBasedFilter (read_duration x e)) PID_TIME_BASED_FILTER;
          rl \<leftarrow> get_option_from_pl_map m (read_resource_limits x e) PID_RESOURCE_LIMITS;
          ls \<leftarrow> get_option_from_pl_map m (wrap_reader Lifespan (read_duration x e)) PID_LIFESPAN;
          Some \<lparr>
            durability = dur, presentation = pres, deadline = dl, latency_budget = lb,
            ownership = ownership_of_parts ok os, liveliness = live, time_based_filter = tbf,
            reliability = map_option (\<lambda>r. case rs_kind r of RK_BestEffort \<Rightarrow> BestEffort
                             | RK_Reliable \<Rightarrow> Reliable (rs_max_blocking_time r)) rs,
            destination_order = dord,
            history = map_option (\<lambda>h. case hs_kind h of HK_KeepAll \<Rightarrow> KeepAll
                             | HK_KeepLast \<Rightarrow> KeepLast (hs_depth h)) hs,
            resource_limits = rl, lifespan = ls\<rparr> }"

subsection \<open>Reading back policies\<close>

lemma read_variant_tag [wire]:
  assumes "ext_ok x" "first \<le> n" "n - first < length vs" "n < 2 ^ 32"
  shows "read_variant x e first vs (write_tag x e n @ r) = Some (vs ! (n - first), r)"
  using assms by (simp add: read_variant_def write_tag_def wire unsigned_of_nat take_bit_nat_eq_self)

lemma read_write_durability [wire]:
  "ext_ok x \<Longrightarrow> read_durability x e (write_durability x e d @ r) = Some (d, r)"
  by (cases d) (simp_all add: read_durability_def write_durability_def wire)

lemma read_write_presentation [wire]:
  "ext_ok x \<Longrightarrow> read_presentation x e (write_presentation x e p @ r) = Some (p, r)"
  by (cases "access_scope p") (simp_all add: read_presentation_def write_presentation_def wire)

lemma read_write_liveliness [wire]:
  "ext_ok x \<Longrightarrow> read_liveliness x e (write_liveliness x e l @ r) = Some (l, r)"
  by (cases l) (simp_all add: read_liveliness_def write_liveliness_def wire)

lemma read_write_destination_order [wire]:
  "ext_ok x \<Longrightarrow> read_destination_order x e (write_destination_order x e d @ r) = Some (d, r)"
  by (cases d) (simp_all add: read_destination_order_def write_destination_order_def wire)

definition resource_limits_ok :: "resource_limits \<Rightarrow> bool" where
  "resource_limits_ok r \<longleftrightarrow> in_i32 (max_samples r) \<and> in_i32 (max_instances r)
     \<and> in_i32 (max_samples_per_instance r)"

lemma read_write_resource_limits [wire]:
  "ext_ok x \<Longrightarrow> resource_limits_ok l \<Longrightarrow>
    read_resource_limits x e (write_resource_limits x e l @ r) = Some (l, r)"
  by (simp add: read_resource_limits_def write_resource_limits_def resource_limits_ok_def wire)

lemma read_write_ownership_kind [wire]:
  "ext_ok x \<Longrightarrow> read_ownership_kind x e (write_ownership_kind x e k @ r) = Some (k, r)"
  by (cases k) (simp_all add: read_ownership_kind_def write_ownership_kind_def wire)

lemma read_write_reliability [wire]:
  "ext_ok x \<Longrightarrow> read_reliability x e (write_reliability x e k @ r) = Some (k, r)"
  by (cases "rs_kind k") (simp_all add: read_reliability_def write_reliability_def wire)

lemma read_write_history [wire]:
  "ext_ok x \<Longrightarrow> in_i32 (hs_depth h) \<Longrightarrow> read_history x e (write_history x e h @ r) = Some (h, r)"
  by (cases "hs_kind h") (simp_all add: read_history_def write_history_def wire)

text \<open>The values of a policy set that fit the wire.\<close>

definition qos_wire :: "qos_policies \<Rightarrow> bool" where
  "qos_wire q \<longleftrightarrow>
     (\<forall>s. ownership q = Some (Exclusive s) \<longrightarrow> in_i32 s)
   \<and> (\<forall>d. history q = Some (KeepLast d) \<longrightarrow> in_i32 d)
   \<and> (\<forall>r. resource_limits q = Some r \<longrightarrow> resource_limits_ok r)"

definition lookup :: "parameter list \<Rightarrow> 'a reader \<Rightarrow> u16 \<Rightarrow> 'a option option" where
  "lookup ps rd pid = get_option_from_pl_map (pl_to_map \<lparr>parameters = map pad_parameter ps\<rparr>) rd pid"

definition lacks :: "u16 \<Rightarrow> parameter list \<Rightarrow> bool" where
  "lacks pid ps \<longleftrightarrow> (\<forall>p \<in> set ps. parameter_id p \<noteq> pid)"

lemma lacks_simps [simp]:
  "lacks pid []" "lacks pid (ps @ qs) \<longleftrightarrow> lacks pid ps \<and> lacks pid qs"
  "pid \<noteq> pid' \<Longrightarrow> lacks pid (emit_option pid' w v)"
  by (auto simp: lacks_def emit_option_def split: option.splits)

lemma find_padded:
  "find_parameter (map pad_parameter ps) pid = map_option pad_parameter (find_parameter ps pid)"
  by (induction ps) (auto simp: find_parameter_def pad_parameter_def)

lemma lookup_eq:
  "lookup ps rd pid = (case find_parameter ps pid of None \<Rightarrow> Some None
     | Some p \<Rightarrow> map_option Some (from_buffer rd (pvalue (pad_parameter p))))"
  by (simp add: lookup_def get_option_pl_to_map find_padded option.case_eq_if option.map_sel)

lemma lookup_lacks: "lacks pid ps \<Longrightarrow> lookup ps rd pid = Some None"
proof -
  assume "lacks pid ps"
  then have "find_parameter ps pid = None"
    by (simp add: lacks_def find_parameter_def find_None_iff)
  then show ?thesis
    by (simp add: lookup_eq)
qed

lemma lookup_skip: "lacks pid ps \<Longrightarrow> lookup (ps @ qs) rd pid = lookup qs rd pid"
  by (induction ps) (auto simp: lookup_eq lacks_def find_parameter_def)

lemma lookup_hit:
  assumes "\<And>m r. v = Some m \<Longrightarrow> rd (w m @ r) = Some (f m, r)" and "lacks pid qs"
  shows "lookup (emit_option pid w v @ qs) rd pid = Some (map_option f v)"
proof (cases v)
  case None
  then show ?thesis
    using lookup_lacks [OF assms(2)] by (simp add: emit_option_def)
next
  case (Some m)
  then show ?thesis
    using assms(1) [OF Some]
    by (simp add: lookup_eq emit_option_def find_parameter_def from_buffer_def pad_parameter_def)
qed

lemma lookup_hit_end:
  assumes "\<And>m r. v = Some m \<Longrightarrow> rd (w m @ r) = Some (f m, r)"
  shows "lookup (emit_option pid w v) rd pid = Some (map_option f v)"
  using lookup_hit [of v rd w f pid "[]"] assms by simp

lemma wrap_reader_duration [wire]:
  "ext_ok x \<Longrightarrow> wrap_reader mk (read_duration x e) (write_duration x e d @ r) = Some (mk d, r)"
  by (simp add: wrap_reader_def wire)

text \<open>The parameters of the two parts of \<open>Ownership\<close>.\<close>

definition ownership_params :: "ext \<Rightarrow> endianness \<Rightarrow> ownership option \<Rightarrow> parameter list" where
  "ownership_params x e own = (case own of
     Some (Exclusive s) \<Rightarrow> emit_option PID_OWNERSHIP (write_ownership_kind x e) (Some OK_Exclusive)
        @ emit_option PID_OWNERSHIP_STRENGTH (write_i32 x e) (Some s)
   | Some Shared \<Rightarrow> emit_option PID_OWNERSHIP (write_ownership_kind x e) (Some OK_Shared)
   | None \<Rightarrow> [])"

lemma lacks_ownership [simp]:
  "pid \<noteq> PID_OWNERSHIP \<Longrightarrow> pid \<noteq> PID_OWNERSHIP_STRENGTH \<Longrightarrow> lacks pid (ownership_params x e own)"
  by (auto simp: ownership_params_def split: option.splits ownership.splits)

lemma lookup_ownership:
  assumes "ext_ok x" "\<And>s. own = Some (Exclusive s) \<Longrightarrow> in_i32 s"
    and "lacks PID_OWNERSHIP qs" "lacks PID_OWNERSHIP_STRENGTH qs"
  obtains ok os where "lookup (ownership_params x e own @ qs) (read_ownership_kind x e) PID_OWNERSHIP = Some ok"
    and "lookup (ownership_params x e own @ qs) (read_i32 x e) PID_OWNERSHIP_STRENGTH = Some os"
    and "ownership_of_parts ok os = own"
proof (cases own)
  case None
  then show thesis
    using assms by (intro that [of None None]) (simp_all add: ownership_params_def lookup_lacks)
next
  case (Some o1)
  show thesis
  proof (cases o1)
    case Shared
    have "lookup (emit_option PID_OWNERSHIP (write_ownership_kind x e) (Some OK_Shared) @ qs)
        (read_ownership_kind x e) PID_OWNERSHIP = Some (map_option (\<lambda>k. k) (Some OK_Shared))"
      using assms by (intro lookup_hit) (simp_all add: wire)
    with Some Shared show thesis
      using assms by (intro that [of "Some OK_Shared" None]) (simp_all add: ownership_params_def lookup_skip lookup_lacks)
  next
    case (Exclusive s)
    have "lookup (emit_option PID_OWNERSHIP (write_ownership_kind x e) (Some OK_Exclusive)
        @ emit_option PID_OWNERSHIP_STRENGTH (write_i32 x e) (Some s) @ qs)
        (read_ownership_kind x e) PID_OWNERSHIP = Some (map_option (\<lambda>k. k) (Some OK_Exclusive))"
      using assms by (intro lookup_hit) (simp_all add: wire)
    moreover have "lookup (emit_option PID_OWNERSHIP_STRENGTH (write_i32 x e) (Some s) @ qs)
        (read_i32 x e) PID_OWNERSHIP_STRENGTH = Some (map_option (\<lambda>k. k) (Some s))"
      using assms Some Exclusive by (intro lookup_hit) (simp_all add: wire)
    ultimately show thesis
      using Some Exclusive
      by (intro that [of "Some OK_Exclusive" "Some s"]) (simp_all add: ownership_params_def lookup_skip)
  qed
qed

subsection \<open>The whole policy set\<close>

lemma emit_params_ok:
  assumes "\<And>m. v = Some m \<Longrightarrow> length (w m) < 100" and "pid \<noteq> PID_SENTINEL"
  shows "\<forall>p \<in> set (emit_option pid w v). param_ok p"
proof -
  have pad: "n < 100 \<Longrightarrow> n + param_pad n < 2 ^ 16" for n
  proof -
    assume "n < 100"
    moreover have "param_pad n \<le> 4"
      by (simp add: param_pad_def)
    ultimately show "n + param_pad n < 2 ^ 16" by simp
  qed
  show ?thesis
  proof (cases v)
    case (Some m)
    then show ?thesis
      using pad [OF assms(1) [OF Some]] assms(2) by (simp add: emit_option_def param_ok_def)
  qed (simp add: emit_option_def)
qed

lemma length_write_duration: "ext_ok x \<Longrightarrow> length (write_duration x e d) = 8"
  by (simp add: write_duration_def wire in_i32_sint)

lemma length_policies:
  assumes "ext_ok x"
  shows "length (write_durability x e d) = 4" "length (write_presentation x e p) = 6"
    "length (write_ownership_kind x e k) = 4" "length (write_liveliness x e l) = 12"
    "length (write_reliability x e rs) = 12" "length (write_destination_order x e dord) = 4"
    "in_i32 (hs_depth h) \<Longrightarrow> length (write_history x e h) = 8"
    "resource_limits_ok rl \<Longrightarrow> length (write_resource_limits x e rl) = 12"
  using assms
  by (simp_all add: write_durability_def write_presentation_def write_ownership_kind_def write_liveliness_def
      write_reliability_def write_destination_order_def write_history_def write_resource_limits_def
      write_tag_def resource_limits_ok_def length_write_duration wire)

lemma history_ser_ok: "qos_wire q \<Longrightarrow> map_option history_ser (history q) = Some h \<Longrightarrow> in_i32 (hs_depth h)"
  by (cases "history q"; cases "the (history q)") (auto simp: qos_wire_def in_i32_def)

lemma qos_to_parameter_list_eq:
  "qos_to_parameter_list x e q =
     emit_option PID_DURABILITY (write_durability x e) (durability q)
     @ emit_option PID_PRESENTATION (write_presentation x e) (presentation q)
     @ emit_option PID_DEADLINE (\<lambda>d. write_duration x e (deadline_period d)) (deadline q)
     @ emit_option PID_LATENCY_BUDGET (\<lambda>l. write_duration x e (latency_duration l)) (latency_budget q)
     @ ownership_params x e (ownership q)
     @ emit_option PID_LIVELINESS (write_liveliness x e) (liveliness q)
     @ emit_option PID_TIME_BASED_FILTER (\<lambda>t. write_duration x e (minimum_separation t)) (time_based_filter q)
     @ emit_option PID_RELIABILITY (write_reliability x e) (map_option reliability_ser (reliability q))
     @ emit_option PID_DESTINATION_ORDER (write_destination_order x e) (destination_order q)
     @ emit_option PID_HISTORY (write_history x e) (map_option history_ser (history q))
     @ emit_option PID_RESOURCE_LIMITS (write_resource_limits x e) (resource_limits q)
     @ emit_option PID_LIFESPAN (\<lambda>l. write_duration x e (lifespan_duration l)) (lifespan q)
     @ []"
  by (simp add: qos_to_parameter_list_def ownership_params_def)

lemma qos_params_ok:
  assumes "ext_ok x" "qos_wire q"
  shows "\<forall>p \<in> set (qos_to_parameter_list x e q). param_ok p"
proof -
  have kind: "\<forall>p \<in> set (emit_option PID_OWNERSHIP (write_ownership_kind x e) v). param_ok p" for v
    using assms(1) by (intro emit_params_ok) (simp_all add: length_policies)
  have str: "\<forall>p \<in> set (emit_option PID_OWNERSHIP_STRENGTH (write_i32 x e) (Some s)). param_ok p"
    if "in_i32 s" for s
    using assms(1) that by (intro emit_params_ok) (simp_all add: wire)
  have own: "\<forall>p \<in> set (ownership_params x e (ownership q)). param_ok p"
    using kind [of "Some OK_Exclusive"] kind [of "Some OK_Shared"] str assms(2)
    by (cases "ownership q"; cases "the (ownership q)") (auto simp: ownership_params_def qos_wire_def)
  show ?thesis
    unfolding qos_to_parameter_list_eq set_append ball_Un
    by (intro conjI emit_params_ok own)
      (use history_ser_ok [OF assms(2)] assms in \<open>auto simp: length_policies length_write_duration qos_wire_def\<close>)
qed

lemma qos_lookups:
  assumes "ext_ok x" "qos_wire q"
  shows "lookup (qos_to_parameter_list x e q) (read_durability x e) PID_DURABILITY = Some (durability q)"
    and "lookup (qos_to_parameter_list x e q) (read_presentation x e) PID_PRESENTATION = Some (presentation q)"
    and "lookup (qos_to_parameter_list x e q) (wrap_reader Deadline (read_duration x e)) PID_DEADLINE
      = Some (deadline q)"
    and "lookup (qos_to_parameter_list x e q) (wrap_reader LatencyBudget (read_duration x e)) PID_LATENCY_BUDGET
      = Some (latency_budget q)"
    and "lookup (qos_to_parameter_list x e q) (read_liveliness x e) PID_LIVELINESS = Some (liveliness q)"
    and "lookup (qos_to_parameter_list x e q) (wrap_reader TimeBasedFilter (read_duration x e))
        PID_TIME_BASED_FILTER = Some (time_based_filter q)"
    and "lookup (qos_to_parameter_list x e q) (read_reliability x e) PID_RELIABILITY
      = Some (map_option reliability_ser (reliability q))"
    and "lookup (qos_to_parameter_list x e q) (read_destination_order x e) PID_DESTINATION_ORDER
      = Some (destination_order q)"
    and "lookup (qos_to_parameter_list x e q) (read_history x e) PID_HISTORY
      = Some (map_option history_ser (history q))"
    and "lookup (qos_to_parameter_list x e q) (read_resource_limits x e) PID_RESOURCE_LIMITS
      = Some (resource_limits q)"
    and "lookup (qos_to_parameter_list x e q) (wrap_reader Lifespan (read_duration x e)) PID_LIFESPAN
      = Some (lifespan q)"
  unfolding qos_to_parameter_list_eq
  using assms(1) history_ser_ok [OF assms(2)] assms(2) [unfolded qos_wire_def]
  by (simp_all add: lookup_skip, ((subst lookup_hit [where f = "\<lambda>v. v"] | subst lookup_hit_end [where f = "\<lambda>v. v"]);
      auto simp: wire option.map_ident)+)

lemma qos_from_padded:
  assumes "ext_ok x" "qos_wire q"
  shows "qos_from_parameter_list x e
    (pl_to_map \<lparr>parameters = map pad_parameter (qos_to_parameter_list x e q)\<rparr>) = Some q"
proof -
  have own: "in_i32 s" if "ownership q = Some (Exclusive s)" for s
    using assms(2) that by (simp add: qos_wire_def)
  obtain ok os where
    ok: "lookup (qos_to_parameter_list x e q) (read_ownership_kind x e) PID_OWNERSHIP = Some ok"
      "lookup (qos_to_parameter_list x e q) (read_i32 x e) PID_OWNERSHIP_STRENGTH = Some os"
      "ownership_of_parts ok os = ownership q"
    unfolding qos_to_parameter_list_eq
    by (simp add: lookup_skip) (rule lookup_ownership [OF assms(1) own], auto)
  have rel: "map_option (\<lambda>r. case rs_kind r of RK_BestEffort \<Rightarrow> BestEffort
      | RK_Reliable \<Rightarrow> Reliable (rs_max_blocking_time r)) (map_option reliability_ser v) = v" for v
    by (cases v; cases "the v") simp_all
  have hist: "map_option (\<lambda>h. case hs_kind h of HK_KeepAll \<Rightarrow> KeepAll
      | HK_KeepLast \<Rightarrow> KeepLast (hs_depth h)) (map_option history_ser v) = v" for v
    by (cases v; cases "the v") simp_all
  show ?thesis
    unfolding qos_from_parameter_list_def
    using qos_lookups [OF assms] ok by (simp add: lookup_def rel hist del: option.map_comp)
qed

section \<open>The compatibility rules\<close>

definition meets :: "('a \<Rightarrow> 'a \<Rightarrow> bool) \<Rightarrow> 'a option \<Rightarrow> 'a option \<Rightarrow> bool" where
  "meets good off req \<longleftrightarrow> (\<forall>o1 r. off = Some o1 \<longrightarrow> req = Some r \<longrightarrow> good o1 r)"

fun exclusive :: "ownership \<Rightarrow> bool" where
  "exclusive Shared = False"
| "exclusive (Exclusive _) = True"

fun reliable_kind :: "reliability \<Rightarrow> bool" where
  "reliable_kind BestEffort = False"
| "reliable_kind (Reliable _) = True"

text \<open>The rule of one policy; policies without a rule are never incompatible.\<close>

fun dds_rule :: "qos_policy_id \<Rightarrow> qos_policies \<Rightarrow> qos_policies \<Rightarrow> bool" where
  "dds_rule Durability_Id off req =
     meets (\<lambda>o1 r. durability_rank r \<le> durability_rank o1) (durability off) (durability req)"
| "dds_rule Presentation_Id off req =
     meets (\<lambda>o1 r. (coherent_access r \<longrightarrow> coherent_access o1) \<and> (ordered_access r \<longrightarrow> ordered_access o1)
         \<and> scope_rank (access_scope r) \<le> scope_rank (access_scope o1)) (presentation off) (presentation req)"
| "dds_rule Deadline_Id off req =
     meets (\<lambda>o1 r. deadline_period o1 \<le> deadline_period r) (deadline off) (deadline req)"
| "dds_rule LatencyBudget_Id off req =
     meets (\<lambda>o1 r. latency_duration o1 \<le> latency_duration r) (latency_budget off) (latency_budget req)"
| "dds_rule Ownership_Id off req =
     meets (\<lambda>o1 r. exclusive o1 = exclusive r) (ownership off) (ownership req)"
| "dds_rule Liveliness_Id off req =
     meets (\<lambda>o1 r. kind_num r \<le> kind_num o1 \<and> lease_duration o1 \<le> lease_duration r)
       (liveliness off) (liveliness req)"
| "dds_rule Reliability_Id off req =
     meets (\<lambda>o1 r. reliable_kind r \<longrightarrow> reliable_kind o1) (reliability off) (reliability req)"
| "dds_rule DestinationOrder_Id off req =
     meets (\<lambda>o1 r. destination_order_rank r \<le> destination_order_rank o1)
       (destination_order off) (destination_order req)"
| "dds_rule _ off req = True"

definition dds_compatible :: "qos_policies \<Rightarrow> qos_policies \<Rightarrow> bool" where
  "dds_compatible off req \<longleftrightarrow> (\<forall>p. dds_rule p off req)"

text \<open>The two deviations are excluded: same liveliness kind, same strength of exclusive owners.\<close>

definition same_kinds :: "qos_policies \<Rightarrow> qos_policies \<Rightarrow> bool" where
  "same_kinds off req \<longleftrightarrow>
     meets (\<lambda>o1 r. kind_num o1 = kind_num r) (liveliness off) (liveliness req)
     \<and> meets (\<lambda>o1 r. exclusive o1 \<and> exclusive r \<longrightarrow> o1 = r) (ownership off) (ownership req)"

lemma fails_meets: "fails bad off req \<longleftrightarrow> \<not> meets (\<lambda>o1 r. \<not> bad o1 r) off req"
  by (auto simp: fails_def meets_def split: option.splits)

lemma liveliness_cmp_Less: "liveliness_cmp a b = Less \<longleftrightarrow> lease_duration a > lease_duration b"
  by (auto simp: liveliness_cmp_def cmp_def)

lemma reliability_cmp_Less: "reliability_cmp a b = Less \<longleftrightarrow> \<not> reliable_kind a \<and> reliable_kind b"
  by (cases a; cases b) simp_all

lemma meets_mono: "(\<And>a b. good a b \<Longrightarrow> good' a b) \<Longrightarrow> meets good off req \<Longrightarrow> meets good' off req"
  by (simp add: meets_def)

text \<open>Each test of the check against the rule of its policy.\<close>

lemma check_rules:
  assumes "same_kinds off req"
  shows "fails (\<lambda>off req. durability_rank off < durability_rank req) (durability off) (durability req)
      \<longleftrightarrow> \<not> dds_rule Durability_Id off req"
    and "fails (\<lambda>off req. (coherent_access req \<and> \<not> coherent_access off)
           \<or> (ordered_access req \<and> \<not> ordered_access off)
           \<or> scope_rank (access_scope req) > scope_rank (access_scope off)) (presentation off) (presentation req)
      \<longleftrightarrow> \<not> dds_rule Presentation_Id off req"
    and "fails (\<lambda>off req. deadline_period off > deadline_period req) (deadline off) (deadline req)
      \<longleftrightarrow> \<not> dds_rule Deadline_Id off req"
    and "fails (\<lambda>off req. latency_duration off > latency_duration req) (latency_budget off) (latency_budget req)
      \<longleftrightarrow> \<not> dds_rule LatencyBudget_Id off req"
    and "fails (\<lambda>off req. off \<noteq> req) (ownership off) (ownership req) \<longleftrightarrow> \<not> dds_rule Ownership_Id off req"
    and "fails (\<lambda>off req. liveliness_cmp off req = Less) (liveliness off) (liveliness req)
      \<longleftrightarrow> \<not> dds_rule Liveliness_Id off req"
    and "fails (\<lambda>off req. reliability_cmp off req = Less) (reliability off) (reliability req)
      \<longleftrightarrow> \<not> dds_rule Reliability_Id off req"
    and "fails (\<lambda>off req. destination_order_rank off < destination_order_rank req)
          (destination_order off) (destination_order req)
      \<longleftrightarrow> \<not> dds_rule DestinationOrder_Id off req"
proof -
  have own: "o1 = r \<longleftrightarrow> exclusive o1 = exclusive r"
    if "ownership off = Some o1" "ownership req = Some r" for o1 r
    using assms that by (cases o1; cases r) (auto simp: same_kinds_def meets_def)
  have live: "kind_num o1 = kind_num r" if "liveliness off = Some o1" "liveliness req = Some r" for o1 r
    using assms that by (auto simp: same_kinds_def meets_def)
  show "fails (\<lambda>off req. off \<noteq> req) (ownership off) (ownership req) \<longleftrightarrow> \<not> dds_rule Ownership_Id off req"
    using own by (auto simp: fails_meets meets_def)
  show "fails (\<lambda>off req. liveliness_cmp off req = Less) (liveliness off) (liveliness req)
      \<longleftrightarrow> \<not> dds_rule Liveliness_Id off req"
    using live by (auto simp: fails_meets meets_def liveliness_cmp_Less not_less)
qed (auto simp: fails_meets meets_def reliability_cmp_Less not_less)

lemma all_policy_ids: "(\<forall>p. P p) \<longleftrightarrow> P Durability_Id \<and> P Presentation_Id \<and> P Deadline_Id
    \<and> P LatencyBudget_Id \<and> P Ownership_Id \<and> P Liveliness_Id \<and> P TimeBasedFilter_Id \<and> P Reliability_Id
    \<and> P DestinationOrder_Id \<and> P History_Id \<and> P ResourceLimits_Id \<and> P Lifespan_Id \<and> P Property_Id"
    (is "?l \<longleftrightarrow> ?r")
proof
  assume ?r
  show ?l
  proof
    fix p show "P p"
      using \<open>?r\<close> by (cases p) simp_all
  qed
qed simp

lemma fails_refl: "(\<And>a. \<not> bad a a) \<Longrightarrow> \<not> fails bad u u"
  by (auto simp: fails_def split: option.splits)

lemma fails_trans:
  assumes "\<not> fails bad u v" "\<not> fails bad v w" "v \<noteq> None" "\<And>a b c. bad a c \<Longrightarrow> bad a b \<or> bad b c"
  shows "\<not> fails bad u w"
  using assms(1-3) assms(4) by (fastforce simp: fails_def split: option.splits)

lemma compliance_None:
  "compliance_failure_wrt off req = None \<longleftrightarrow>
     \<not> fails (\<lambda>o1 r. durability_rank o1 < durability_rank r) (durability off) (durability req)
   \<and> \<not> fails (\<lambda>o1 r. (coherent_access r \<and> \<not> coherent_access o1) \<or> (ordered_access r \<and> \<not> ordered_access o1)
           \<or> scope_rank (access_scope r) > scope_rank (access_scope o1)) (presentation off) (presentation req)
   \<and> \<not> fails (\<lambda>o1 r. deadline_period o1 > deadline_period r) (deadline off) (deadline req)
   \<and> \<not> fails (\<lambda>o1 r. latency_duration o1 > latency_duration r) (latency_budget off) (latency_budget req)
   \<and> \<not> fails (\<lambda>o1 r. o1 \<noteq> r) (ownership off) (ownership req)
   \<and> \<not> fails (\<lambda>o1 r. lease_duration o1 > lease_duration r) (liveliness off) (liveliness req)
   \<and> \<not> fails (\<lambda>o1 r. \<not> reliable_kind o1 \<and> reliable_kind r) (reliability off) (reliability req)
   \<and> \<not> fails (\<lambda>o1 r. destination_order_rank o1 < destination_order_rank r)
         (destination_order off) (destination_order req)"
  unfolding compliance_failure_wrt_def liveliness_cmp_Less reliability_cmp_Less by auto

text \<open>A policy set that defines every policy the check looks at.\<close>

definition specified :: "qos_policies \<Rightarrow> bool" where
  "specified q \<longleftrightarrow> durability q \<noteq> None \<and> presentation q \<noteq> None \<and> deadline q \<noteq> None
     \<and> latency_budget q \<noteq> None \<and> ownership q \<noteq> None \<and> liveliness q \<noteq> None \<and> reliability q \<noteq> None
     \<and> destination_order q \<noteq> None"

section \<open>Properties\<close>

text \<open>C37: where the offered and the requested liveliness have the same kind and two exclusive owners
  the same strength, the check reports no failure exactly when the rules of the DDS table hold for
  every policy, and the policy it reports otherwise is one whose rule is violated.\<close>

theorem compliance_check_correct:
  assumes "same_kinds off req"
  shows "(compliance_failure_wrt off req = None \<longleftrightarrow> dds_compatible off req)
    \<and> (\<forall>p. compliance_failure_wrt off req = Some p \<longrightarrow> \<not> dds_rule p off req)"
  unfolding dds_compatible_def compliance_failure_wrt_def check_rules [OF assms] all_policy_ids
  by (simp del: dds_rule.simps(1-8))

definition sample_reliable_qos :: qos_policies where
  "sample_reliable_qos = qos_none\<lparr>reliability := Some (Reliable Duration_ZERO)\<rparr>"

definition strict_qos :: qos_policies where
  "strict_qos = qos_none\<lparr>durability := Some TransientLocal, reliability := Some (Reliable Duration_ZERO),
     liveliness := Some (Automatic Duration_ZERO)\<rparr>"

theorem compliance_check_correct_witness:
  "compliance_failure_wrt strict_qos (strict_qos\<lparr>durability := Some Volatile\<rparr>) = None
    \<and> dds_compatible strict_qos (strict_qos\<lparr>durability := Some Volatile\<rparr>)"
proof -
  have "same_kinds strict_qos (strict_qos\<lparr>durability := Some Volatile\<rparr>)"
    by (simp add: same_kinds_def meets_def strict_qos_def qos_none_def)
  moreover have "compliance_failure_wrt strict_qos (strict_qos\<lparr>durability := Some Volatile\<rparr>) = None"
    by (simp add: compliance_failure_wrt_def fails_def strict_qos_def qos_none_def liveliness_cmp_def cmp_def)
  ultimately show ?thesis
    using compliance_check_correct by blast
qed

text \<open>Compliance is reflexive, and transitive through a policy set that defines every policy the
  check looks at.\<close>

theorem compliance_preorder:
  "compliance_failure_wrt q q = None
    \<and> (compliance_failure_wrt a b = None \<and> compliance_failure_wrt b c = None \<and> specified b \<longrightarrow>
       compliance_failure_wrt a c = None)"
proof
  show "compliance_failure_wrt q q = None"
    unfolding compliance_None by (intro conjI fails_refl) simp_all
next
  show "compliance_failure_wrt a b = None \<and> compliance_failure_wrt b c = None \<and> specified b \<longrightarrow>
      compliance_failure_wrt a c = None"
  proof (intro impI, elim conjE)
    assume "compliance_failure_wrt a b = None" "compliance_failure_wrt b c = None" "specified b"
    then show "compliance_failure_wrt a c = None"
      unfolding compliance_None specified_def
      by (elim conjE, intro conjI) (erule (1) fails_trans, assumption, force)+
  qed
qed

definition full_qos :: "duration \<Rightarrow> qos_policies" where
  "full_qos d = strict_qos\<lparr>deadline := Some (Deadline d), latency_budget := Some (LatencyBudget d),
     ownership := Some Shared, destination_order := Some BySourceTimeStamp,
     presentation := Some \<lparr>access_scope = Scope_Topic, coherent_access = False, ordered_access = True\<rparr>\<rparr>"

theorem compliance_preorder_witness:
  "compliance_failure_wrt (full_qos Duration_ZERO) ((full_qos Duration_ZERO)\<lparr>durability := Some Volatile\<rparr>) = None"
proof -
  have "compliance_failure_wrt (full_qos Duration_ZERO) (full_qos Duration_ZERO) = None"
    "compliance_failure_wrt (full_qos Duration_ZERO) ((full_qos Duration_ZERO)\<lparr>durability := Some Volatile\<rparr>) = None"
    "specified (full_qos Duration_ZERO)"
    by (simp_all add: compliance_None fails_def specified_def full_qos_def strict_qos_def qos_none_def)
  then show ?thesis
    using compliance_preorder by blast
qed

text \<open>C38: a policy set with 32-bit integer values, written as a parameter list to bytes (with the
  padding of each parameter) and read back from them, whatever follows, is the same policy set; in
  particular the two parameters of \<open>Ownership\<close> and the serialization forms of \<open>Reliability\<close> and
  \<open>History\<close> are put together again.\<close>

theorem qos_parameter_list_roundtrip:
  assumes "ext_ok x" and "qos_wire q"
  shows "\<exists>pl. read_parameter_list x e
        (write_parameter_list x e \<lparr>parameters = qos_to_parameter_list x e q\<rparr> @ r) = Some (pl, r)
      \<and> qos_from_parameter_list x e (pl_to_map pl) = Some q"
proof -
  let ?pl = "\<lparr>parameters = map pad_parameter (qos_to_parameter_list x e q)\<rparr>"
  have "read_parameter_list x e
        (write_parameter_list x e \<lparr>parameters = qos_to_parameter_list x e q\<rparr> @ r) = Some (?pl, r)"
    using qos_params_ok [OF assms] assms(1) by (simp add: read_write_parameter_list)
  then show ?thesis
    using qos_from_padded [OF assms] by blast
qed

theorem qos_parameter_list_roundtrip_witness:
  "\<exists>pl. read_parameter_list sample_ext BigEndian
        (write_parameter_list sample_ext BigEndian
          \<lparr>parameters = qos_to_parameter_list sample_ext BigEndian
            (strict_qos\<lparr>ownership := Some (Exclusive (- 3)), history := Some (KeepLast 5)\<rparr>)\<rparr> @ [7]) = Some (pl, [7])
      \<and> qos_from_parameter_list sample_ext BigEndian (pl_to_map pl) =
          Some (strict_qos\<lparr>ownership := Some (Exclusive (- 3)), history := Some (KeepLast 5)\<rparr>)"
  by (rule qos_parameter_list_roundtrip [OF ext_ok_sample])
    (simp add: qos_wire_def strict_qos_def qos_none_def in_i32_def)

text \<open>an offered \<open>Automatic\<close> liveliness is accepted for a requested \<open>ManualByTopic\<close> one with the
  same lease, although the rule orders the kinds: the comparison of the kinds compares the
  requested kind with itself.\<close>

theorem liveliness_kind_ignored:
  "compliance_failure_wrt (qos_none\<lparr>liveliness := Some (Automatic d)\<rparr>)
      (qos_none\<lparr>liveliness := Some (ManualByTopic d)\<rparr>) = None
    \<and> \<not> dds_compatible (qos_none\<lparr>liveliness := Some (Automatic d)\<rparr>)
          (qos_none\<lparr>liveliness := Some (ManualByTopic d)\<rparr>)"
proof -
  have "\<not> dds_rule Liveliness_Id (qos_none\<lparr>liveliness := Some (Automatic d)\<rparr>)
          (qos_none\<lparr>liveliness := Some (ManualByTopic d)\<rparr>)"
    by (simp add: meets_def)
  then have "\<not> dds_compatible (qos_none\<lparr>liveliness := Some (Automatic d)\<rparr>)
      (qos_none\<lparr>liveliness := Some (ManualByTopic d)\<rparr>)"
    unfolding dds_compatible_def by blast
  then show ?thesis
    by (simp add: compliance_None fails_def qos_none_def)
qed

end
