(* ===== verification/Submessages.thy ===== *)
theory Submessages
  imports Payload
begin

text \<open>
  RTPS submessages and messages (src/src/messages, src/src/rtps/submessage.rs,
  src/src/rtps/message.rs): their structures, the hand-written and derived readers and writers, the
  framing of submessages in a message, and the message builder of the writer. The model is of the
  default build, without the secure submessages.

  A parse that returns \<open>Err\<close> is \<open>Err\<close>, one that panics is \<open>Panic\<close>; the readers of single
  submessage bodies cannot panic and return \<^const>\<open>None\<close> for an \<open>Err\<close>.
\<close>

datatype 'a result = Ok 'a | Err | Panic

section \<open>Flags and kinds\<close>

definition endianness_flag :: "u8 \<Rightarrow> endianness" where
  "endianness_flag flags = (if flags AND 1 = 0 then BigEndian else LittleEndian)"

definition from_endianness :: "endianness \<Rightarrow> u8" where
  "from_endianness e = (if e = LittleEndian then 1 else 0)"

abbreviation Flag_Endianness :: u8 where "Flag_Endianness \<equiv> 1"
abbreviation ACKNACK_Final :: u8 where "ACKNACK_Final \<equiv> 2"
abbreviation DATA_InlineQos :: u8 where "DATA_InlineQos \<equiv> 2"
abbreviation DATA_Data :: u8 where "DATA_Data \<equiv> 4"
abbreviation DATA_Key :: u8 where "DATA_Key \<equiv> 8"
abbreviation DATA_mask :: u8 where "DATA_mask \<equiv> 31"
abbreviation DATAFRAG_InlineQos :: u8 where "DATAFRAG_InlineQos \<equiv> 2"
abbreviation DATAFRAG_Key :: u8 where "DATAFRAG_Key \<equiv> 4"
abbreviation DATAFRAG_mask :: u8 where "DATAFRAG_mask \<equiv> 15"
abbreviation HEARTBEAT_Final :: u8 where "HEARTBEAT_Final \<equiv> 2"
abbreviation HEARTBEAT_Liveliness :: u8 where "HEARTBEAT_Liveliness \<equiv> 4"
abbreviation INFOTS_Invalidate :: u8 where "INFOTS_Invalidate \<equiv> 2"

abbreviation KIND_PAD :: u8 where "KIND_PAD \<equiv> 0x01"
abbreviation KIND_ACKNACK :: u8 where "KIND_ACKNACK \<equiv> 0x06"
abbreviation KIND_HEARTBEAT :: u8 where "KIND_HEARTBEAT \<equiv> 0x07"
abbreviation KIND_GAP :: u8 where "KIND_GAP \<equiv> 0x08"
abbreviation KIND_INFO_TS :: u8 where "KIND_INFO_TS \<equiv> 0x09"
abbreviation KIND_INFO_SRC :: u8 where "KIND_INFO_SRC \<equiv> 0x0c"
abbreviation KIND_INFO_DST :: u8 where "KIND_INFO_DST \<equiv> 0x0e"
abbreviation KIND_INFO_REPLY :: u8 where "KIND_INFO_REPLY \<equiv> 0x0f"
abbreviation KIND_NACK_FRAG :: u8 where "KIND_NACK_FRAG \<equiv> 0x12"
abbreviation KIND_HEARTBEAT_FRAG :: u8 where "KIND_HEARTBEAT_FRAG \<equiv> 0x13"
abbreviation KIND_DATA :: u8 where "KIND_DATA \<equiv> 0x15"
abbreviation KIND_DATA_FRAG :: u8 where "KIND_DATA_FRAG \<equiv> 0x16"

section \<open>Submessage structures\<close>

record data_sm =
  d_reader_id :: entity_id
  d_writer_id :: entity_id
  d_writer_sn :: seqnum
  d_inline_qos :: "parameter_list option"
  d_serialized_payload :: "bytes option"

record data_frag =
  df_reader_id :: entity_id
  df_writer_id :: entity_id
  df_writer_sn :: seqnum
  fragment_starting_num :: fragnum
  fragments_in_submessage :: u16
  data_size :: u32
  fragment_size :: u16
  df_inline_qos :: "parameter_list option"
  df_serialized_payload :: bytes

record heartbeat =
  hb_reader_id :: entity_id
  hb_writer_id :: entity_id
  first_sn :: seqnum
  last_sn :: seqnum
  hb_count :: int

record gap =
  gap_reader_id :: entity_id
  gap_writer_id :: entity_id
  gap_start :: seqnum
  gap_list :: number_set

record ack_nack =
  an_reader_id :: entity_id
  an_writer_id :: entity_id
  reader_sn_state :: number_set
  an_count :: int

record nack_frag =
  nf_reader_id :: entity_id
  nf_writer_id :: entity_id
  nf_writer_sn :: seqnum
  fragment_number_state :: number_set
  nf_count :: int

record heartbeat_frag =
  hbf_reader_id :: entity_id
  hbf_writer_id :: entity_id
  hbf_writer_sn :: seqnum
  last_fragment_num :: fragnum
  hbf_count :: int

record protocol_version =
  major :: u8
  minor :: u8

record info_source =
  is_unused :: u32
  is_protocol_version :: protocol_version
  is_vendor_id :: "u8 \<times> u8"
  is_guid_prefix :: guid_prefix

record info_reply =
  ir_unicast_locator_list :: "locator list"
  ir_multicast_locator_list :: "locator list option"

datatype writer_submessage =
    WS_Data data_sm u8
  | WS_DataFrag data_frag u8
  | WS_Gap gap u8
  | WS_Heartbeat heartbeat u8
  | WS_HeartbeatFrag heartbeat_frag u8

datatype reader_submessage =
    RS_AckNack ack_nack u8
  | RS_NackFrag nack_frag u8

datatype interpreter_submessage =
    IS_InfoSource info_source u8
  | IS_InfoDestination guid_prefix u8
  | IS_InfoReply info_reply u8
  | IS_InfoTimestamp "timestamp option" u8

datatype submessage_body =
    SB_Writer writer_submessage
  | SB_Reader reader_submessage
  | SB_Interpreter interpreter_submessage

record submessage_header =
  sh_kind :: u8
  sh_flags :: u8
  content_length :: u16

record submessage =
  sm_header :: submessage_header
  sm_body :: submessage_body
  original_bytes :: "bytes option"

section \<open>Writers\<close>

definition data_len_serialized :: "data_sm \<Rightarrow> nat" where
  "data_len_serialized d = 2 + 2 + 4 + 4 + 8
     + (case d_inline_qos d of None \<Rightarrow> 0 | Some q \<Rightarrow> pl_len_serialized q)
     + (case d_serialized_payload d of None \<Rightarrow> 0 | Some p \<Rightarrow> length p)"

definition write_data :: "ext \<Rightarrow> endianness \<Rightarrow> data_sm \<Rightarrow> bytes" where
  "write_data x e d =
     write_u16 x e 0 @ write_u16 x e 16
     @ write_entity_id x e (d_reader_id d) @ write_entity_id x e (d_writer_id d)
     @ write_seqnum x e (d_writer_sn d)
     @ (case d_inline_qos d of None \<Rightarrow> [] | Some q \<Rightarrow> write_parameter_list x e q)
     @ (case d_serialized_payload d of None \<Rightarrow> [] | Some p \<Rightarrow> p)"

definition df_len_serialized :: "data_frag \<Rightarrow> nat" where
  "df_len_serialized d = 2 + 2 + 4 + 4 + 8 + 4 + 2 + 2 + 4
     + (case df_inline_qos d of None \<Rightarrow> 0 | Some q \<Rightarrow> pl_len_serialized q)
     + length (df_serialized_payload d)"

text \<open>The inline QoS is written as an \<open>Option\<close> value, that is, with its tag.\<close>

definition write_data_frag :: "ext \<Rightarrow> endianness \<Rightarrow> data_frag \<Rightarrow> bytes" where
  "write_data_frag x e d =
     write_u16 x e 0 @ write_u16 x e 28
     @ write_entity_id x e (df_reader_id d) @ write_entity_id x e (df_writer_id d)
     @ write_seqnum x e (df_writer_sn d) @ write_fragnum x e (fragment_starting_num d)
     @ write_u16 x e (fragments_in_submessage d) @ write_u16 x e (fragment_size d)
     @ write_u32 x e (data_size d)
     @ (case df_inline_qos d of
          Some q \<Rightarrow> if parameters q \<noteq> [] then write_option_tag x True @ write_parameter_list x e q else []
        | None \<Rightarrow> [])
     @ df_serialized_payload d"

definition write_heartbeat :: "ext \<Rightarrow> endianness \<Rightarrow> heartbeat \<Rightarrow> bytes" where
  "write_heartbeat x e h =
     write_entity_id x e (hb_reader_id h) @ write_entity_id x e (hb_writer_id h)
     @ write_seqnum x e (first_sn h) @ write_seqnum x e (last_sn h) @ write_i32 x e (hb_count h)"

definition write_gap :: "ext \<Rightarrow> endianness \<Rightarrow> gap \<Rightarrow> bytes" where
  "write_gap x e g =
     write_entity_id x e (gap_reader_id g) @ write_entity_id x e (gap_writer_id g)
     @ write_seqnum x e (gap_start g) @ write_number_set SeqNum x e (gap_list g)"

definition write_ack_nack :: "ext \<Rightarrow> endianness \<Rightarrow> ack_nack \<Rightarrow> bytes" where
  "write_ack_nack x e a =
     write_entity_id x e (an_reader_id a) @ write_entity_id x e (an_writer_id a)
     @ write_number_set SeqNum x e (reader_sn_state a) @ write_i32 x e (an_count a)"

definition an_len_serialized :: "ack_nack \<Rightarrow> nat" where
  "an_len_serialized a = 4 * 2 + ns_len_serialized SeqNum (reader_sn_state a) + 4"

definition write_nack_frag :: "ext \<Rightarrow> endianness \<Rightarrow> nack_frag \<Rightarrow> bytes" where
  "write_nack_frag x e n =
     write_entity_id x e (nf_reader_id n) @ write_entity_id x e (nf_writer_id n)
     @ write_seqnum x e (nf_writer_sn n) @ write_number_set FragNum x e (fragment_number_state n)
     @ write_i32 x e (nf_count n)"

definition nf_len_serialized :: "nack_frag \<Rightarrow> nat" where
  "nf_len_serialized n = 4 * 2 + 8 + ns_len_serialized FragNum (fragment_number_state n) + 4"

definition write_heartbeat_frag :: "ext \<Rightarrow> endianness \<Rightarrow> heartbeat_frag \<Rightarrow> bytes" where
  "write_heartbeat_frag x e h =
     write_entity_id x e (hbf_reader_id h) @ write_entity_id x e (hbf_writer_id h)
     @ write_seqnum x e (hbf_writer_sn h) @ write_fragnum x e (last_fragment_num h)
     @ write_i32 x e (hbf_count h)"

definition write_protocol_version :: "ext \<Rightarrow> protocol_version \<Rightarrow> bytes" where
  "write_protocol_version x v = write_u8 x (major v) @ write_u8 x (minor v)"

definition write_vendor_id :: "ext \<Rightarrow> u8 \<times> u8 \<Rightarrow> bytes" where
  "write_vendor_id x v = write_u8 x (fst v) @ write_u8 x (snd v)"

definition write_info_source :: "ext \<Rightarrow> endianness \<Rightarrow> info_source \<Rightarrow> bytes" where
  "write_info_source x e s =
     write_u32 x e (is_unused s) @ write_protocol_version x (is_protocol_version s)
     @ write_vendor_id x (is_vendor_id s) @ write_guid_prefix x e (is_guid_prefix s)"

definition write_locator_list :: "ext \<Rightarrow> endianness \<Rightarrow> locator list \<Rightarrow> bytes" where
  "write_locator_list x e ls = write_u32 x e (of_nat (length ls)) @ concat (map (write_locator x e) ls)"

definition write_info_reply :: "ext \<Rightarrow> endianness \<Rightarrow> info_reply \<Rightarrow> bytes" where
  "write_info_reply x e i =
     write_locator_list x e (ir_unicast_locator_list i)
     @ (case ir_multicast_locator_list i of
          None \<Rightarrow> write_option_tag x False
        | Some ls \<Rightarrow> write_option_tag x True @ write_locator_list x e ls)"

fun write_writer_submessage :: "ext \<Rightarrow> endianness \<Rightarrow> writer_submessage \<Rightarrow> bytes" where
  "write_writer_submessage x e (WS_Data s _) = write_data x e s"
| "write_writer_submessage x e (WS_DataFrag s _) = write_data_frag x e s"
| "write_writer_submessage x e (WS_Gap s _) = write_gap x e s"
| "write_writer_submessage x e (WS_Heartbeat s _) = write_heartbeat x e s"
| "write_writer_submessage x e (WS_HeartbeatFrag s _) = write_heartbeat_frag x e s"

fun write_reader_submessage :: "ext \<Rightarrow> endianness \<Rightarrow> reader_submessage \<Rightarrow> bytes" where
  "write_reader_submessage x e (RS_AckNack s _) = write_ack_nack x e s"
| "write_reader_submessage x e (RS_NackFrag s _) = write_nack_frag x e s"

fun write_interpreter_submessage :: "ext \<Rightarrow> endianness \<Rightarrow> interpreter_submessage \<Rightarrow> bytes" where
  "write_interpreter_submessage x e (IS_InfoSource s _) = write_info_source x e s"
| "write_interpreter_submessage x e (IS_InfoDestination p _) = write_guid_prefix x e p"
| "write_interpreter_submessage x e (IS_InfoReply s _) = write_info_reply x e s"
| "write_interpreter_submessage x e (IS_InfoTimestamp None _) = []"
| "write_interpreter_submessage x e (IS_InfoTimestamp (Some t) _) = write_timestamp x e t"

fun write_submessage_body :: "ext \<Rightarrow> endianness \<Rightarrow> submessage_body \<Rightarrow> bytes" where
  "write_submessage_body x e (SB_Writer m) = write_writer_submessage x e m"
| "write_submessage_body x e (SB_Reader m) = write_reader_submessage x e m"
| "write_submessage_body x e (SB_Interpreter m) = write_interpreter_submessage x e m"

definition write_submessage_header :: "ext \<Rightarrow> submessage_header \<Rightarrow> bytes" where
  "write_submessage_header x h =
     write_u8 x (sh_kind h) @ write_u8 x (sh_flags h)
     @ (case endianness_flag (sh_flags h) of
          LittleEndian \<Rightarrow> write_u8 x (ucast (content_length h)) @ write_u8 x (ucast (drop_bit 8 (content_length h)))
        | BigEndian \<Rightarrow> write_u8 x (ucast (drop_bit 8 (content_length h))) @ write_u8 x (ucast (content_length h)))"

definition write_submessage :: "ext \<Rightarrow> submessage \<Rightarrow> bytes" where
  "write_submessage x s =
     write_submessage_header x (sm_header s)
     @ write_submessage_body x (endianness_flag (sh_flags (sm_header s))) (sm_body s)"

section \<open>Readers\<close>

text \<open>
  The hand-written readers skip \<open>octets_to_inline_qos\<close> octets, which must be at least the size of
  the known header fields and must not lead past the end of the buffer.
\<close>

definition skip_to_inline_qos :: "nat \<Rightarrow> u16 \<Rightarrow> bytes \<Rightarrow> bytes option" where
  "skip_to_inline_qos header_size octets bs =
     (if unat octets < header_size then None
      else if unat octets > header_size then
        (let extra = unat octets - header_size in if extra > length bs then None else Some (drop extra bs))
      else Some bs)"

definition read_inline_qos :: "ext \<Rightarrow> endianness \<Rightarrow> bool \<Rightarrow> parameter_list option reader" where
  "read_inline_qos x e expect_qos bs =
     (if expect_qos then do { (pl, bs) \<leftarrow> read_parameter_list x e bs; Some (Some pl, bs) } else Some (None, bs))"

definition deserialize_data :: "ext \<Rightarrow> bytes \<Rightarrow> u8 \<Rightarrow> data_sm option" where
  "deserialize_data x buffer flags =
     (let e = endianness_flag flags;
          expect_qos = flags_contains x flags DATA_InlineQos;
          expect_data = flags_contains x flags DATA_Data \<or> flags_contains x flags DATA_Key
      in do { (_, bs) \<leftarrow> read_u16 x e buffer;
              (octets, bs) \<leftarrow> read_u16 x e bs;
              (reader_id, bs) \<leftarrow> read_entity_id x e bs;
              (writer_id, bs) \<leftarrow> read_entity_id x e bs;
              (sn, bs) \<leftarrow> read_seqnum x e bs;
              bs \<leftarrow> skip_to_inline_qos 16 octets bs;
              (qos, bs) \<leftarrow> read_inline_qos x e expect_qos bs;
              Some \<lparr>d_reader_id = reader_id, d_writer_id = writer_id, d_writer_sn = sn, d_inline_qos = qos,
                    d_serialized_payload = (if expect_data then Some bs else None)\<rparr> })"

definition total_number_of_fragments :: "data_frag \<Rightarrow> fragnum" where
  "total_number_of_fragments d =
     (let frag_size = uint (fragment_size d); size = uint (data_size d)
      in if frag_size < 1 then 0
         else wrap_u32 (size div frag_size + (if size mod frag_size > 0 then 1 else 0)))"

definition deserialize_data_frag :: "ext \<Rightarrow> bytes \<Rightarrow> u8 \<Rightarrow> data_frag option" where
  "deserialize_data_frag x buffer flags =
     (let e = endianness_flag flags; expect_qos = flags_contains x flags DATAFRAG_InlineQos
      in do { (_, bs) \<leftarrow> read_u16 x e buffer;
              (octets, bs) \<leftarrow> read_u16 x e bs;
              (reader_id, bs) \<leftarrow> read_entity_id x e bs;
              (writer_id, bs) \<leftarrow> read_entity_id x e bs;
              (sn, bs) \<leftarrow> read_seqnum x e bs;
              (start, bs) \<leftarrow> read_fragnum x e bs;
              (frags, bs) \<leftarrow> read_u16 x e bs;
              (fsize, bs) \<leftarrow> read_u16 x e bs;
              (dsize, bs) \<leftarrow> read_u32 x e bs;
              bs \<leftarrow> skip_to_inline_qos 28 octets bs;
              (qos, bs) \<leftarrow> read_inline_qos x e expect_qos bs;
              if sn < sn_new 1 then None
              else if fsize < 1 \<or> uint fsize > uint dsize then None
              else
                let d = \<lparr>df_reader_id = reader_id, df_writer_id = writer_id, df_writer_sn = sn,
                         fragment_starting_num = start, fragments_in_submessage = frags,
                         data_size = dsize, fragment_size = fsize, df_inline_qos = qos,
                         df_serialized_payload = bs\<rparr>;
                    expected_total = total_number_of_fragments d
                in if start < 1 \<or> start > expected_total then None else Some d })"

definition read_heartbeat :: "ext \<Rightarrow> endianness \<Rightarrow> heartbeat reader" where
  "read_heartbeat x e bs =
     do { (r, bs) \<leftarrow> read_entity_id x e bs; (w, bs) \<leftarrow> read_entity_id x e bs;
          (f, bs) \<leftarrow> read_seqnum x e bs; (l, bs) \<leftarrow> read_seqnum x e bs; (c, bs) \<leftarrow> read_i32 x e bs;
          Some (\<lparr>hb_reader_id = r, hb_writer_id = w, first_sn = f, last_sn = l, hb_count = c\<rparr>, bs) }"

definition read_gap :: "ext \<Rightarrow> endianness \<Rightarrow> gap reader" where
  "read_gap x e bs =
     do { (r, bs) \<leftarrow> read_entity_id x e bs; (w, bs) \<leftarrow> read_entity_id x e bs;
          (s, bs) \<leftarrow> read_seqnum x e bs; (l, bs) \<leftarrow> read_number_set SeqNum x e bs;
          Some (\<lparr>gap_reader_id = r, gap_writer_id = w, gap_start = s, gap_list = l\<rparr>, bs) }"

definition read_ack_nack :: "ext \<Rightarrow> endianness \<Rightarrow> ack_nack reader" where
  "read_ack_nack x e bs =
     do { (r, bs) \<leftarrow> read_entity_id x e bs; (w, bs) \<leftarrow> read_entity_id x e bs;
          (s, bs) \<leftarrow> read_number_set SeqNum x e bs; (c, bs) \<leftarrow> read_i32 x e bs;
          Some (\<lparr>an_reader_id = r, an_writer_id = w, reader_sn_state = s, an_count = c\<rparr>, bs) }"

definition read_nack_frag :: "ext \<Rightarrow> endianness \<Rightarrow> nack_frag reader" where
  "read_nack_frag x e bs =
     do { (r, bs) \<leftarrow> read_entity_id x e bs; (w, bs) \<leftarrow> read_entity_id x e bs;
          (sn, bs) \<leftarrow> read_seqnum x e bs; (s, bs) \<leftarrow> read_number_set FragNum x e bs;
          (c, bs) \<leftarrow> read_i32 x e bs;
          Some (\<lparr>nf_reader_id = r, nf_writer_id = w, nf_writer_sn = sn, fragment_number_state = s,
                 nf_count = c\<rparr>, bs) }"

definition read_heartbeat_frag :: "ext \<Rightarrow> endianness \<Rightarrow> heartbeat_frag reader" where
  "read_heartbeat_frag x e bs =
     do { (r, bs) \<leftarrow> read_entity_id x e bs; (w, bs) \<leftarrow> read_entity_id x e bs;
          (sn, bs) \<leftarrow> read_seqnum x e bs; (f, bs) \<leftarrow> read_fragnum x e bs; (c, bs) \<leftarrow> read_i32 x e bs;
          Some (\<lparr>hbf_reader_id = r, hbf_writer_id = w, hbf_writer_sn = sn, last_fragment_num = f,
                 hbf_count = c\<rparr>, bs) }"

definition read_protocol_version :: "ext \<Rightarrow> protocol_version reader" where
  "read_protocol_version x bs =
     do { (ma, bs) \<leftarrow> read_u8 x bs; (mi, bs) \<leftarrow> read_u8 x bs; Some (\<lparr>major = ma, minor = mi\<rparr>, bs) }"

definition read_vendor_id :: "ext \<Rightarrow> (u8 \<times> u8) reader" where
  "read_vendor_id x bs = do { (a, bs) \<leftarrow> read_u8 x bs; (b, bs) \<leftarrow> read_u8 x bs; Some ((a, b), bs) }"

definition read_info_source :: "ext \<Rightarrow> endianness \<Rightarrow> info_source reader" where
  "read_info_source x e bs =
     do { (u, bs) \<leftarrow> read_u32 x e bs; (v, bs) \<leftarrow> read_protocol_version x bs;
          (vi, bs) \<leftarrow> read_vendor_id x bs; (p, bs) \<leftarrow> read_guid_prefix x e bs;
          Some (\<lparr>is_unused = u, is_protocol_version = v, is_vendor_id = vi, is_guid_prefix = p\<rparr>, bs) }"

definition read_locator_list :: "ext \<Rightarrow> endianness \<Rightarrow> locator list reader" where
  "read_locator_list x e bs =
     do { (n, bs) \<leftarrow> read_u32 x e bs; read_many (read_locator x e) (unat n) bs }"

definition read_info_reply :: "ext \<Rightarrow> endianness \<Rightarrow> info_reply reader" where
  "read_info_reply x e bs =
     do { (u, bs) \<leftarrow> read_locator_list x e bs; (t, bs) \<leftarrow> read_option_tag x bs;
          (m, bs) \<leftarrow> (if t then do { (m, bs) \<leftarrow> read_locator_list x e bs; Some (Some m, bs) }
                     else Some (None, bs));
          Some (\<lparr>ir_unicast_locator_list = u, ir_multicast_locator_list = m\<rparr>, bs) }"

definition from_le_bytes :: "u8 \<Rightarrow> u8 \<Rightarrow> u16" where
  "from_le_bytes a b = ucast a OR push_bit 8 (ucast b)"

definition from_be_bytes :: "u8 \<Rightarrow> u8 \<Rightarrow> u16" where
  "from_be_bytes a b = from_le_bytes b a"

definition read_submessage_header :: "ext \<Rightarrow> submessage_header reader" where
  "read_submessage_header x bs =
     do { (kind, bs) \<leftarrow> read_u8 x bs; (flags, bs) \<leftarrow> read_u8 x bs;
          (a, bs) \<leftarrow> read_u8 x bs; (b, bs) \<leftarrow> read_u8 x bs;
          Some (\<lparr>sh_kind = kind, sh_flags = flags,
                 content_length = (case endianness_flag flags of
                     LittleEndian \<Rightarrow> from_le_bytes a b | BigEndian \<Rightarrow> from_be_bytes a b)\<rparr>, bs) }"

text \<open>
  The \<open>match\<close> on the kind: \<^const>\<open>None\<close> is an \<open>Err\<close>, \<open>Some None\<close> a submessage that is ignored
  (padding, vendor-specific and unknown kinds).
\<close>

definition read_submessage_body :: "ext \<Rightarrow> submessage_header \<Rightarrow> bytes \<Rightarrow> submessage_body option option" where
  "read_submessage_body x h content =
     (let kind = sh_kind h; e = endianness_flag (sh_flags h); f = (\<lambda>m. flags_truncate x m (sh_flags h))
      in if kind = KIND_DATA then
           map_option (\<lambda>d. Some (SB_Writer (WS_Data d (f DATA_mask)))) (deserialize_data x content (f DATA_mask))
         else if kind = KIND_DATA_FRAG then
           map_option (\<lambda>d. Some (SB_Writer (WS_DataFrag d (f DATAFRAG_mask))))
             (deserialize_data_frag x content (f DATAFRAG_mask))
         else if kind = KIND_GAP then
           map_option (\<lambda>g. Some (SB_Writer (WS_Gap g (f 1)))) (from_buffer (read_gap x e) content)
         else if kind = KIND_ACKNACK then
           map_option (\<lambda>a. Some (SB_Reader (RS_AckNack a (f 3)))) (from_buffer (read_ack_nack x e) content)
         else if kind = KIND_NACK_FRAG then
           map_option (\<lambda>a. Some (SB_Reader (RS_NackFrag a (f 1)))) (from_buffer (read_nack_frag x e) content)
         else if kind = KIND_HEARTBEAT then
           map_option (\<lambda>a. Some (SB_Writer (WS_Heartbeat a (f 7)))) (from_buffer (read_heartbeat x e) content)
         else if kind = KIND_HEARTBEAT_FRAG then
           map_option (\<lambda>a. Some (SB_Writer (WS_HeartbeatFrag a (f 1)))) (from_buffer (read_heartbeat_frag x e) content)
         else if kind = KIND_INFO_DST then
           map_option (\<lambda>p. Some (SB_Interpreter (IS_InfoDestination p (f 1)))) (from_buffer (read_guid_prefix x e) content)
         else if kind = KIND_INFO_SRC then
           map_option (\<lambda>s. Some (SB_Interpreter (IS_InfoSource s (f 1)))) (from_buffer (read_info_source x e) content)
         else if kind = KIND_INFO_TS then
           map_option (\<lambda>t. Some (SB_Interpreter (IS_InfoTimestamp t (f 3))))
             (if flags_contains x (f 3) INFOTS_Invalidate then Some None
              else map_option Some (from_buffer (read_timestamp x e) content))
         else if kind = KIND_INFO_REPLY then
           map_option (\<lambda>r. Some (SB_Interpreter (IS_InfoReply r (f 3)))) (from_buffer (read_info_reply x e) content)
         else Some None)"

section \<open>Reading back submessages\<close>

definition flag_set :: "u8 \<Rightarrow> u8 \<Rightarrow> bool" where
  "flag_set flags f \<longleftrightarrow> flags AND f = f"

definition data_ok :: "data_sm \<Rightarrow> u8 \<Rightarrow> bool" where
  "data_ok d flags \<longleftrightarrow> in_i64 (d_writer_sn d)
     \<and> (case d_inline_qos d of None \<Rightarrow> \<not> flag_set flags DATA_InlineQos
        | Some q \<Rightarrow> flag_set flags DATA_InlineQos \<and> pl_wire q)
     \<and> (d_serialized_payload d \<noteq> None \<longleftrightarrow> flag_set flags DATA_Data \<or> flag_set flags DATA_Key)"

lemma skip_exact: "skip_to_inline_qos n octets bs = Some bs" if "unat octets = n"
  using that by (simp add: skip_to_inline_qos_def)

lemma deserialize_write_data:
  assumes "ext_ok x" "data_ok d flags"
  shows "deserialize_data x (write_data x (endianness_flag flags) d) flags = Some d"
proof -
  define e where "e = endianness_flag flags"
  have qos: "read_inline_qos x e (flag_set flags DATA_InlineQos)
      ((case d_inline_qos d of None \<Rightarrow> [] | Some q \<Rightarrow> write_parameter_list x e q) @ r)
      = Some (d_inline_qos d, r)" for r
    using assms wire_pl.reads_written [OF assms(1)]
    by (auto simp: data_ok_def read_inline_qos_def split: option.splits)
  have payload: "(if flag_set flags DATA_Data \<or> flag_set flags DATA_Key
        then Some (case d_serialized_payload d of None \<Rightarrow> [] | Some p \<Rightarrow> p) else None)
      = d_serialized_payload d"
    using assms(2) by (auto simp: data_ok_def split: option.splits)
  show ?thesis
    using assms qos payload
    by (simp add: deserialize_data_def write_data_def data_ok_def flag_set_def wire ext_flags
        skip_exact flip: e_def)
qed

definition data_frag_ok :: "data_frag \<Rightarrow> u8 \<Rightarrow> bool" where
  "data_frag_ok d flags \<longleftrightarrow> in_i64 (df_writer_sn d) \<and> 1 \<le> df_writer_sn d
     \<and> df_inline_qos d = None \<and> \<not> flag_set flags DATAFRAG_InlineQos
     \<and> 1 \<le> fragment_size d \<and> uint (fragment_size d) \<le> uint (data_size d)
     \<and> 1 \<le> fragment_starting_num d \<and> fragment_starting_num d \<le> total_number_of_fragments d"

lemma total_in_u32: "in_u32 (total_number_of_fragments d)"
  by (simp add: total_number_of_fragments_def Let_def in_u32_def wrap_u32_def)

lemma deserialize_write_data_frag:
  assumes "ext_ok x" "data_frag_ok d flags"
  shows "deserialize_data_frag x (write_data_frag x (endianness_flag flags) d) flags = Some d"
proof -
  define e where "e = endianness_flag flags"
  have start: "in_u32 (fragment_starting_num d)"
    using assms(2) total_in_u32 [of d] by (simp add: data_frag_ok_def in_u32_def)
  have qos: "read_inline_qos x e (flags_contains x flags DATAFRAG_InlineQos) r = Some (None, r)" for r
    using assms by (simp add: data_frag_ok_def read_inline_qos_def ext_flags flag_set_def)
  have d: "\<lparr>df_reader_id = df_reader_id d, df_writer_id = df_writer_id d, df_writer_sn = df_writer_sn d,
      fragment_starting_num = fragment_starting_num d, fragments_in_submessage = fragments_in_submessage d,
      data_size = data_size d, fragment_size = fragment_size d, df_inline_qos = None,
      df_serialized_payload = df_serialized_payload d\<rparr> = d"
    using assms(2) by (simp add: data_frag_ok_def)
  have sizes: "\<not> fragment_size d < 1" "\<not> uint (data_size d) < uint (fragment_size d)"
    "\<not> df_writer_sn d < sn_new 1" "\<not> fragment_starting_num d < 1"
    "\<not> total_number_of_fragments d < fragment_starting_num d" "in_i64 (df_writer_sn d)"
    using assms(2) by (auto simp: data_frag_ok_def not_less sn_new_def)
  have "write_data_frag x e d = write_u16 x e 0 @ write_u16 x e 28
      @ write_entity_id x e (df_reader_id d) @ write_entity_id x e (df_writer_id d)
      @ write_seqnum x e (df_writer_sn d) @ write_fragnum x e (fragment_starting_num d)
      @ write_u16 x e (fragments_in_submessage d) @ write_u16 x e (fragment_size d)
      @ write_u32 x e (data_size d) @ df_serialized_payload d"
    using assms(2) by (simp add: write_data_frag_def data_frag_ok_def)
  with start qos sizes show ?thesis
    by (simp add: deserialize_data_frag_def wire assms(1) skip_exact d Let_def flip: e_def)
qed

text \<open>The other submessages, with the values that fit the wire.\<close>

definition heartbeat_ok :: "heartbeat \<Rightarrow> bool" where
  "heartbeat_ok h \<longleftrightarrow> in_i64 (first_sn h) \<and> in_i64 (last_sn h) \<and> in_i32 (hb_count h)"

definition gap_ok :: "gap \<Rightarrow> bool" where
  "gap_ok g \<longleftrightarrow> in_i64 (gap_start g) \<and> ns_wire SeqNum (gap_list g)"

definition ack_nack_ok :: "ack_nack \<Rightarrow> bool" where
  "ack_nack_ok a \<longleftrightarrow> ns_wire SeqNum (reader_sn_state a) \<and> in_i32 (an_count a)"

definition nack_frag_ok :: "nack_frag \<Rightarrow> bool" where
  "nack_frag_ok n \<longleftrightarrow> in_i64 (nf_writer_sn n) \<and> ns_wire FragNum (fragment_number_state n) \<and> in_i32 (nf_count n)"

definition heartbeat_frag_ok :: "heartbeat_frag \<Rightarrow> bool" where
  "heartbeat_frag_ok h \<longleftrightarrow> in_i64 (hbf_writer_sn h) \<and> in_u32 (last_fragment_num h) \<and> in_i32 (hbf_count h)"

definition info_reply_ok :: "info_reply \<Rightarrow> bool" where
  "info_reply_ok i \<longleftrightarrow>
     (\<forall>ls \<in> {ir_unicast_locator_list i} \<union> set_option (ir_multicast_locator_list i).
        length ls < 2 ^ 32 \<and> (\<forall>l \<in> set ls. locator_wire l))"

lemma read_write_locator_list [wire]:
  assumes "ext_ok x" "length ls < 2 ^ 32" "\<forall>l \<in> set ls. locator_wire l"
  shows "read_locator_list x e (write_locator_list x e ls @ r) = Some (ls, r)"
proof -
  have "unat (of_nat (length ls) :: u32) = length ls"
    using assms(2) by (simp add: unsigned_of_nat take_bit_nat_eq_self)
  then show ?thesis
    using wire_loc.reads_written_many [OF assms(1,3)] assms(1)
    by (simp add: read_locator_list_def write_locator_list_def wire)
qed

interpretation wire_hb: wire_format write_heartbeat read_heartbeat heartbeat_ok
  by unfold_locales (simp add: read_heartbeat_def write_heartbeat_def heartbeat_ok_def wire)

interpretation wire_gap: wire_format write_gap read_gap gap_ok
  by unfold_locales (simp add: read_gap_def write_gap_def gap_ok_def wire)

interpretation wire_an: wire_format write_ack_nack read_ack_nack ack_nack_ok
  by unfold_locales (simp add: read_ack_nack_def write_ack_nack_def ack_nack_ok_def wire)

interpretation wire_nf: wire_format write_nack_frag read_nack_frag nack_frag_ok
  by unfold_locales (simp add: read_nack_frag_def write_nack_frag_def nack_frag_ok_def wire)

interpretation wire_hbf: wire_format write_heartbeat_frag read_heartbeat_frag heartbeat_frag_ok
  by unfold_locales (simp add: read_heartbeat_frag_def write_heartbeat_frag_def heartbeat_frag_ok_def wire)

interpretation wire_is: wire_format write_info_source read_info_source "\<lambda>s. wf_prefix (is_guid_prefix s)"
  by unfold_locales
    (simp add: read_info_source_def write_info_source_def read_protocol_version_def
      write_protocol_version_def read_vendor_id_def write_vendor_id_def wire)

interpretation wire_ir: wire_format write_info_reply read_info_reply info_reply_ok
proof (unfold_locales, goal_cases)
  case (1 x i e r)
  then show ?case
  proof (cases "ir_multicast_locator_list i")
    case None
    then show ?thesis
      using 1 ext_option(2) [OF 1(1), of False]
      by (simp add: read_info_reply_def write_info_reply_def info_reply_ok_def wire)
  next
    case (Some ls)
    then show ?thesis
      using 1 ext_option(2) [OF 1(1), of True]
      by (simp add: read_info_reply_def write_info_reply_def info_reply_ok_def wire)
  qed
qed

end
