(* ===== verification/Messages.thy ===== *)
theory Messages
  imports Submessages
begin

text \<open>
  RTPS messages (src/src/messages/header.rs, src/src/rtps/submessage.rs, src/src/rtps/message.rs):
  the message header, the framing of submessages by their declared length, the loop that splits a
  received packet into submessages, and the builder that a writer uses to compose a message. The
  packet loop consumes at least four bytes per submessage, which is its termination measure.

  Shown here: no packet makes the parser panic; a message whose submessage headers agree with their
  bodies is read back as written; the builder's submessages have that property; a GAP built from a
  set of irrelevant numbers stands for exactly these numbers.
\<close>

section \<open>The message header\<close>

record header =
  h_protocol_id :: bytes
  h_protocol_version :: protocol_version
  h_vendor_id :: "u8 \<times> u8"
  h_guid_prefix :: guid_prefix

definition PROTOCOL_RTPS :: bytes where
  "PROTOCOL_RTPS = [0x52, 0x54, 0x50, 0x53]"

definition PROTOCOLVERSION_THIS :: protocol_version where
  "PROTOCOLVERSION_THIS = \<lparr>major = 2, minor = 4\<rparr>"

definition VENDOR_THIS :: "u8 \<times> u8" where
  "VENDOR_THIS = (0x01, 0x12)"

definition header_new :: "guid_prefix \<Rightarrow> header" where
  "header_new p = \<lparr>h_protocol_id = PROTOCOL_RTPS, h_protocol_version = PROTOCOLVERSION_THIS,
     h_vendor_id = VENDOR_THIS, h_guid_prefix = p\<rparr>"

definition header_valid :: "header \<Rightarrow> bool" where
  "header_valid h \<longleftrightarrow> h_protocol_id h = PROTOCOL_RTPS
     \<and> major (h_protocol_version h) \<le> major PROTOCOLVERSION_THIS"

definition write_header :: "ext \<Rightarrow> endianness \<Rightarrow> header \<Rightarrow> bytes" where
  "write_header x e h =
     write_octets x (h_protocol_id h) @ write_protocol_version x (h_protocol_version h)
     @ write_vendor_id x (h_vendor_id h) @ write_guid_prefix x e (h_guid_prefix h)"

definition read_header :: "ext \<Rightarrow> endianness \<Rightarrow> header reader" where
  "read_header x e bs =
     do { (pid, bs) \<leftarrow> read_many (read_u8 x) 4 bs; (v, bs) \<leftarrow> read_protocol_version x bs;
          (vi, bs) \<leftarrow> read_vendor_id x bs; (p, bs) \<leftarrow> read_guid_prefix x e bs;
          Some (\<lparr>h_protocol_id = pid, h_protocol_version = v, h_vendor_id = vi, h_guid_prefix = p\<rparr>, bs) }"

definition info_source_from_header :: "header \<Rightarrow> info_source" where
  "info_source_from_header h = \<lparr>is_unused = 0, is_protocol_version = h_protocol_version h,
     is_vendor_id = h_vendor_id h, is_guid_prefix = h_guid_prefix h\<rparr>"

definition header_from_info_source :: "info_source \<Rightarrow> header" where
  "header_from_info_source s = \<lparr>h_protocol_id = PROTOCOL_RTPS, h_protocol_version = is_protocol_version s,
     h_vendor_id = is_vendor_id s, h_guid_prefix = is_guid_prefix s\<rparr>"

definition header_ok :: "header \<Rightarrow> bool" where
  "header_ok h \<longleftrightarrow> length (h_protocol_id h) = 4 \<and> wf_prefix (h_guid_prefix h)"

interpretation wire_header: wire_format write_header read_header header_ok
  by unfold_locales
    (simp add: read_header_def write_header_def header_ok_def read_protocol_version_def
      write_protocol_version_def read_vendor_id_def write_vendor_id_def wire)

section \<open>Framing\<close>

text \<open>\<open>split_to(n)\<close> of a buffer panics (\<^const>\<open>None\<close>) when there are fewer bytes.\<close>

definition split_to :: "nat \<Rightarrow> bytes \<Rightarrow> (bytes \<times> bytes) option" where
  "split_to n bs = (if n \<le> length bs then Some (take n bs, drop n bs) else None)"

text \<open>The declared length of the content; the subtraction panics on a buffer shorter than a header.\<close>

definition proposed_content_length :: "submessage_header \<Rightarrow> bytes \<Rightarrow> nat option" where
  "proposed_content_length h buffer =
     (if content_length h = 0 then
        (if sh_kind h = KIND_PAD \<or> sh_kind h = KIND_INFO_TS then Some 0
         else if length buffer < 4 then None else Some (length buffer - 4))
      else Some (unat (content_length h)))"

definition read_submessage :: "ext \<Rightarrow> bytes \<Rightarrow> (submessage option \<times> bytes) result" where
  "read_submessage x buffer =
     (case read_submessage_header x buffer of
        None \<Rightarrow> Err
      | Some (h, _) \<Rightarrow>
          (case proposed_content_length h buffer of
             None \<Rightarrow> Panic
           | Some n \<Rightarrow>
               if 4 + n \<le> length buffer then
                 (case split_to (4 + n) buffer of
                    None \<Rightarrow> Panic
                  | Some (sub_buffer, rest) \<Rightarrow>
                      (case split_to 4 sub_buffer of
                         None \<Rightarrow> Panic
                       | Some (_, content) \<Rightarrow>
                           (case read_submessage_body x h content of
                              None \<Rightarrow> Err
                            | Some None \<Rightarrow> Ok (None, rest)
                            | Some (Some body) \<Rightarrow>
                                Ok (Some \<lparr>sm_header = h, sm_body = body, original_bytes = Some sub_buffer\<rparr>, rest))))
               else Err))"

lemma read_submessage_shorter:
  "read_submessage x buffer = Ok (sm, rest) \<Longrightarrow> length rest < length buffer"
  by (auto simp: read_submessage_def split_to_def split: option.splits if_splits) (linarith+)

function read_submessages :: "ext \<Rightarrow> bytes \<Rightarrow> submessage list result" where
  "read_submessages x bs =
     (if bs = [] then Ok []
      else case read_submessage x bs of
             Err \<Rightarrow> Err
           | Panic \<Rightarrow> Panic
           | Ok (sm, rest) \<Rightarrow>
               (case read_submessages x rest of
                  Ok sms \<Rightarrow> Ok (case sm of None \<Rightarrow> sms | Some s \<Rightarrow> s # sms)
                | r \<Rightarrow> r))"
  by pat_completeness auto

termination
  by (relation "measure (\<lambda>(x, bs). length bs)") (auto dest: read_submessage_shorter)

declare read_submessages.simps [simp del]

record message =
  msg_header :: header
  submessages :: "submessage list"

definition message_new :: "header \<Rightarrow> message" where
  "message_new h = \<lparr>msg_header = h, submessages = []\<rparr>"

definition add_submessage :: "message \<Rightarrow> submessage \<Rightarrow> message" where
  "add_submessage m s = m\<lparr>submessages := submessages m @ [s]\<rparr>"

definition read_message :: "ext \<Rightarrow> bytes \<Rightarrow> message result" where
  "read_message x buffer =
     (case from_buffer (read_header x LittleEndian) buffer of
        None \<Rightarrow> Err
      | Some h \<Rightarrow>
          if \<not> header_valid h then Err
          else case slice buffer 20 (length buffer) of
                 None \<Rightarrow> Panic
               | Some left \<Rightarrow>
                   (case read_submessages x left of
                      Ok sms \<Rightarrow> Ok ((message_new h)\<lparr>submessages := sms\<rparr>)
                    | Err \<Rightarrow> Err
                    | Panic \<Rightarrow> Panic))"

definition write_message :: "ext \<Rightarrow> endianness \<Rightarrow> message \<Rightarrow> bytes" where
  "write_message x e m =
     write_header x e (msg_header m) @ concat (map (write_submessage x) (submessages m))"

section \<open>No packet makes the parser panic\<close>

lemma read_u8_Some: "ext_ok x \<Longrightarrow> read_u8 x bs = Some (b, r) \<Longrightarrow> bs = b # r"
  by (cases bs) (simp_all add: wire)

lemma read_octets_length:
  assumes "ext_ok x" "read_many (read_u8 x) n bs = Some (vs, r)"
  shows "length bs = n + length r"
  using assms(2)
  by (induction n arbitrary: bs vs) (auto split: bind_splits dest!: read_u8_Some [OF assms(1)])

lemma read_submessage_header_length:
  assumes "ext_ok x" "read_submessage_header x bs = Some (h, r)"
  shows "4 \<le> length bs"
  using assms(2)
  by (auto simp: read_submessage_header_def split: bind_splits dest!: read_u8_Some [OF assms(1)])

lemma read_header_length:
  assumes "ext_ok x" "read_header x e bs = Some (h, r)"
  shows "20 \<le> length bs"
  using assms(2)
  by (auto simp: read_header_def read_protocol_version_def read_vendor_id_def read_guid_prefix_def
      split: bind_splits dest!: read_u8_Some [OF assms(1)] read_octets_length [OF assms(1)])

lemma read_submessage_no_panic:
  assumes "ext_ok x"
  shows "read_submessage x buffer \<noteq> Panic"
  using read_submessage_header_length [OF assms, of buffer]
  by (auto simp: read_submessage_def proposed_content_length_def split_to_def
      split: option.splits if_splits)

lemma read_submessages_no_panic:
  assumes "ext_ok x"
  shows "read_submessages x bs \<noteq> Panic"
  using assms
proof (induction x bs rule: read_submessages.induct)
  case (1 x bs)
  show ?case
    using read_submessage_no_panic [OF 1(2), of bs] 1(1) [OF _ _ _ 1(2)]
    by (subst read_submessages.simps) (auto split: result.splits option.splits)
qed

section \<open>Reading back submessages and messages\<close>

text \<open>The kind, the declared flags and the flags of a body.\<close>

fun body_kind :: "submessage_body \<Rightarrow> u8 \<times> u8 \<times> u8" where
  "body_kind (SB_Writer (WS_Data _ f)) = (KIND_DATA, DATA_mask, f)"
| "body_kind (SB_Writer (WS_DataFrag _ f)) = (KIND_DATA_FRAG, DATAFRAG_mask, f)"
| "body_kind (SB_Writer (WS_Gap _ f)) = (KIND_GAP, 1, f)"
| "body_kind (SB_Writer (WS_Heartbeat _ f)) = (KIND_HEARTBEAT, 7, f)"
| "body_kind (SB_Writer (WS_HeartbeatFrag _ f)) = (KIND_HEARTBEAT_FRAG, 1, f)"
| "body_kind (SB_Reader (RS_AckNack _ f)) = (KIND_ACKNACK, 3, f)"
| "body_kind (SB_Reader (RS_NackFrag _ f)) = (KIND_NACK_FRAG, 1, f)"
| "body_kind (SB_Interpreter (IS_InfoSource _ f)) = (KIND_INFO_SRC, 1, f)"
| "body_kind (SB_Interpreter (IS_InfoDestination _ f)) = (KIND_INFO_DST, 1, f)"
| "body_kind (SB_Interpreter (IS_InfoReply _ f)) = (KIND_INFO_REPLY, 3, f)"
| "body_kind (SB_Interpreter (IS_InfoTimestamp _ f)) = (KIND_INFO_TS, 3, f)"

fun body_ok :: "submessage_body \<Rightarrow> bool" where
  "body_ok (SB_Writer (WS_Data d f)) = data_ok d f"
| "body_ok (SB_Writer (WS_DataFrag d f)) = data_frag_ok d f"
| "body_ok (SB_Writer (WS_Gap g _)) = gap_ok g"
| "body_ok (SB_Writer (WS_Heartbeat h _)) = heartbeat_ok h"
| "body_ok (SB_Writer (WS_HeartbeatFrag h _)) = heartbeat_frag_ok h"
| "body_ok (SB_Reader (RS_AckNack a _)) = ack_nack_ok a"
| "body_ok (SB_Reader (RS_NackFrag n _)) = nack_frag_ok n"
| "body_ok (SB_Interpreter (IS_InfoSource s _)) = wf_prefix (is_guid_prefix s)"
| "body_ok (SB_Interpreter (IS_InfoDestination p _)) = wf_prefix p"
| "body_ok (SB_Interpreter (IS_InfoReply i _)) = info_reply_ok i"
| "body_ok (SB_Interpreter (IS_InfoTimestamp t f)) = (t = None \<longleftrightarrow> flag_set f INFOTS_Invalidate)"

text \<open>A submessage whose header agrees with its body and declares the length of its content.\<close>

definition submessage_ok :: "ext \<Rightarrow> submessage \<Rightarrow> bool" where
  "submessage_ok x s \<longleftrightarrow>
     (case body_kind (sm_body s) of (kind, declared, f) \<Rightarrow>
        sh_kind (sm_header s) = kind \<and> sh_flags (sm_header s) = f \<and> f AND declared = f)
     \<and> body_ok (sm_body s)
     \<and> (let len = length (write_submessage_body x (endianness_flag (sh_flags (sm_header s))) (sm_body s))
        in unat (content_length (sm_header s)) = len
           \<and> (len = 0 \<longrightarrow> sh_kind (sm_header s) = KIND_INFO_TS))"

lemma read_write_submessage_body:
  assumes "ext_ok x" "submessage_ok x s"
  shows "read_submessage_body x (sm_header s)
    (write_submessage_body x (endianness_flag (sh_flags (sm_header s))) (sm_body s)) = Some (Some (sm_body s))"
  using assms
  by (cases "sm_body s" rule: body_kind.cases)
    (auto simp: submessage_ok_def read_submessage_body_def Let_def from_buffer_def ext_flags
      deserialize_write_data deserialize_write_data_frag wire_hb.reads_written_end
      wire_gap.reads_written_end wire_an.reads_written_end wire_nf.reads_written_end
      wire_hbf.reads_written_end wire_is.reads_written_end wire_ir.reads_written_end
      wire_prefix.reads_written_end wire_ts.reads_written_end flag_set_def)

lemma from_le_bytes_split: "from_le_bytes (ucast w) (ucast (drop_bit 8 w)) = w"
  unfolding from_le_bytes_def by (rule bit_word_eqI) (auto simp: bit_simps)

lemma read_write_submessage_header:
  assumes "ext_ok x"
  shows "read_submessage_header x (write_submessage_header x h @ r) = Some (h, r)"
  using assms
  by (cases "endianness_flag (sh_flags h)")
    (simp_all add: read_submessage_header_def write_submessage_header_def wire from_be_bytes_def
      from_le_bytes_split)

lemma length_write_submessage_header: "ext_ok x \<Longrightarrow> length (write_submessage_header x h) = 4"
  by (simp add: write_submessage_header_def wire split: endianness.split)

definition received :: "ext \<Rightarrow> submessage \<Rightarrow> submessage" where
  "received x s = s\<lparr>original_bytes := Some (write_submessage x s)\<rparr>"

lemma read_write_submessage:
  assumes "ext_ok x" "submessage_ok x s"
  shows "read_submessage x (write_submessage x s @ r) = Ok (Some (received x s), r)"
proof -
  define h where "h = sm_header s"
  define body where "body = write_submessage_body x (endianness_flag (sh_flags h)) (sm_body s)"
  have w: "write_submessage x s = write_submessage_header x h @ body"
    by (simp add: write_submessage_def h_def body_def)
  have len: "length (write_submessage_header x h) = 4"
    using assms(1) by (rule length_write_submessage_header)
  have pcl: "proposed_content_length h (write_submessage x s @ r) = Some (length body)"
    using assms(2) unfolding submessage_ok_def Let_def
    by (auto simp: proposed_content_length_def h_def body_def)
  have "read_submessage_body x h body = Some (Some (sm_body s))"
    using read_write_submessage_body [OF assms] by (simp add: h_def body_def)
  moreover have "\<lparr>sm_header = h, sm_body = sm_body s, original_bytes = Some (write_submessage x s)\<rparr> = received x s"
    by (simp add: received_def h_def)
  ultimately show ?thesis
    using pcl len assms(1)
    by (simp add: read_submessage_def read_write_submessage_header split_to_def w)
qed

lemma write_submessage_nonempty: "ext_ok x \<Longrightarrow> write_submessage x s \<noteq> []"
  using length_write_submessage_header [of x "sm_header s"] by (auto simp: write_submessage_def)

lemma read_write_submessages:
  assumes "ext_ok x" "\<forall>s \<in> set ss. submessage_ok x s"
  shows "read_submessages x (concat (map (write_submessage x) ss)) = Ok (map (received x) ss)"
  using assms(2)
proof (induction ss)
  case Nil
  show ?case by (subst read_submessages.simps) simp
next
  case (Cons s ss)
  then show ?case
    using assms(1) by (subst read_submessages.simps) (simp add: write_submessage_nonempty read_write_submessage)
qed

section \<open>The message builder\<close>

record message_builder =
  mb_submessages :: "submessage list"

definition mb_new :: message_builder where
  "mb_new = \<lparr>mb_submessages = []\<rparr>"

definition mb_push :: "message_builder \<Rightarrow> submessage \<Rightarrow> message_builder" where
  "mb_push b s = b\<lparr>mb_submessages := mb_submessages b @ [s]\<rparr>"

definition mk_submessage :: "u8 \<Rightarrow> u8 \<Rightarrow> nat \<Rightarrow> submessage_body \<Rightarrow> submessage" where
  "mk_submessage kind flags len body =
     \<lparr>sm_header = \<lparr>sh_kind = kind, sh_flags = flags, content_length = of_nat len\<rparr>,
      sm_body = body, original_bytes = None\<rparr>"

definition heartbeat_create_submessage :: "ext \<Rightarrow> heartbeat \<Rightarrow> u8 \<Rightarrow> submessage" where
  "heartbeat_create_submessage x h flags =
     mk_submessage KIND_HEARTBEAT flags (length (write_heartbeat x LittleEndian h)) (SB_Writer (WS_Heartbeat h flags))"

definition gap_create_submessage :: "ext \<Rightarrow> gap \<Rightarrow> u8 \<Rightarrow> submessage" where
  "gap_create_submessage x g flags =
     mk_submessage KIND_GAP flags (length (write_gap x LittleEndian g)) (SB_Writer (WS_Gap g flags))"

definition ack_nack_create_submessage :: "ack_nack \<Rightarrow> u8 \<Rightarrow> submessage" where
  "ack_nack_create_submessage a flags =
     mk_submessage KIND_ACKNACK flags (an_len_serialized a) (SB_Reader (RS_AckNack a flags))"

definition nack_frag_create_submessage :: "nack_frag \<Rightarrow> u8 \<Rightarrow> submessage" where
  "nack_frag_create_submessage n flags =
     mk_submessage KIND_NACK_FRAG flags (nf_len_serialized n) (SB_Reader (RS_NackFrag n flags))"

definition info_destination_create_submessage :: "guid_prefix \<Rightarrow> u8 \<Rightarrow> submessage" where
  "info_destination_create_submessage p flags =
     mk_submessage KIND_INFO_DST flags 12 (SB_Interpreter (IS_InfoDestination p flags))"

definition dst_submessage :: "endianness \<Rightarrow> guid_prefix \<Rightarrow> message_builder \<Rightarrow> message_builder" where
  "dst_submessage e p b =
     (let flags = from_endianness e
      in mb_push b (mk_submessage KIND_INFO_DST flags 12 (SB_Interpreter (IS_InfoDestination p flags))))"

definition ts_msg :: "ext \<Rightarrow> endianness \<Rightarrow> timestamp option \<Rightarrow> message_builder \<Rightarrow> message_builder" where
  "ts_msg x e ts b =
     (let flags0 = from_endianness e;
          flags = (if ts = None then flags_union x flags0 INFOTS_Invalidate else flags0);
          len = (case ts of Some _ \<Rightarrow> 8 | None \<Rightarrow> 0)
      in mb_push b (mk_submessage KIND_INFO_TS flags len (SB_Interpreter (IS_InfoTimestamp ts flags))))"

text \<open>\<^const>\<open>None\<close> of the result is a panic of the status info parameter.\<close>

definition data_msg ::
    "ext \<Rightarrow> cache_change \<Rightarrow> entity_id \<Rightarrow> guid \<Rightarrow> endianness \<Rightarrow> message_builder \<Rightarrow> message_builder option" where
  "data_msg x cc reader_entity_id wguid e b =
     do { ps \<leftarrow> (case data_value cc of
                DisposeByKeyHash _ kh \<Rightarrow>
                  map_option (\<lambda>si. [\<lparr>parameter_id = PID_KEY_HASH, pvalue = key_hash_bytes kh\<rparr>, si])
                    (create_pid_status_info_parameter x True True False)
              | _ \<Rightarrow> Some []);
          let params = ps @ (case related_sample_identity (write_options cc) of
                None \<Rightarrow> []
              | Some si \<Rightarrow> [\<lparr>parameter_id = PID_RELATED_SAMPLE_IDENTITY, pvalue = write_sample_identity x e si\<rparr>]);
              payload = (case data_value cc of
                Data_Payload sp \<Rightarrow> Some (write_serialized_payload x sp)
              | DisposeByKey _ key \<Rightarrow> Some (write_serialized_payload x key)
              | DisposeByKeyHash _ _ \<Rightarrow> None);
              have_inline_qos = (params \<noteq> []);
              data_message = \<lparr>d_reader_id = reader_entity_id, d_writer_id = guid_entity_id wguid,
                d_writer_sn = sequence_number cc,
                d_inline_qos = (if have_inline_qos then Some \<lparr>parameters = params\<rparr> else None),
                d_serialized_payload = payload\<rparr>;
              flags = flags_union x (flags_union x (from_endianness e)
                (case data_value cc of Data_Payload _ \<Rightarrow> DATA_Data | DisposeByKey _ _ \<Rightarrow> DATA_Key
                  | DisposeByKeyHash _ _ \<Rightarrow> DATA_InlineQos))
                (if have_inline_qos then DATA_InlineQos else 0)
          in Some (mb_push b (mk_submessage KIND_DATA flags (data_len_serialized data_message)
               (SB_Writer (WS_Data data_message flags)))) }"

text \<open>
  A DATAFRAG with one fragment; \<^const>\<open>None\<close> of the result is a panic (fragment number 0). A dispose by
  key hash is not sent.
\<close>

definition data_frag_msg ::
    "ext \<Rightarrow> cache_change \<Rightarrow> entity_id \<Rightarrow> guid \<Rightarrow> fragnum \<Rightarrow> u16 \<Rightarrow> u32 \<Rightarrow> endianness \<Rightarrow> message_builder
      \<Rightarrow> message_builder option" where
  "data_frag_msg x cc reader_entity_id wguid fragment_number fsize sample_size e b =
     (case data_value cc of
        DisposeByKeyHash _ _ \<Rightarrow> Some b
      | dv \<Rightarrow>
          let params = (case related_sample_identity (write_options cc) of
                None \<Rightarrow> []
              | Some si \<Rightarrow> [\<lparr>parameter_id = PID_RELATED_SAMPLE_IDENTITY, pvalue = write_sample_identity x e si\<rparr>]);
              have_inline_qos = (params \<noteq> [])
          in if fragment_number < 1 then None
             else do {
               payload \<leftarrow> dds_bytes_slice dv ((nat fragment_number - 1) * unat fsize)
                   (min (nat fragment_number * unat fsize) (unat sample_size));
               let data_message = \<lparr>df_reader_id = reader_entity_id, df_writer_id = guid_entity_id wguid,
                     df_writer_sn = sequence_number cc, fragment_starting_num = fragment_number,
                     fragments_in_submessage = 1, data_size = sample_size, fragment_size = fsize,
                     df_inline_qos = (if have_inline_qos then Some \<lparr>parameters = params\<rparr> else None),
                     df_serialized_payload = payload\<rparr>;
                   flags = flags_union x (flags_union x (from_endianness e)
                     (case dv of DisposeByKey _ _ \<Rightarrow> DATAFRAG_Key | _ \<Rightarrow> 0))
                     (if have_inline_qos then DATAFRAG_InlineQos else 0)
               in Some (mb_push b (mk_submessage KIND_DATA_FRAG flags (df_len_serialized data_message)
                    (SB_Writer (WS_DataFrag data_message flags)))) })"

text \<open>The loop that looks for the end of the contiguous range.\<close>

partial_function (option) gap_range_end :: "seqnum btree_set \<Rightarrow> seqnum \<Rightarrow> seqnum option" where
  "gap_range_end irrelevant_sns sn =
     (if bs_contains irrelevant_sns sn then gap_range_end irrelevant_sns (plus_1 sn) else Some sn)"

definition mk_gap :: "seqnum btree_set \<Rightarrow> entity_id \<Rightarrow> guid \<Rightarrow> gap option" where
  "mk_gap irrelevant_sns writer_entity_id reader_guid =
     (case (bm_first irrelevant_sns, bm_last irrelevant_sns) of
        (Some (start, _), Some _) \<Rightarrow>
          do { list_base \<leftarrow> gap_range_end irrelevant_sns (plus_1 start);
               gl \<leftarrow> from_base_and_set SeqNum list_base (snd (bm_split_off list_base irrelevant_sns));
               Some \<lparr>gap_reader_id = guid_entity_id reader_guid, gap_writer_id = writer_entity_id,
                     gap_start = start, gap_list = gl\<rparr> }
      | _ \<Rightarrow> None)"

definition gap_msg ::
    "ext \<Rightarrow> seqnum btree_set \<Rightarrow> entity_id \<Rightarrow> endianness \<Rightarrow> guid \<Rightarrow> message_builder \<Rightarrow> message_builder option" where
  "gap_msg x irrelevant_sns writer_entity_id e reader_guid b =
     (if bm_is_empty irrelevant_sns then Some b
      else map_option (\<lambda>g. mb_push b (gap_create_submessage x g (from_endianness e)))
             (mk_gap irrelevant_sns writer_entity_id reader_guid))"

definition gap_msg_before ::
    "ext \<Rightarrow> seqnum \<Rightarrow> entity_id \<Rightarrow> endianness \<Rightarrow> guid \<Rightarrow> message_builder \<Rightarrow> message_builder" where
  "gap_msg_before x irrelevant_sns_before writer_entity_id e reader_guid b =
     (let g = \<lparr>gap_reader_id = guid_entity_id reader_guid, gap_writer_id = writer_entity_id,
               gap_start = 1, gap_list = ns_new_empty irrelevant_sns_before\<rparr>
      in mb_push b (gap_create_submessage x g (from_endianness e)))"

definition heartbeat_msg ::
    "ext \<Rightarrow> entity_id \<Rightarrow> seqnum \<Rightarrow> seqnum \<Rightarrow> int \<Rightarrow> endianness \<Rightarrow> entity_id \<Rightarrow> bool \<Rightarrow> bool
      \<Rightarrow> message_builder \<Rightarrow> message_builder" where
  "heartbeat_msg x writer_entity_id first1 last1 heartbeat_count e reader_entity_id set_final set_liveliness b =
     (let h = \<lparr>hb_reader_id = reader_entity_id, hb_writer_id = writer_entity_id, first_sn = first1,
               last_sn = last1, hb_count = heartbeat_count\<rparr>;
          flags0 = from_endianness e;
          flags1 = (if set_final then flags_union x flags0 HEARTBEAT_Final else flags0);
          flags2 = (if set_liveliness then flags_union x flags1 HEARTBEAT_Liveliness else flags1)
      in mb_push b (heartbeat_create_submessage x h flags2))"

definition add_header_and_build :: "message_builder \<Rightarrow> guid_prefix \<Rightarrow> message" where
  "add_header_and_build b p = \<lparr>msg_header = header_new p, submessages = mb_submessages b\<rparr>"

section \<open>What the builder sends can be read back\<close>

lemma length_elements:
  assumes "ext_ok x"
  shows "in_i64 sn \<Longrightarrow> length (write_seqnum x e sn) = 8" "length (write_fragnum x e f) = 4"
    "length (write_entity_id x e i) = 4" "wf_prefix p \<Longrightarrow> length (write_guid_prefix x e p) = 12"
    "length (write_timestamp x e t) = 8"
  using assms sn_halves(1)
  by (simp_all add: write_seqnum_def write_fragnum_def write_entity_id_def write_guid_prefix_def
      write_timestamp_def wf_prefix_def wire wrap_i32_id split: prod.split)

lemma length_write_number_set:
  assumes "ext_ok x" "ns_wire k s"
  shows "length (write_number_set k x e s) = ns_len_serialized k s"
proof -
  have "length (write_number k x e (bitmap_base s)) = number_size k"
    using assms by (cases k) (simp_all add: length_elements ns_wire_def)
  moreover have "length (concat (map (write_u32 x e) ws)) = 4 * length ws" for ws
    using assms(1) by (induction ws) (simp_all add: wire)
  moreover have "num_bits s \<le> 256" "length (bitmap s) = (num_bits s + 31) div 32"
    using assms(2) by (simp_all add: ns_wire_def ns_wf_def)
  ultimately show ?thesis
    using assms(1)
    by (simp add: write_number_set_def ns_len_serialized_def wire word_count_eq)
qed

lemma ns_len_bound: "ns_wire k s \<Longrightarrow> ns_len_serialized k s \<le> 44"
proof -
  assume "ns_wire k s"
  then have "(num_bits s + 31) div 32 \<le> 287 div 32"
    by (intro div_le_mono) (simp add: ns_wire_def ns_wf_def)
  then show ?thesis
    by (cases k) (simp_all add: ns_len_serialized_def)
qed

lemma unat_of_nat_u16': "n < 65536 \<Longrightarrow> unat (of_nat n :: u16) = n"
  by (rule unat_of_nat_u16) simp

lemma from_endianness_flag [simp]: "endianness_flag (from_endianness e) = e"
  by (cases e) (simp_all add: endianness_flag_def from_endianness_def)

lemma submessage_ok_mk:
  assumes "body_kind body = (kind, declared, f)" "f AND declared = f" "body_ok body"
    and "length (write_submessage_body x (endianness_flag f) body) = len" "len < 65536"
    and "len = 0 \<Longrightarrow> kind = KIND_INFO_TS"
  shows "submessage_ok x (mk_submessage kind f len body)"
  using assms by (simp add: submessage_ok_def mk_submessage_def unat_of_nat_u16')

lemma heartbeat_create_ok:
  assumes "ext_ok x" "heartbeat_ok h" "f AND 7 = f"
  shows "submessage_ok x (heartbeat_create_submessage x h f)"
  unfolding heartbeat_create_submessage_def using assms
  by (intro submessage_ok_mk) (auto simp: write_heartbeat_def heartbeat_ok_def length_elements wire)

lemma gap_create_ok:
  assumes "ext_ok x" "gap_ok g" "f AND 1 = f"
  shows "submessage_ok x (gap_create_submessage x g f)"
  unfolding gap_create_submessage_def using assms ns_len_bound [of SeqNum "gap_list g"]
  by (intro submessage_ok_mk) (auto simp: write_gap_def gap_ok_def length_elements length_write_number_set)

lemma ack_nack_create_ok:
  assumes "ext_ok x" "ack_nack_ok a" "f AND 3 = f"
  shows "submessage_ok x (ack_nack_create_submessage a f)"
  unfolding ack_nack_create_submessage_def using assms ns_len_bound [of SeqNum "reader_sn_state a"]
  by (intro submessage_ok_mk)
    (auto simp: write_ack_nack_def ack_nack_ok_def an_len_serialized_def length_elements
      length_write_number_set wire)

lemma nack_frag_create_ok:
  assumes "ext_ok x" "nack_frag_ok n" "f AND 1 = f"
  shows "submessage_ok x (nack_frag_create_submessage n f)"
  unfolding nack_frag_create_submessage_def using assms ns_len_bound [of FragNum "fragment_number_state n"]
  by (intro submessage_ok_mk)
    (auto simp: write_nack_frag_def nack_frag_ok_def nf_len_serialized_def length_elements
      length_write_number_set wire)

lemma from_endianness_cases: "from_endianness e = 0 \<or> from_endianness e = 1"
  by (simp add: from_endianness_def)

lemma dst_submessage_ok:
  assumes "ext_ok x" "wf_prefix p"
  shows "submessage_ok x (mk_submessage KIND_INFO_DST (from_endianness e) 12
    (SB_Interpreter (IS_InfoDestination p (from_endianness e))))"
  using assms from_endianness_cases [of e] by (intro submessage_ok_mk) (auto simp: length_elements)

lemma ts_submessage_ok:
  assumes "ext_ok x"
  shows "\<forall>s \<in> set (mb_submessages (ts_msg x e ts b)). s \<in> set (mb_submessages b) \<or> submessage_ok x s"
proof -
  let ?f = "if ts = None then flags_union x (from_endianness e) INFOTS_Invalidate else from_endianness e"
  have "submessage_ok x (mk_submessage KIND_INFO_TS ?f (case ts of Some _ \<Rightarrow> 8 | None \<Rightarrow> 0)
      (SB_Interpreter (IS_InfoTimestamp ts ?f)))"
    using assms from_endianness_cases [of e]
    by (intro submessage_ok_mk)
      (auto simp: length_elements ext_flags flag_set_def split: option.split)
  then show ?thesis
    by (simp add: ts_msg_def mb_push_def Let_def)
qed

text \<open>The data message, on every kind of change.\<close>

definition cc_wire :: "cache_change \<Rightarrow> bool" where
  "cc_wire cc \<longleftrightarrow> in_i64 (sequence_number cc)
     \<and> (\<forall>k kh. data_value cc = DisposeByKeyHash k kh \<longrightarrow> length (key_hash_bytes kh) = 16)
     \<and> (\<forall>si. related_sample_identity (write_options cc) = Some si \<longrightarrow> sample_identity_ok si)
     \<and> payload_size (data_value cc) + 100 < 2 ^ 16"

lemma length_sample_identity:
  "ext_ok x \<Longrightarrow> sample_identity_ok si \<Longrightarrow> length (write_sample_identity x e si) = 24"
  by (simp add: write_sample_identity_def write_guid_def sample_identity_ok_def length_elements)

lemma data_flags:
  "(f::u8) = 0 \<or> f = 1 \<Longrightarrow> d \<in> {2, 4, 8} \<Longrightarrow> q \<in> {0, 2} \<Longrightarrow>
    (f OR d OR q) AND 31 = f OR d OR q
    \<and> (flag_set (f OR d OR q) DATA_InlineQos \<longleftrightarrow> d = 2 \<or> q = 2)
    \<and> (flag_set (f OR d OR q) DATA_Data \<longleftrightarrow> d = 4) \<and> (flag_set (f OR d OR q) DATA_Key \<longleftrightarrow> d = 8)
    \<and> endianness_flag (f OR d OR q) = endianness_flag f"
  by (auto simp: flag_set_def endianness_flag_def)

lemma length_write_data:
  assumes "ext_ok x" "in_i64 (d_writer_sn d)"
  shows "length (write_data x e d) = data_len_serialized d"
  using assms
  by (auto simp: write_data_def data_len_serialized_def length_elements length_write_parameter_list wire
      split: option.split)

text \<open>The inline QoS and the payload of a data message.\<close>

definition cc_params :: "ext \<Rightarrow> endianness \<Rightarrow> cache_change \<Rightarrow> parameter list" where
  "cc_params x e cc =
     (case data_value cc of
        DisposeByKeyHash _ kh \<Rightarrow>
          [\<lparr>parameter_id = PID_KEY_HASH, pvalue = key_hash_bytes kh\<rparr>,
           \<lparr>parameter_id = PID_STATUS_INFO, pvalue = [0, 0, 0, status_byte True True False]\<rparr>]
      | _ \<Rightarrow> [])
     @ (case related_sample_identity (write_options cc) of
          None \<Rightarrow> []
        | Some si \<Rightarrow> [\<lparr>parameter_id = PID_RELATED_SAMPLE_IDENTITY, pvalue = write_sample_identity x e si\<rparr>])"

definition cc_payload :: "cache_change \<Rightarrow> bytes option" where
  "cc_payload cc = (case data_value cc of Data_Payload sp \<Rightarrow> Some (sp_bytes sp)
     | DisposeByKey _ key \<Rightarrow> Some (sp_bytes key) | DisposeByKeyHash _ _ \<Rightarrow> None)"

definition cc_data :: "ext \<Rightarrow> endianness \<Rightarrow> cache_change \<Rightarrow> entity_id \<Rightarrow> guid \<Rightarrow> data_sm" where
  "cc_data x e cc rid wguid =
     \<lparr>d_reader_id = rid, d_writer_id = guid_entity_id wguid, d_writer_sn = sequence_number cc,
      d_inline_qos = (if cc_params x e cc \<noteq> [] then Some \<lparr>parameters = cc_params x e cc\<rparr> else None),
      d_serialized_payload = cc_payload cc\<rparr>"

definition cc_flags :: "ext \<Rightarrow> endianness \<Rightarrow> cache_change \<Rightarrow> u8" where
  "cc_flags x e cc = from_endianness e
     OR (case data_value cc of Data_Payload _ \<Rightarrow> DATA_Data | DisposeByKey _ _ \<Rightarrow> DATA_Key
           | DisposeByKeyHash _ _ \<Rightarrow> DATA_InlineQos)
     OR (if cc_params x e cc \<noteq> [] then DATA_InlineQos else 0)"

lemma data_msg_eq:
  assumes "ext_ok x"
  shows "data_msg x cc rid wguid e b =
    Some (mb_push b (mk_submessage KIND_DATA (cc_flags x e cc) (data_len_serialized (cc_data x e cc rid wguid))
      (SB_Writer (WS_Data (cc_data x e cc rid wguid) (cc_flags x e cc)))))"
  by (cases "data_value cc")
    (simp_all add: data_msg_def cc_data_def cc_flags_def cc_params_def cc_payload_def Let_def or.assoc
      write_serialized_payload_eq [OF assms] create_pid_status_info_parameter_eq [OF assms] ext_flags [OF assms])

lemma cc_params_ok:
  assumes "ext_ok x" "cc_wire cc"
  shows "pl_wire \<lparr>parameters = cc_params x e cc\<rparr>" and "pl_len_serialized \<lparr>parameters = cc_params x e cc\<rparr> \<le> 60"
  using assms length_sample_identity [OF assms(1)]
  by (cases "data_value cc"; cases "related_sample_identity (write_options cc)";
      auto simp: cc_params_def pl_wire_def param_ok_def param_pad_def cc_wire_def pl_len_serialized_def
        param_len_serialized_def SENTINEL_def)+

lemma cc_data_ok:
  assumes "ext_ok x" "cc_wire cc"
  shows "data_ok (cc_data x e cc rid wguid) (cc_flags x e cc)" and "cc_flags x e cc AND DATA_mask = cc_flags x e cc"
    and "endianness_flag (cc_flags x e cc) = e"
    and "data_len_serialized (cc_data x e cc rid wguid) < 65536"
proof -
  let ?d = "case data_value cc of Data_Payload _ \<Rightarrow> DATA_Data | DisposeByKey _ _ \<Rightarrow> DATA_Key
      | DisposeByKeyHash _ _ \<Rightarrow> DATA_InlineQos"
  have fl: "from_endianness e = 0 \<or> from_endianness e = 1" "?d \<in> {2, 4, 8}"
    "(if cc_params x e cc \<noteq> [] then DATA_InlineQos else 0) \<in> {0, 2}"
    by (simp_all add: from_endianness_cases split: dds_data.split)
  note flags = data_flags [OF fl, folded cc_flags_def]
  have hash: "data_value cc = DisposeByKeyHash k kh \<Longrightarrow> cc_params x e cc \<noteq> []" for k kh
    by (simp add: cc_params_def)
  show "cc_flags x e cc AND DATA_mask = cc_flags x e cc" "endianness_flag (cc_flags x e cc) = e"
    using flags by simp_all
  show "data_ok (cc_data x e cc rid wguid) (cc_flags x e cc)"
    using flags cc_params_ok(1) [OF assms] assms(2) hash
    by (cases "data_value cc") (auto simp: data_ok_def cc_data_def cc_wire_def cc_payload_def)
  show "data_len_serialized (cc_data x e cc rid wguid) < 65536"
    using cc_params_ok(2) [OF assms, of e] assms(2)
    by (cases "data_value cc") (auto simp: data_len_serialized_def cc_data_def cc_wire_def cc_payload_def)
qed

lemma data_msg_ok:
  assumes "ext_ok x" "cc_wire cc"
  shows "submessage_ok x (mk_submessage KIND_DATA (cc_flags x e cc) (data_len_serialized (cc_data x e cc rid wguid))
      (SB_Writer (WS_Data (cc_data x e cc rid wguid) (cc_flags x e cc))))"
  using cc_data_ok [OF assms] assms
  by (intro submessage_ok_mk)
    (auto simp: length_write_data cc_wire_def cc_data_def [of x e cc, THEN arg_cong, of d_writer_sn] data_len_serialized_def)

section \<open>Gaps\<close>

text \<open>The numbers a GAP declares irrelevant: from its start up to the base of its list, and the list.\<close>

definition gap_covers :: "gap \<Rightarrow> seqnum \<Rightarrow> bool" where
  "gap_covers g sn \<longleftrightarrow> (gap_start g \<le> sn \<and> sn < bitmap_base (gap_list g))
     \<or> (\<exists>sns. ns_elems SeqNum (gap_list g) = Some sns \<and> sn \<in> set sns)"

lemma gap_range_end_spec:
  assumes "\<forall>k. bs_contains st k \<longrightarrow> in_i64 k \<and> k < i64_max" and "in_i64 sn"
  shows "\<exists>b. gap_range_end st sn = Some b \<and> sn \<le> b \<and> \<not> bs_contains st b \<and> in_i64 b
    \<and> (\<forall>k. sn \<le> k \<and> k < b \<longrightarrow> bs_contains st k)"
  using assms(2)
proof (induction "card {k \<in> set (bs_iter st). sn \<le> k}" arbitrary: sn rule: less_induct)
  case less
  show ?case
  proof (cases "bs_contains st sn")
    case True
    with assms(1) less.prems have suc: "plus_1 sn = sn + 1" "in_i64 (sn + 1)"
      by (auto simp: plus_1_def in_i64_def intro!: wrap_i64_id)
    let ?above = "\<lambda>sn. {k \<in> set (bs_iter st). sn \<le> k}"
    have "sn \<in> ?above sn" "sn \<notin> ?above (sn + 1)" "?above (sn + 1) \<subseteq> ?above sn"
      using True by auto
    then have "card (?above (sn + 1)) < card (?above sn)"
      by (intro psubset_card_mono finite_subset [OF _ finite_set]) blast+
    from less.hyps [OF this suc(2)] obtain b where
      b: "gap_range_end st (sn + 1) = Some b" "sn + 1 \<le> b" "\<not> bs_contains st b" "in_i64 b"
        "\<forall>k. sn + 1 \<le> k \<and> k < b \<longrightarrow> bs_contains st k"
      by blast
    have "bs_contains st k" if "sn \<le> k" "k < b" for k
      using b(5) that True by (cases "k = sn") auto
    with b True suc show ?thesis
      by (subst gap_range_end.simps) auto
  next
    case False
    with less.prems show ?thesis
      by (subst gap_range_end.simps) auto
  qed
qed

lemma mk_gap_spec:
  assumes "\<not> bm_is_empty st" and "\<forall>k. bs_contains st k \<longrightarrow> 1 \<le> k \<and> in_i64 (k + 1)"
  obtains g where "mk_gap st wid rg = Some g" "gap_ok g"
    "gap_reader_id g = guid_entity_id rg" "gap_writer_id g = wid"
    "\<And>sn. gap_covers g sn \<longleftrightarrow> bs_contains st sn \<and> sn < bitmap_base (gap_list g) + 256"
proof -
  obtain start u last1 v where fl: "bm_first st = Some (start, u)" "bm_last st = Some (last1, v)"
    using assms(1) by (metis first_None_iff last_None_iff not_None_eq surj_pair)
  have start: "bs_contains st start" "\<And>k. bs_contains st k \<Longrightarrow> start \<le> k"
    using first_SomeD [OF fl(1)] by (auto simp: bm_contains_def)
  with assms(2) have s1: "1 \<le> start" "in_i64 (start + 1)" "in_i64 start" "plus_1 start = start + 1"
    by (auto simp: in_i64_def plus_1_def i64_min_def intro!: wrap_i64_id)
  have "\<forall>k. bs_contains st k \<longrightarrow> in_i64 k \<and> k < i64_max"
    using assms(2) by (auto simp: in_i64_def i64_min_def)
  from gap_range_end_spec [OF this s1(2)] obtain base where
    base: "gap_range_end st (start + 1) = Some base" "start + 1 \<le> base" "\<not> bs_contains st base"
      "in_i64 base" "\<forall>k. start + 1 \<le> k \<and> k < base \<longrightarrow> bs_contains st k"
    by blast
  define rest where "rest = snd (bm_split_off base st)"
  have rest: "bs_contains rest k \<longleftrightarrow> base \<le> k \<and> bs_contains st k" for k
    by (simp add: rest_def bm_split_off_def)
  have "\<forall>k \<in> set (bs_iter rest). base \<le> k \<and> num_in SeqNum (k + 1)"
    using assms(2) by (simp add: rest)
  with s1 base obtain ns where
    ns: "from_base_and_set SeqNum base rest = Some ns" "ns_wf ns" "bitmap_base ns = base"
      "ns_elems SeqNum ns = Some (filter (\<lambda>k. k < base + 256) (bs_iter rest))"
    using from_base_and_set_spec [of base SeqNum rest] by auto
  have "start \<le> sn \<and> sn < base \<longleftrightarrow> bs_contains st sn \<and> sn < base" for sn
    using start base(5) by (cases "sn = start") auto
  then have "gap_covers \<lparr>gap_reader_id = guid_entity_id rg, gap_writer_id = wid, gap_start = start, gap_list = ns\<rparr> sn
      \<longleftrightarrow> bs_contains st sn \<and> sn < base + 256" for sn
    using ns rest by (auto simp: gap_covers_def)
  then show thesis
    using fl s1 base ns
    by (intro that [of "\<lparr>gap_reader_id = guid_entity_id rg, gap_writer_id = wid, gap_start = start, gap_list = ns\<rparr>"])
      (auto simp: mk_gap_def rest_def [symmetric] gap_ok_def ns_wire_def)
qed

section \<open>Properties\<close>

text \<open>Concrete values for the examples: a participant, a writer, a sample that answers a request, and
  the header of a message.\<close>

definition sample_prefix :: guid_prefix where
  "sample_prefix = GuidPrefix [1, 2, 3, 4, 5, 6, 7, 8, 9, 10, 11, 12]"

lemma wf_sample_prefix [simp]: "wf_prefix sample_prefix"
  by (simp add: wf_prefix_def sample_prefix_def)

definition sample_writer :: guid where
  "sample_writer = GUID sample_prefix EntityId_UNKNOWN"

definition sample_change :: cache_change where
  "sample_change = \<lparr>writer_guid = sample_writer, sequence_number = 7,
     write_options = \<lparr>related_sample_identity = Some \<lparr>si_writer_guid = sample_writer, si_sequence_number = 3\<rparr>,
       source_timestamp = None, to_single_reader = None\<rparr>,
     data_value = Data_Payload \<lparr>representation_identifier = CDR_LE, representation_options = (0, 0),
       sp_value = [65, 66, 67]\<rparr>\<rparr>"

lemma read_message_no_panic:
  assumes "ext_ok x"
  shows "read_message x packet \<noteq> Panic"
  using read_submessages_no_panic [OF assms] read_header_length [OF assms, of LittleEndian packet]
  by (auto simp: read_message_def from_buffer_def slice_def split: option.splits result.splits)



text \<open>The submessages of a message that the writer composes for a change.\<close>

definition hb_flags :: "endianness \<Rightarrow> bool \<Rightarrow> bool \<Rightarrow> u8" where
  "hb_flags e fin live =
     from_endianness e OR (if fin then HEARTBEAT_Final else 0) OR (if live then HEARTBEAT_Liveliness else 0)"

definition ts_flags :: "endianness \<Rightarrow> timestamp option \<Rightarrow> u8" where
  "ts_flags e ts = (if ts = None then from_endianness e OR INFOTS_Invalidate else from_endianness e)"

lemma heartbeat_msg_eq:
  assumes "ext_ok x"
  shows "heartbeat_msg x wid first1 last1 count e rid fin live b =
    mb_push b (heartbeat_create_submessage x
      \<lparr>hb_reader_id = rid, hb_writer_id = wid, first_sn = first1, last_sn = last1, hb_count = count\<rparr> (hb_flags e fin live))"
  by (simp add: heartbeat_msg_def hb_flags_def ext_flags [OF assms] Let_def or.assoc)

lemma hb_flags_mask: "hb_flags e fin live AND 7 = hb_flags e fin live"
  using from_endianness_cases [of e] by (auto simp: hb_flags_def)

lemma ts_msg_eq:
  assumes "ext_ok x"
  shows "mb_submessages (ts_msg x e ts b) = mb_submessages b @
    [mk_submessage KIND_INFO_TS (ts_flags e ts) (case ts of Some _ \<Rightarrow> 8 | None \<Rightarrow> 0)
      (SB_Interpreter (IS_InfoTimestamp ts (ts_flags e ts)))]"
  by (simp add: ts_msg_def mb_push_def ts_flags_def ext_flags [OF assms] Let_def)

lemma header_new_ok [simp]: "wf_prefix p \<Longrightarrow> header_ok (header_new p)" "header_valid (header_new p)"
  by (simp_all add: header_ok_def header_new_def header_valid_def PROTOCOL_RTPS_def)

lemma read_write_message:
  assumes "ext_ok x" and "header_ok (msg_header m)" and "header_valid (msg_header m)"
    and "\<forall>s \<in> set (submessages m). submessage_ok x s"
  shows "read_message x (write_message x e m) = Ok (m\<lparr>submessages := map (received x) (submessages m)\<rparr>)"
proof -
  have "length (write_header x e (msg_header m)) = 20"
    using assms(1,2)
    by (simp add: write_header_def header_ok_def write_protocol_version_def write_vendor_id_def length_elements wire)
  moreover have "read_header x LittleEndian (write_message x e m)
      = Some (msg_header m, concat (map (write_submessage x) (submessages m)))"
    using wire_header.reads_written [OF assms(1,2), of LittleEndian]
    by (simp add: write_message_def write_header_def write_guid_prefix_def)
  ultimately show ?thesis
    using assms read_write_submessages [OF assms(1,4)]
    by (simp add: read_message_def from_buffer_def slice_def write_message_def message_new_def)
qed

lemma data_message_submessages_ok:
  assumes "ext_ok x" and "cc_wire cc" and "wf_prefix dst"
    and "in_i64 first1" and "in_i64 last1" and "in_i32 count"
    and "data_msg x cc rid wguid e (ts_msg x e ts (dst_submessage e dst mb_new)) = Some b"
  shows "\<forall>s \<in> set (mb_submessages (heartbeat_msg x wid first1 last1 count e rid fin live b)). submessage_ok x s"
proof -
  have "submessage_ok x (heartbeat_create_submessage x
      \<lparr>hb_reader_id = rid, hb_writer_id = wid, first_sn = first1, last_sn = last1, hb_count = count\<rparr> (hb_flags e fin live))"
    using assms by (intro heartbeat_create_ok) (simp_all add: heartbeat_ok_def hb_flags_mask)
  moreover have "\<forall>s \<in> set (mb_submessages (ts_msg x e ts (dst_submessage e dst mb_new))). submessage_ok x s"
    using ts_submessage_ok [OF assms(1), of e ts "dst_submessage e dst mb_new"] dst_submessage_ok [OF assms(1,3)]
    by (auto simp: dst_submessage_def mb_push_def mb_new_def Let_def)
  ultimately show ?thesis
    using assms(7) data_msg_ok [OF assms(1,2)]
    by (auto simp: data_msg_eq [OF assms(1)] heartbeat_msg_eq [OF assms(1)] mb_push_def)
qed

text \<open>C22: a message with a valid header, each of whose submessages has a header that agrees with its
  body, is read back from its bytes: the same header and the same submessages in the same order,
  each with the bytes it came from.\<close>

theorem message_roundtrip:
  assumes "ext_ok x" and "header_ok (msg_header m)" and "header_valid (msg_header m)"
    and "\<forall>s \<in> set (submessages m). submessage_ok x s"
  shows "read_message x (write_message x e m) = Ok (m\<lparr>submessages := map (received x) (submessages m)\<rparr>)"
  using assms by (rule read_write_message)

theorem message_roundtrip_witness:
  "read_message sample_ext (write_message sample_ext BigEndian
      \<lparr>msg_header = header_new sample_prefix,
       submessages = [info_destination_create_submessage sample_prefix 1]\<rparr>) =
     Ok \<lparr>msg_header = header_new sample_prefix,
         submessages = [received sample_ext (info_destination_create_submessage sample_prefix 1)]\<rparr>"
proof -
  have "submessage_ok sample_ext (info_destination_create_submessage sample_prefix 1)"
    using dst_submessage_ok [OF ext_ok_sample, of sample_prefix LittleEndian]
    by (simp add: info_destination_create_submessage_def from_endianness_def)
  then show ?thesis
    by (subst message_roundtrip [OF ext_ok_sample]) simp_all
qed

text \<open>C26: a change sent with a destination, a source time stamp and a heartbeat (as the writer composes
  its messages) reaches the reader as exactly these four submessages, whatever the kind of the
  change, as long as it fits one submessage.\<close>

theorem data_message_delivered:
  assumes "ext_ok x" and "cc_wire cc" and "wf_prefix dst" and "wf_prefix src"
    and "in_i64 first1" and "in_i64 last1" and "in_i32 count"
  shows "\<exists>b m. data_msg x cc rid wguid e (ts_msg x e ts (dst_submessage e dst mb_new)) = Some b
    \<and> read_message x (write_message x e
         (add_header_and_build (heartbeat_msg x wid first1 last1 count e rid fin live b) src)) = Ok m
    \<and> msg_header m = header_new src
    \<and> map sm_body (submessages m) =
        [SB_Interpreter (IS_InfoDestination dst (from_endianness e)),
         SB_Interpreter (IS_InfoTimestamp ts (ts_flags e ts)),
         SB_Writer (WS_Data (cc_data x e cc rid wguid) (cc_flags x e cc)),
         SB_Writer (WS_Heartbeat \<lparr>hb_reader_id = rid, hb_writer_id = wid, first_sn = first1, last_sn = last1,
             hb_count = count\<rparr> (hb_flags e fin live))]"
proof -
  obtain b where b: "data_msg x cc rid wguid e (ts_msg x e ts (dst_submessage e dst mb_new)) = Some b"
    by (simp add: data_msg_eq [OF assms(1)])
  let ?m = "add_header_and_build (heartbeat_msg x wid first1 last1 count e rid fin live b) src"
  have "read_message x (write_message x e ?m) = Ok (?m\<lparr>submessages := map (received x) (submessages ?m)\<rparr>)"
    using assms data_message_submessages_ok [OF assms(1-3,5-7) b]
    by (intro read_write_message) (simp_all add: add_header_and_build_def)
  with b show ?thesis
    by (auto simp: data_msg_eq [OF assms(1)] heartbeat_msg_eq [OF assms(1)] ts_msg_eq [OF assms(1)]
        add_header_and_build_def mb_push_def dst_submessage_def mb_new_def mk_submessage_def
        heartbeat_create_submessage_def received_def Let_def)
qed

theorem data_message_delivered_witness:
  "\<exists>b m. data_msg sample_ext sample_change EntityId_UNKNOWN sample_writer LittleEndian
        (ts_msg sample_ext LittleEndian None (dst_submessage LittleEndian sample_prefix mb_new)) = Some b
    \<and> read_message sample_ext (write_message sample_ext LittleEndian
         (add_header_and_build (heartbeat_msg sample_ext EntityId_UNKNOWN 1 7 1 LittleEndian EntityId_UNKNOWN True False b)
           sample_prefix)) = Ok m
    \<and> length (submessages m) = 4"
proof -
  have "cc_wire sample_change"
    by (simp add: cc_wire_def sample_change_def sp_len_serialized_def H_LEN_def sample_identity_ok_def sample_writer_def in_i64_def i64_min_def
        i64_max_def)
  from data_message_delivered [OF ext_ok_sample this wf_sample_prefix wf_sample_prefix, of 1 7 1
      EntityId_UNKNOWN sample_writer LittleEndian None EntityId_UNKNOWN True False]
  obtain b m where bm: "data_msg sample_ext sample_change EntityId_UNKNOWN sample_writer LittleEndian
        (ts_msg sample_ext LittleEndian None (dst_submessage LittleEndian sample_prefix mb_new)) = Some b"
      "read_message sample_ext (write_message sample_ext LittleEndian
         (add_header_and_build (heartbeat_msg sample_ext EntityId_UNKNOWN 1 7 1 LittleEndian EntityId_UNKNOWN True False b)
           sample_prefix)) = Ok m"
      "length (map sm_body (submessages m)) = 4"
    by (auto simp: in_i64_def i64_min_def i64_max_def in_i32_def)
  then show ?thesis
    by auto
qed

text \<open>C28: the GAP built for a non-empty set of irrelevant numbers is read back by the reader as a GAP
  that covers exactly the numbers of the set below the end of its 256-number window; a number that
  the reader may still need is never declared irrelevant.\<close>

theorem gap_message_exact:
  assumes "ext_ok x" and "wf_prefix src" and "\<not> bm_is_empty st"
    and "\<forall>k. bs_contains st k \<longrightarrow> 1 \<le> k \<and> in_i64 (k + 1)"
  shows "\<exists>b m g. gap_msg x st wid e rg mb_new = Some b
    \<and> read_message x (write_message x e (add_header_and_build b src)) = Ok m
    \<and> map sm_body (submessages m) = [SB_Writer (WS_Gap g (from_endianness e))]
    \<and> (\<forall>sn. gap_covers g sn \<longleftrightarrow> bs_contains st sn \<and> sn < bitmap_base (gap_list g) + 256)"
proof -
  obtain g where g: "mk_gap st wid rg = Some g" "gap_ok g"
      "\<And>sn. gap_covers g sn \<longleftrightarrow> bs_contains st sn \<and> sn < bitmap_base (gap_list g) + 256"
    using mk_gap_spec [OF assms(3,4)] by metis
  let ?s = "gap_create_submessage x g (from_endianness e)"
  have "submessage_ok x ?s"
    using gap_create_ok [OF assms(1) g(2)] from_endianness_cases [of e] by auto
  then have "read_message x (write_message x e (add_header_and_build (mb_push mb_new ?s) src))
      = Ok \<lparr>msg_header = header_new src, submessages = [received x ?s]\<rparr>"
    using assms(1,2) by (subst read_write_message) (simp_all add: add_header_and_build_def mb_push_def mb_new_def)
  with g assms(3) show ?thesis
    by (intro exI [of _ "mb_push mb_new ?s"] exI [of _ "\<lparr>msg_header = header_new src, submessages = [received x ?s]\<rparr>"]
        exI [of _ g])
      (simp add: gap_msg_def gap_create_submessage_def received_def mk_submessage_def)
qed

theorem gap_message_exact_witness:
  "\<exists>b m g. gap_msg sample_ext (bs_insert 2 (bs_insert 3 (bs_insert 9 bm_empty))) EntityId_UNKNOWN BigEndian
        sample_writer mb_new = Some b
    \<and> read_message sample_ext (write_message sample_ext BigEndian (add_header_and_build b sample_prefix)) = Ok m
    \<and> map sm_body (submessages m) = [SB_Writer (WS_Gap g 0)]
    \<and> \<not> gap_covers g 4"
proof -
  let ?st = "bs_insert 2 (bs_insert 3 (bs_insert 9 bm_empty))"
  have "\<not> bm_is_empty ?st" "\<forall>k. bs_contains ?st k \<longrightarrow> 1 \<le> k \<and> in_i64 (k + 1)"
    by (auto simp: is_empty_iff in_i64_def i64_min_def i64_max_def)
  from gap_message_exact [OF ext_ok_sample wf_sample_prefix this, of EntityId_UNKNOWN BigEndian sample_writer]
  show ?thesis
    by (auto simp: from_endianness_def)
qed

text \<open>a DATAFRAG with inline QoS is one byte longer than the length its submessage header declares:
  the list is written as an optional value, whose tag \<open>len_serialized\<close> does not count and the
  deserializer does not expect.\<close>

theorem datafrag_inline_qos_length:
  assumes "ext_ok x" and "in_i64 (df_writer_sn d)" and "df_inline_qos d = Some q" and "parameters q \<noteq> []"
  shows "length (write_data_frag x e d) = df_len_serialized d + 1"
  using assms
  by (simp add: write_data_frag_def df_len_serialized_def length_elements length_write_parameter_list wire)

theorem datafrag_inline_qos_length_witness:
  "\<exists>b s. data_frag_msg sample_ext sample_change EntityId_UNKNOWN sample_writer 1 4 7 LittleEndian mb_new = Some b
    \<and> mb_submessages b = [s]
    \<and> length (write_submessage_body sample_ext LittleEndian (sm_body s)) = unat (content_length (sm_header s)) + 1"
proof -
  define d where "d = \<lparr>df_reader_id = EntityId_UNKNOWN, df_writer_id = EntityId_UNKNOWN, df_writer_sn = 7,
    fragment_starting_num = 1, fragments_in_submessage = 1, data_size = 7, fragment_size = 4,
    df_inline_qos = Some \<lparr>parameters = [\<lparr>parameter_id = PID_RELATED_SAMPLE_IDENTITY,
      pvalue = write_sample_identity sample_ext LittleEndian \<lparr>si_writer_guid = sample_writer, si_sequence_number = 3\<rparr>\<rparr>]\<rparr>,
    df_serialized_payload = [0, 1, 0, 0]\<rparr>"
  have "length (write_data_frag sample_ext LittleEndian d) = df_len_serialized d + 1"
    by (rule datafrag_inline_qos_length [OF ext_ok_sample]) (auto simp: d_def in_i64_def i64_min_def i64_max_def)
  moreover have "df_len_serialized d < 65536"
    by (simp add: d_def df_len_serialized_def pl_len_serialized_def param_len_serialized_def param_pad_def SENTINEL_def
        length_sample_identity [OF ext_ok_sample] sample_identity_ok_def sample_writer_def in_i64_def i64_min_def
        i64_max_def)
  moreover have "\<exists>f. data_frag_msg sample_ext sample_change EntityId_UNKNOWN sample_writer 1 4 7 LittleEndian mb_new =
      Some (mb_push mb_new (mk_submessage KIND_DATA_FRAG f (df_len_serialized d) (SB_Writer (WS_DataFrag d f))))"
    by (rule exI [of _ "flags_union sample_ext (flags_union sample_ext (from_endianness LittleEndian) 0) DATAFRAG_InlineQos"])
      (simp add: data_frag_msg_def sample_change_def sp_bytes_slice_eq sp_bytes_def rep_id_to_bytes_def CDR_LE_def
        d_def sample_writer_def Let_def)
  ultimately show ?thesis
    by (auto simp: mb_push_def mb_new_def mk_submessage_def unat_of_nat_u16')
qed

end
