(* ===== verification/Fragment_Assembler.thy ===== *)
theory Fragment_Assembler
  imports Messages
begin

text \<open>
  Reassembly of fragmented samples (src/src/rtps/fragment_assembler.rs): one assembly buffer per
  sequence number, filled by DATAFRAG submessages. The clock reading of an operation is its
  argument. \<^const>\<open>None\<close> is a panic: a failed assertion of a new buffer, a slice whose start is after
  its end (a subtraction that wraps leads there, too), or a bit set outside of the bitmap.

  Shown here: on the fragments of a set of samples, in any order, with repetitions and interleaved,
  the assembler never panics and refines an abstract assembler that only keeps which fragments of
  a sample have arrived; it hands over each sample's original bytes at the fragment that completes
  it. A DATAFRAG whose fragment count reaches beyond the sample panics although the deserializer
  accepts it.
\<close>

section \<open>The assembler\<close>

record assembly_buffer =
  buffer_bytes :: bytes
  fragment_count :: nat
  received_bitmap :: "bool list"
  created_time :: timestamp
  modified_time :: timestamp

definition ab_new :: "ext \<Rightarrow> timestamp \<Rightarrow> data_frag \<Rightarrow> assembly_buffer option" where
  "ab_new x now d =
     (let size = unat (data_size d); count = nat (total_number_of_fragments d)
      in if unat (fragment_size d) \<le> size \<and> 0 < fragment_size d then
           Some \<lparr>buffer_bytes = replicate size 0, fragment_count = count,
                 received_bitmap = bv_from_elem x count False, created_time = now, modified_time = now\<rparr>
         else None)"

text \<open>\<open>copy_from_slice\<close> into the bytes from an index on.\<close>

definition splice :: "bytes \<Rightarrow> nat \<Rightarrow> bytes \<Rightarrow> bytes" where
  "splice buf from bs = take from buf @ bs @ drop (from + length bs) buf"

fun set_bits :: "ext \<Rightarrow> nat list \<Rightarrow> bool list \<Rightarrow> bool list option" where
  "set_bits x [] v = Some v"
| "set_bits x (i # is) v = do { v \<leftarrow> bv_set x v i True; set_bits x is v }"

definition insert_frags ::
    "ext \<Rightarrow> timestamp \<Rightarrow> data_frag \<Rightarrow> u16 \<Rightarrow> assembly_buffer \<Rightarrow> assembly_buffer option" where
  "insert_frags x now d fsize ab =
     (let frag_size = unat fsize;
          frags_in_submessage = unat (fragments_in_submessage d)
      in if fragment_starting_num d < 1 then None
         else let start_frag_from_0 = nat (fragment_starting_num d) - 1;
                  from_byte = start_frag_from_0 * frag_size;
                  to_before_byte = min
                    (from_byte + min (frags_in_submessage * frag_size) (length (df_serialized_payload d)))
                    (length (buffer_bytes ab))
              in if to_before_byte < from_byte then None
                 else do {
                   bm \<leftarrow> set_bits x [start_frag_from_0..<start_frag_from_0 + frags_in_submessage] (received_bitmap ab);
                   Some (ab\<lparr>buffer_bytes := splice (buffer_bytes ab) from_byte
                              (take (to_before_byte - from_byte) (df_serialized_payload d)),
                            received_bitmap := bm, modified_time := now\<rparr>) })"

definition ab_is_complete :: "ext \<Rightarrow> assembly_buffer \<Rightarrow> bool" where
  "ab_is_complete x ab \<longleftrightarrow> bv_all x (received_bitmap ab)"

record fragment_assembler =
  fa_fragment_size :: u16
  assembly_buffers :: "(seqnum, assembly_buffer) btree_map"

definition fa_new :: "u16 \<Rightarrow> fragment_assembler" where
  "fa_new fsize = \<lparr>fa_fragment_size = fsize, assembly_buffers = bm_empty\<rparr>"

text \<open>The completed data, if any, and the assembler after the fragment.\<close>

definition new_datafrag ::
    "ext \<Rightarrow> timestamp \<Rightarrow> fragment_assembler \<Rightarrow> data_frag \<Rightarrow> u8 \<Rightarrow> (dds_data option \<times> fragment_assembler) option" where
  "new_datafrag x now fa d flags =
     do { ab \<leftarrow> (case bm_get (assembly_buffers fa) (df_writer_sn d) of
                Some ab \<Rightarrow> Some ab
              | None \<Rightarrow> ab_new x now d);
          ab \<leftarrow> insert_frags x now d (fa_fragment_size fa) ab;
          if ab_is_complete x ab then
            Some (map_option
                    (\<lambda>sp. if flags_contains x flags DATAFRAG_Key then DisposeByKey NotAliveDisposed sp else Data_Payload sp)
                    (sp_from_bytes (buffer_bytes ab)),
                  fa\<lparr>assembly_buffers := bm_remove (df_writer_sn d) (assembly_buffers fa)\<rparr>)
          else Some (None, fa\<lparr>assembly_buffers := bm_insert (df_writer_sn d) ab (assembly_buffers fa)\<rparr>) }"

definition garbage_collect_before :: "fragment_assembler \<Rightarrow> timestamp \<Rightarrow> fragment_assembler" where
  "garbage_collect_before fa expire_before =
     fa\<lparr>assembly_buffers := bm_retain (\<lambda>_ ab. modified_time ab \<ge> expire_before) (assembly_buffers fa)\<rparr>"

definition is_partially_received :: "fragment_assembler \<Rightarrow> seqnum \<Rightarrow> bool" where
  "is_partially_received fa sn \<longleftrightarrow> bm_contains (assembly_buffers fa) sn"

definition missing_frags_for :: "ext \<Rightarrow> fragment_assembler \<Rightarrow> seqnum \<Rightarrow> fragnum list" where
  "missing_frags_for x fa sn =
     (case bm_get (assembly_buffers fa) sn of
        None \<Rightarrow> []
      | Some ab \<Rightarrow>
          map (\<lambda>f. int (f + 1))
            (filter (\<lambda>f. \<not> (case bv_get x (received_bitmap ab) f of Some b \<Rightarrow> b | None \<Rightarrow> True)) [0..<fragment_count ab]))"

section \<open>Fragments of a sample\<close>

text \<open>The number of fragments of a sample of a size.\<close>

definition nfrags :: "nat \<Rightarrow> nat \<Rightarrow> nat" where
  "nfrags fs sz = sz div fs + (if sz mod fs > 0 then 1 else 0)"

text \<open>The fragments, from 0, that a DATAFRAG holds.\<close>

definition frags_of :: "data_frag \<Rightarrow> nat set" where
  "frags_of d = {nat (fragment_starting_num d) - 1 ..<
     nat (fragment_starting_num d) - 1 + unat (fragments_in_submessage d)}"

text \<open>A DATAFRAG that holds fragments of the sample with these bytes.\<close>

definition frag_of_sample :: "u16 \<Rightarrow> bytes \<Rightarrow> data_frag \<Rightarrow> bool" where
  "frag_of_sample fs bytes d \<longleftrightarrow>
     fragment_size d = fs \<and> 0 < fs \<and> unat (data_size d) = length bytes \<and> unat fs \<le> length bytes
     \<and> 1 \<le> fragment_starting_num d \<and> 0 < fragments_in_submessage d
     \<and> frags_of d \<subseteq> {..<nfrags (unat fs) (length bytes)}
     \<and> df_serialized_payload d =
         drop ((nat (fragment_starting_num d) - 1) * unat fs)
           (take ((nat (fragment_starting_num d) - 1 + unat (fragments_in_submessage d)) * unat fs) bytes)"

lemma nfrags_bounds:
  assumes "0 < fs"
  shows "j < sz \<Longrightarrow> j div fs < nfrags fs sz" and "i < nfrags fs sz \<Longrightarrow> i * fs < sz"
proof -
  have sz: "sz = sz div fs * fs + sz mod fs" "sz mod fs < fs"
    using assms by (simp_all add: div_mult_mod_eq)
  show "j div fs < nfrags fs sz" if "j < sz"
  proof (cases "sz mod fs = 0")
    case True
    then have "j < sz div fs * fs" using that by (metis add_0_right sz(1))
    then show ?thesis by (simp add: nfrags_def True less_mult_imp_div_less)
  next
    case False
    have "j div fs \<le> sz div fs" using that by (simp add: div_le_mono)
    with False show ?thesis by (simp add: nfrags_def)
  qed
  show "i * fs < sz" if "i < nfrags fs sz"
  proof (cases "sz mod fs = 0")
    case True
    then have "i < sz div fs" using that by (simp add: nfrags_def)
    then have "i * fs < sz div fs * fs" using assms by simp
    then show ?thesis using sz by linarith
  next
    case False
    then have "i \<le> sz div fs" using that by (simp add: nfrags_def)
    then have "i * fs \<le> sz div fs * fs" by simp
    then show ?thesis using sz False by linarith
  qed
qed

lemma nfrags_le:
  assumes "0 < fs"
  shows "nfrags fs sz \<le> sz"
proof (cases "nfrags fs sz")
  case (Suc n)
  then have "n * fs < sz" using nfrags_bounds(2) [OF assms] by simp
  moreover have "n \<le> n * fs" using assms by simp
  ultimately show ?thesis using Suc by linarith
qed simp

lemma int_nfrags: "int (nfrags f s) = int s div int f + (if int s mod int f > 0 then 1 else 0)"
  by (simp add: nfrags_def zdiv_int zmod_int [symmetric] del: of_nat_mod)

lemma nfrags_total:
  assumes "unat (fragment_size d) \<noteq> 0"
  shows "nat (total_number_of_fragments d) = nfrags (unat (fragment_size d)) (unat (data_size d))"
proof -
  let ?f = "unat (fragment_size d)" and ?s = "unat (data_size d)"
  have ui: "uint (fragment_size d) = int ?f" "uint (data_size d) = int ?s"
    by simp_all
  have "?s < 2 ^ 32"
    using word32_bounds(2) [of "data_size d"] by (simp flip: of_nat_less_iff [where ?'a = int])
  moreover have "nfrags ?f ?s \<le> ?s"
    using assms by (simp add: nfrags_le)
  ultimately have "in_u32 (int (nfrags ?f ?s))"
    by (simp add: in_u32_def)
  then have "wrap_u32 (int (nfrags ?f ?s)) = int (nfrags ?f ?s)"
    by (rule wrap_u32_id)
  moreover have "\<not> int ?f < 1"
    using assms by linarith
  ultimately have "total_number_of_fragments d = int (nfrags ?f ?s)"
    unfolding total_number_of_fragments_def Let_def ui int_nfrags [symmetric] by (simp only: if_False)
  then show ?thesis
    by simp
qed

section \<open>Inserting fragments\<close>

text \<open>A buffer in which these fragments of a sample have arrived.\<close>

definition ab_holds :: "nat \<Rightarrow> bytes \<Rightarrow> nat set \<Rightarrow> assembly_buffer \<Rightarrow> bool" where
  "ab_holds fs bytes F ab \<longleftrightarrow>
     length (buffer_bytes ab) = length bytes \<and> fragment_count ab = nfrags fs (length bytes)
     \<and> length (received_bitmap ab) = nfrags fs (length bytes)
     \<and> (\<forall>i < nfrags fs (length bytes). received_bitmap ab ! i \<longleftrightarrow> i \<in> F)
     \<and> F \<subseteq> {..<nfrags fs (length bytes)}
     \<and> (\<forall>j < length bytes. j div fs \<in> F \<longrightarrow> buffer_bytes ab ! j = bytes ! j)"

lemma set_bits_range:
  assumes "ext_ok x" "\<forall>i \<in> set is. i < length v"
  shows "\<exists>v'. set_bits x is v = Some v' \<and> length v' = length v
    \<and> (\<forall>i < length v. v' ! i \<longleftrightarrow> i \<in> set is \<or> v ! i)"
  using assms(2)
proof (induction "is" arbitrary: v)
  case (Cons i "is")
  then have "\<forall>j \<in> set is. j < length (v[i := True])" by simp
  from Cons.IH [OF this] Cons.prems show ?case
    by (auto simp: ext_bv [OF assms(1)] nth_list_update)
qed simp

lemma set_bits_None:
  assumes "ext_ok x" "\<exists>i \<in> set is. length v \<le> i"
  shows "set_bits x is v = None"
  using assms(2)
proof (induction "is" arbitrary: v)
  case (Cons i "is")
  show ?case
    using Cons.prems Cons.IH [of "v[i := True]"] by (auto simp: ext_bv [OF assms(1)])
qed simp

lemma insert_frags_None:
  assumes "set_bits x [nat (fragment_starting_num d) - 1..<nat (fragment_starting_num d) - 1
    + unat (fragments_in_submessage d)] (received_bitmap ab) = None"
  shows "insert_frags x now d fs ab = None"
  unfolding insert_frags_def Let_def assms by simp

lemma nth_splice:
  "from + length bs \<le> length buf \<Longrightarrow> j < length buf \<Longrightarrow>
    splice buf from bs ! j = (if from \<le> j \<and> j < from + length bs then bs ! (j - from) else buf ! j)"
  by (auto simp: splice_def nth_append min_def)

lemma length_splice: "from + length bs \<le> length buf \<Longrightarrow> length (splice buf from bs) = length buf"
  by (simp add: splice_def)

lemma div_range:
  assumes "0 < fs"
  shows "(j::nat) div fs \<in> {a..<b} \<longleftrightarrow> a * fs \<le> j \<and> j < b * fs"
  using assms by (auto simp: less_eq_div_iff_mult_less_eq div_less_iff_less_mult)

lemma insert_frags_holds:
  assumes x: "ext_ok x" and ab: "ab_holds (unat fs) bytes F ab" and d: "frag_of_sample fs bytes d"
  obtains ab' where "insert_frags x now d fs ab = Some ab'"
    "ab_holds (unat fs) bytes (F \<union> frags_of d) ab'" "modified_time ab' = now"
proof -
  define s where "s = nat (fragment_starting_num d) - 1"
  define k where "k = unat (fragments_in_submessage d)"
  define f where "f = unat fs"
  define n where "n = nfrags f (length bytes)"
  define to1 where "to1 = min ((s + k) * f) (length bytes)"
  have fpos: "0 < f"
    using d by (simp add: frag_of_sample_def f_def word_less_nat_alt)
  have frags: "frags_of d = {s..<s + k}"
    by (simp add: frags_of_def s_def k_def)
  have kpos: "0 < k"
    using d by (simp add: frag_of_sample_def k_def word_less_nat_alt)
  have sk: "\<forall>i \<in> {s..<s + k}. i < n"
    using d frags by (auto simp: frag_of_sample_def n_def f_def)
  then have "s * f < length bytes"
    using nfrags_bounds(2) [OF fpos, of s "length bytes"] kpos by (simp add: n_def)
  then have from_to: "s * f \<le> to1" "to1 \<le> length bytes"
    by (simp_all add: to1_def)
  have payload: "df_serialized_payload d = drop (s * f) (take to1 bytes)"
    using d by (simp add: frag_of_sample_def s_def k_def f_def to1_def min_def)
  have to_byte: "min (s * f + min (k * f) (length (df_serialized_payload d))) (length (buffer_bytes ab)) = to1"
    using ab from_to by (simp add: payload ab_holds_def f_def min_def to1_def add_mult_distrib)
  obtain bm where bm: "set_bits x [s..<s + k] (received_bitmap ab) = Some bm"
      "length bm = n" "\<forall>i < n. bm ! i \<longleftrightarrow> i \<in> {s..<s + k} \<or> received_bitmap ab ! i"
    using set_bits_range [OF x, of "[s..<s + k]" "received_bitmap ab"] sk ab
    by (auto simp: ab_holds_def n_def f_def)
  have "\<not> fragment_starting_num d < 1"
    using d by (simp add: frag_of_sample_def)
  then have ins: "insert_frags x now d fs ab = Some (ab\<lparr>buffer_bytes :=
      splice (buffer_bytes ab) (s * f) (drop (s * f) (take to1 bytes)), received_bitmap := bm, modified_time := now\<rparr>)"
    unfolding insert_frags_def Let_def s_def [symmetric] k_def [symmetric] f_def [symmetric] to_byte
    using bm(1) from_to by (simp add: payload)
  have "splice (buffer_bytes ab) (s * f) (drop (s * f) (take to1 bytes)) ! j = bytes ! j"
    if "j < length bytes" "j div f \<in> F \<union> {s..<s + k}" for j
    using that ab from_to div_range [OF fpos, of j s "s + k"]
    by (auto simp: nth_splice ab_holds_def f_def to1_def min_def split: if_splits)
  then show thesis
    using that [OF ins] ab bm frags sk from_to
    by (auto simp: ab_holds_def n_def f_def length_splice)
qed

lemma ab_new_holds:
  assumes "ext_ok x" "frag_of_sample fs bytes d"
  obtains ab where "ab_new x now d = Some ab" "ab_holds (unat fs) bytes {} ab"
proof -
  have "unat (fragment_size d) \<noteq> 0"
    using assms(2) by (simp add: frag_of_sample_def word_less_nat_alt)
  from nfrags_total [OF this] assms show thesis
    by (intro that) (auto simp: ab_new_def frag_of_sample_def ab_holds_def ext_bv word_less_nat_alt Let_def)
qed

lemma ab_complete_iff:
  assumes "ext_ok x" "ab_holds fs bytes F ab"
  shows "ab_is_complete x ab \<longleftrightarrow> F = {..<nfrags fs (length bytes)}"
  using assms(2) by (auto simp: ab_is_complete_def ext_bv [OF assms(1)] ab_holds_def all_set_conv_all_nth)

lemma ab_complete_bytes:
  assumes "0 < fs" "ab_holds fs bytes {..<nfrags fs (length bytes)} ab"
  shows "buffer_bytes ab = bytes"
  using assms nfrags_bounds(1) [OF assms(1)] by (auto simp: ab_holds_def intro: nth_equalityI)

section \<open>An abstract assembler\<close>

text \<open>
  The specification keeps, for every sequence number, which fragments have arrived since the sample
  was last handed over. \<open>samples\<close> gives the bytes of each sample.
\<close>

type_synonym frag_event = "timestamp \<times> data_frag \<times> u8"

definition handed_over :: "ext \<Rightarrow> u8 \<Rightarrow> bytes \<Rightarrow> dds_data option" where
  "handed_over x flags bytes =
     map_option (\<lambda>sp. if flags_contains x flags DATAFRAG_Key then DisposeByKey NotAliveDisposed sp else Data_Payload sp)
       (sp_from_bytes bytes)"

fun reassembly_spec ::
    "ext \<Rightarrow> u16 \<Rightarrow> (seqnum \<Rightarrow> bytes) \<Rightarrow> frag_event \<Rightarrow> (seqnum \<Rightarrow> nat set) \<Rightarrow> dds_data option \<times> (seqnum \<Rightarrow> nat set)" where
  "reassembly_spec x fs samples (now, d, flags) arrived =
     (let sn = df_writer_sn d; F = arrived sn \<union> frags_of d
      in if F = {..<nfrags (unat fs) (length (samples sn))}
         then (handed_over x flags (samples sn), arrived(sn := {}))
         else (None, arrived(sn := F)))"

fun fa_step :: "ext \<Rightarrow> frag_event \<Rightarrow> fragment_assembler \<Rightarrow> (dds_data option \<times> fragment_assembler) option" where
  "fa_step x (now, d, flags) fa = new_datafrag x now fa d flags"

fun frag_event_ok :: "ext \<Rightarrow> u16 \<Rightarrow> (seqnum \<Rightarrow> bytes) \<Rightarrow> frag_event \<Rightarrow> bool" where
  "frag_event_ok x fs samples (now, d, flags) \<longleftrightarrow> ext_ok x \<and> frag_of_sample fs (samples (df_writer_sn d)) d"

definition fa_rel :: "u16 \<Rightarrow> (seqnum \<Rightarrow> bytes) \<Rightarrow> fragment_assembler \<Rightarrow> (seqnum \<Rightarrow> nat set) \<Rightarrow> bool" where
  "fa_rel fs samples fa arrived \<longleftrightarrow> fa_fragment_size fa = fs
     \<and> (\<forall>sn. case bm_get (assembly_buffers fa) sn of
               None \<Rightarrow> arrived sn = {}
             | Some ab \<Rightarrow> ab_holds (unat fs) (samples sn) (arrived sn) ab \<and> arrived sn \<noteq> {}
                 \<and> arrived sn \<noteq> {..<nfrags (unat fs) (length (samples sn))})"

lemma fa_rel_new: "fa_rel fs samples (fa_new fs) (\<lambda>_. {})"
  by (simp add: fa_rel_def fa_new_def)

lemma fa_relD:
  assumes "fa_rel fs samples fa arrived"
  shows "case bm_get (assembly_buffers fa) sn of
       None \<Rightarrow> arrived sn = {}
     | Some ab \<Rightarrow> ab_holds (unat fs) (samples sn) (arrived sn) ab \<and> arrived sn \<noteq> {}
         \<and> arrived sn \<noteq> {..<nfrags (unat fs) (length (samples sn))}"
  using assms unfolding fa_rel_def by blast

lemma fa_rel_insert:
  assumes "fa_rel fs samples fa arrived" "ab_holds (unat fs) (samples sn) F ab" "F \<noteq> {}"
    "F \<noteq> {..<nfrags (unat fs) (length (samples sn))}"
  shows "fa_rel fs samples (fa\<lparr>assembly_buffers := bm_insert sn ab (assembly_buffers fa)\<rparr>) (arrived(sn := F))"
  using assms by (simp add: fa_rel_def cong: option.case_cong)

lemma fa_rel_remove:
  assumes "fa_rel fs samples fa arrived"
  shows "fa_rel fs samples (fa\<lparr>assembly_buffers := bm_remove sn (assembly_buffers fa)\<rparr>) (arrived(sn := {}))"
  using assms by (simp add: fa_rel_def cong: option.case_cong)

lemma frags_of_nonempty: "frag_of_sample fs bytes d \<Longrightarrow> frags_of d \<noteq> {}"
  by (auto simp: frag_of_sample_def frags_of_def word_less_nat_alt)

lemma fa_simulates:
  assumes R: "fa_rel fs samples fa arrived" and ok: "frag_event_ok x fs samples e"
  shows "\<exists>fa'. fa_step x e fa = Some (fst (reassembly_spec x fs samples e arrived), fa')
    \<and> fa_rel fs samples fa' (snd (reassembly_spec x fs samples e arrived))"
proof -
  obtain now d flags where e: "e = (now, d, flags)" by (cases e)
  define sn where "sn = df_writer_sn d"
  have x: "ext_ok x" and d: "frag_of_sample fs (samples sn) d"
    using ok by (simp_all add: e sn_def)
  have fs: "0 < unat fs" "fa_fragment_size fa = fs"
    using d R by (simp_all add: frag_of_sample_def word_less_nat_alt fa_rel_def)
  obtain ab where ab: "(case bm_get (assembly_buffers fa) sn of Some ab \<Rightarrow> Some ab | None \<Rightarrow> ab_new x now d) = Some ab"
      "ab_holds (unat fs) (samples sn) (arrived sn) ab"
  proof (cases "bm_get (assembly_buffers fa) sn")
    case None
    with fa_relD [OF R, of sn] have "arrived sn = {}" by simp
    with None show thesis using ab_new_holds [OF x d] that by (metis option.simps(4))
  next
    case (Some ab)
    with fa_relD [OF R, of sn] show thesis using that by simp
  qed
  obtain ab' where ab': "insert_frags x now d fs ab = Some ab'"
      "ab_holds (unat fs) (samples sn) (arrived sn \<union> frags_of d) ab'"
    using insert_frags_holds [OF x ab(2) d] by blast
  define whole where "whole \<longleftrightarrow> arrived sn \<union> frags_of d = {..<nfrags (unat fs) (length (samples sn))}"
  have complete: "ab_is_complete x ab' \<longleftrightarrow> whole"
    using ab_complete_iff [OF x ab'(2)] by (simp add: whole_def)
  have bytes: "whole \<Longrightarrow> buffer_bytes ab' = samples sn"
    using ab_complete_bytes [OF fs(1)] ab'(2) by (simp add: whole_def)
  have "new_datafrag x now fa d flags =
      (if whole then Some (handed_over x flags (samples sn), fa\<lparr>assembly_buffers := bm_remove sn (assembly_buffers fa)\<rparr>)
       else Some (None, fa\<lparr>assembly_buffers := bm_insert sn ab' (assembly_buffers fa)\<rparr>))"
    using ab(1) ab'(1) fs(2) bytes complete by (simp add: new_datafrag_def handed_over_def flip: sn_def)
  moreover have "reassembly_spec x fs samples e arrived =
      (if whole then (handed_over x flags (samples sn), arrived(sn := {}))
       else (None, arrived(sn := arrived sn \<union> frags_of d)))"
    by (simp add: e Let_def whole_def flip: sn_def)
  moreover have "\<not> whole \<Longrightarrow> arrived sn \<union> frags_of d \<noteq> {..<nfrags (unat fs) (length (samples sn))}"
    by (simp add: whole_def)
  ultimately show ?thesis
    using fa_rel_insert [OF R ab'(2)] fa_rel_remove [OF R, of sn] frags_of_nonempty [OF d]
    by (cases whole) (simp_all add: e)
qed

interpretation assembler: simulation "fa_step x" "reassembly_spec x fs samples" "fa_rel fs samples"
    "frag_event_ok x fs samples" for x fs samples
  by unfold_locales (rule fa_simulates)

lemma missing_frags_rel:
  assumes "ext_ok x" "fa_rel fs samples fa arrived" "arrived sn \<noteq> {}"
  shows "missing_frags_for x fa sn =
    map (\<lambda>i. int i + 1) (filter (\<lambda>i. i \<notin> arrived sn) [0..<nfrags (unat fs) (length (samples sn))])"
proof -
  obtain ab where ab: "bm_get (assembly_buffers fa) sn = Some ab" "ab_holds (unat fs) (samples sn) (arrived sn) ab"
    using fa_relD [OF assms(2), of sn] assms(3) by (auto split: option.splits)
  then have "filter (\<lambda>f. \<not> (case bv_get x (received_bitmap ab) f of Some b \<Rightarrow> b | None \<Rightarrow> True)) [0..<fragment_count ab]
      = filter (\<lambda>i. i \<notin> arrived sn) [0..<nfrags (unat fs) (length (samples sn))]"
    by (auto simp: ab_holds_def ext_bv [OF assms(1)] intro!: filter_cong)
  with ab show ?thesis
    by (simp add: missing_frags_for_def add.commute)
qed

section \<open>From the writer's fragments to the sample\<close>

text \<open>The DATAFRAG that the message builder makes for one fragment of a sample without inline QoS.\<close>

definition cc_frag :: "cache_change \<Rightarrow> entity_id \<Rightarrow> guid \<Rightarrow> bytes \<Rightarrow> u16 \<Rightarrow> u32 \<Rightarrow> fragnum \<Rightarrow> data_frag" where
  "cc_frag cc rid wguid bytes fs sz k =
     \<lparr>df_reader_id = rid, df_writer_id = guid_entity_id wguid, df_writer_sn = sequence_number cc,
      fragment_starting_num = k, fragments_in_submessage = 1, data_size = sz, fragment_size = fs,
      df_inline_qos = None,
      df_serialized_payload = drop ((nat k - 1) * unat fs) (take (nat k * unat fs) bytes)\<rparr>"

text \<open>A sample that can be sent in fragments of a size.\<close>

definition frag_sendable :: "cache_change \<Rightarrow> serialized_payload \<Rightarrow> u16 \<Rightarrow> u32 \<Rightarrow> bool" where
  "frag_sendable cc sp fs sz \<longleftrightarrow>
     data_value cc = Data_Payload sp \<and> related_sample_identity (write_options cc) = None
     \<and> 1 \<le> sequence_number cc \<and> in_i64 (sequence_number cc)
     \<and> unat sz = length (sp_bytes sp) \<and> 0 < fs \<and> unat fs \<le> unat sz \<and> unat fs + 100 < 2 ^ 16"

lemma data_frag_msg_eq:
  assumes "ext_ok x" "frag_sendable cc sp fs sz" "1 \<le> k"
  shows "data_frag_msg x cc rid wguid k fs sz e b =
    Some (mb_push b (mk_submessage KIND_DATA_FRAG (from_endianness e)
      (df_len_serialized (cc_frag cc rid wguid (sp_bytes sp) fs sz k))
      (SB_Writer (WS_DataFrag (cc_frag cc rid wguid (sp_bytes sp) fs sz k) (from_endianness e)))))"
proof -
  have "take (min (nat k * unat fs) (unat sz)) (sp_bytes sp) = take (nat k * unat fs) (sp_bytes sp)"
    using assms(2) by (simp add: frag_sendable_def min_def)
  with assms show ?thesis
    by (simp add: data_frag_msg_def frag_sendable_def sp_bytes_slice_eq cc_frag_def ext_flags Let_def)
qed

lemma cc_frag_of_sample:
  assumes "frag_sendable cc sp fs sz" "k \<in> {1..int (nfrags (unat fs) (unat sz))}"
  shows "frag_of_sample fs (sp_bytes sp) (cc_frag cc rid wguid (sp_bytes sp) fs sz k)"
    and "frags_of (cc_frag cc rid wguid (sp_bytes sp) fs sz k) = {nat k - 1}"
  using assms by (auto simp: frag_of_sample_def frag_sendable_def cc_frag_def frags_of_def nat_le_iff)

lemma cc_frag_ok:
  assumes "ext_ok x" "frag_sendable cc sp fs sz" "k \<in> {1..int (nfrags (unat fs) (unat sz))}"
  shows "submessage_ok x (mk_submessage KIND_DATA_FRAG (from_endianness e)
      (df_len_serialized (cc_frag cc rid wguid (sp_bytes sp) fs sz k))
      (SB_Writer (WS_DataFrag (cc_frag cc rid wguid (sp_bytes sp) fs sz k) (from_endianness e))))"
proof -
  let ?d = "cc_frag cc rid wguid (sp_bytes sp) fs sz k"
  have "k \<le> total_number_of_fragments ?d"
    using nfrags_total [of ?d] assms(2,3) by (auto simp: cc_frag_def frag_sendable_def word_less_nat_alt)
  moreover have "1 \<le> fs"
    using assms(2) by (simp add: frag_sendable_def word_less_nat_alt word_le_nat_alt)
  moreover have "unat fs \<le> unat sz"
    using assms(2) by (simp add: frag_sendable_def)
  then have "uint fs \<le> uint sz"
    by (metis of_nat_le_iff of_nat_unat)
  moreover have "\<not> flag_set (from_endianness e) DATAFRAG_InlineQos"
    using from_endianness_cases [of e] by (auto simp: flag_set_def)
  ultimately have "data_frag_ok ?d (from_endianness e)"
    using assms(2,3) by (simp add: data_frag_ok_def cc_frag_def frag_sendable_def)
  moreover have "nat k * unat fs - (nat k - 1) * unat fs = unat fs"
    using assms(3) by (cases "nat k") auto
  then have "length (df_serialized_payload ?d) \<le> unat fs"
    by (simp add: cc_frag_def)
  then have "df_len_serialized ?d < 65536"
    using assms(2) by (simp add: df_len_serialized_def cc_frag_def frag_sendable_def)
  moreover have "length (write_data_frag x e ?d) = df_len_serialized ?d"
    using assms(1,2) by (simp add: write_data_frag_def df_len_serialized_def cc_frag_def frag_sendable_def
        length_elements wire)
  ultimately show ?thesis
    using from_endianness_cases [of e]
    by (intro submessage_ok_mk) (auto simp: df_len_serialized_def)
qed

text \<open>A packet with one fragment, and the fragments that a received packet holds.\<close>

definition send_frag ::
    "ext \<Rightarrow> endianness \<Rightarrow> guid_prefix \<Rightarrow> cache_change \<Rightarrow> entity_id \<Rightarrow> guid \<Rightarrow> u16 \<Rightarrow> u32 \<Rightarrow> fragnum \<Rightarrow> bytes option" where
  "send_frag x e src cc rid wguid fs sz k =
     map_option (\<lambda>b. write_message x e (add_header_and_build b src)) (data_frag_msg x cc rid wguid k fs sz e mb_new)"

definition packet_frags :: "ext \<Rightarrow> timestamp \<Rightarrow> bytes \<Rightarrow> frag_event list" where
  "packet_frags x now packet =
     (case read_message x packet of
        Ok m \<Rightarrow> concat (map (\<lambda>s. case sm_body s of SB_Writer (WS_DataFrag d f) \<Rightarrow> [(now, d, f)] | _ \<Rightarrow> []) (submessages m))
      | _ \<Rightarrow> [])"

lemma packet_frags_sent:
  assumes "ext_ok x" "wf_prefix src" "frag_sendable cc sp fs sz" "k \<in> {1..int (nfrags (unat fs) (unat sz))}"
  shows "\<exists>p. send_frag x e src cc rid wguid fs sz k = Some p
    \<and> packet_frags x now p = [(now, cc_frag cc rid wguid (sp_bytes sp) fs sz k, from_endianness e)]"
proof -
  let ?s = "mk_submessage KIND_DATA_FRAG (from_endianness e)
      (df_len_serialized (cc_frag cc rid wguid (sp_bytes sp) fs sz k))
      (SB_Writer (WS_DataFrag (cc_frag cc rid wguid (sp_bytes sp) fs sz k) (from_endianness e)))"
  let ?m = "add_header_and_build (mb_push mb_new ?s) src"
  have "read_message x (write_message x e ?m) = Ok (?m\<lparr>submessages := [received x ?s]\<rparr>)"
    using assms cc_frag_ok [OF assms(1,3,4)]
    by (subst read_write_message) (simp_all add: add_header_and_build_def mb_push_def mb_new_def)
  then have "packet_frags x now (write_message x e ?m)
      = [(now, cc_frag cc rid wguid (sp_bytes sp) fs sz k, from_endianness e)]"
    by (simp add: packet_frags_def received_def mk_submessage_def)
  then show ?thesis
    using data_frag_msg_eq [OF assms(1,3)] assms(4) by (simp add: send_frag_def)
qed

lemma run_spec_singletons:
  assumes "\<forall>(now, d, f) \<in> set es. df_writer_sn d = sn \<and> f = flags"
    and "map (\<lambda>(now, d, f). frags_of d) es = map (\<lambda>i. {i}) is"
    and "distinct is" "set is \<inter> arrived sn = {}" "is \<noteq> []"
    and "set is \<union> arrived sn = {..<nfrags (unat fs) (length (samples sn))}"
  shows "run_spec (reassembly_spec x fs samples) es arrived =
    (replicate (length is - 1) None @ [handed_over x flags (samples sn)], arrived(sn := {}))"
  using assms
proof (induction es arbitrary: "is" arrived)
  case (Cons e es)
  obtain now d f where e: "e = (now, d, f)" by (cases e)
  obtain i js where js: "is = i # js" using Cons.prems(5) by (cases "is") auto
  have d: "df_writer_sn d = sn" "f = flags" "frags_of d = {i}"
    using Cons.prems(1,2) by (auto simp: e js)
  show ?case
  proof (cases "js = []")
    case True
    then have "es = []" using Cons.prems(2) by (simp add: js)
    with True show ?thesis using Cons.prems(4,6) by (simp add: e d js Let_def Un_commute fun_eq_iff)
  next
    case False
    then obtain j where j: "j \<in> set js" by (cases js) auto
    then have "j \<in> set is \<union> arrived sn" by (simp add: js)
    then have "j \<in> {..<nfrags (unat fs) (length (samples sn))}" unfolding Cons.prems(6) .
    moreover have "j \<notin> arrived sn \<union> {i}"
      using Cons.prems(3,4) j by (auto simp: js)
    ultimately have "arrived sn \<union> {i} \<noteq> {..<nfrags (unat fs) (length (samples sn))}"
      by blast
    moreover have "run_spec (reassembly_spec x fs samples) es (arrived(sn := arrived sn \<union> {i})) =
        (replicate (length js - 1) None @ [handed_over x flags (samples sn)], (arrived(sn := arrived sn \<union> {i}))(sn := {}))"
      using Cons.prems False by (intro Cons.IH) (auto simp: js e)
    moreover have "replicate (length js) None = (None :: dds_data option) # replicate (length js - 1) None"
      using False by (cases js) auto
    ultimately show ?thesis
      by (simp add: e d js Let_def fun_eq_iff)
  qed
qed simp

lemma frag_indices: "(\<lambda>k. nat k - 1) ` {1..int m} = {..<m}"
proof (intro equalityI subsetI)
  fix i assume "i \<in> {..<m}"
  then have "int i + 1 \<in> {1..int m}" "i = nat (int i + 1) - 1"
    by auto
  then show "i \<in> (\<lambda>k. nat k - 1) ` {1..int m}"
    by blast
qed auto

lemma frag_run_spec:
  assumes "frag_sendable cc sp fs sz" "distinct ks" "set ks = {1..int (nfrags (unat fs) (unat sz))}"
  shows "run_spec (reassembly_spec x fs (\<lambda>_. sp_bytes sp))
      (map (\<lambda>k. (now, cc_frag cc rid wguid (sp_bytes sp) fs sz k, flags)) ks) (\<lambda>_. {}) =
    (replicate (length ks - 1) None @ [handed_over x flags (sp_bytes sp)], \<lambda>_. {})"
proof -
  let ?is = "map (\<lambda>k. nat k - 1) ks"
  have "inj_on (\<lambda>k. nat k - 1) (set ks)"
    using assms(3) by (auto simp: inj_on_def)
  then have "distinct ?is"
    using assms(2) by (simp add: distinct_map)
  moreover have all: "set ?is = {..<nfrags (unat fs) (length (sp_bytes sp))}"
    using assms(1,3) frag_indices by (simp add: frag_sendable_def)
  moreover have "1 \<le> nfrags (unat fs) (length (sp_bytes sp))"
    using assms(1) nfrags_bounds(1) [of "unat fs" 0 "unat sz"]
    by (auto simp: frag_sendable_def word_less_nat_alt)
  with all have "?is \<noteq> []"
    by (metis empty_iff lessThan_iff less_le_trans list.set(1) zero_less_one)
  moreover have "map (\<lambda>(now, d, f). frags_of d) (map (\<lambda>k. (now, cc_frag cc rid wguid (sp_bytes sp) fs sz k, flags)) ks)
      = map (\<lambda>i. {i}) ?is"
    using cc_frag_of_sample(2) [OF assms(1)] assms(3) by simp
  ultimately show ?thesis
    using run_spec_singletons [of "map (\<lambda>k. (now, cc_frag cc rid wguid (sp_bytes sp) fs sz k, flags)) ks"
        "sequence_number cc" flags ?is "\<lambda>_. {}" fs "\<lambda>_. sp_bytes sp" x]
    by (simp add: cc_frag_def fun_upd_idem)
qed

section \<open>Properties\<close>





text \<open>C40: a DATAFRAG that starts inside its sample but whose fragment count reaches beyond the last
  fragment is accepted by the deserializer and makes the receiving assembler panic, since the
  deserializer checks only the starting number.\<close>

theorem datafrag_overrun_panics:
  assumes "ext_ok x" and "data_frag_ok d flags"
    and "total_number_of_fragments d < fragment_starting_num d - 1 + int (unat (fragments_in_submessage d))"
  shows "deserialize_data_frag x (write_data_frag x (endianness_flag flags) d) flags = Some d
    \<and> new_datafrag x now (fa_new (fragment_size d)) d flags = None"
proof -
  let ?s = "nat (fragment_starting_num d) - 1" and ?k = "unat (fragments_in_submessage d)"
  let ?n = "nat (total_number_of_fragments d)"
  have "1 \<le> fragment_starting_num d" "fragment_starting_num d \<le> total_number_of_fragments d"
    using assms(2) by (simp_all add: data_frag_ok_def)
  with assms(3) have "?s < ?n" "?n < ?s + ?k"
    by linarith+
  then have "set_bits x [?s..<?s + ?k] (replicate ?n False) = None"
    by (intro set_bits_None [OF assms(1)]) auto
  then have "new_datafrag x now (fa_new (fragment_size d)) d flags = None"
    using assms(1)
    by (simp add: new_datafrag_def fa_new_def ab_new_def ext_bv Let_def insert_frags_None)
  then show ?thesis
    using deserialize_write_data_frag [OF assms(1,2)] by simp
qed

theorem datafrag_overrun_panics_witness:
  "new_datafrag sample_ext Timestamp_ZERO (fa_new 4)
     \<lparr>df_reader_id = EntityId_UNKNOWN, df_writer_id = EntityId_UNKNOWN, df_writer_sn = 1, fragment_starting_num = 1,
      fragments_in_submessage = 3, data_size = 5, fragment_size = 4, df_inline_qos = None,
      df_serialized_payload = []\<rparr> 0 = None"
  using datafrag_overrun_panics [OF ext_ok_sample, of "\<lparr>df_reader_id = EntityId_UNKNOWN, df_writer_id = EntityId_UNKNOWN,
      df_writer_sn = 1, fragment_starting_num = 1, fragments_in_submessage = 3, data_size = 5, fragment_size = 4,
      df_inline_qos = None, df_serialized_payload = []\<rparr>" 0 Timestamp_ZERO]
  by (simp add: data_frag_ok_def flag_set_def in_i64_def i64_min_def i64_max_def total_number_of_fragments_def wrap_u32_def)

end
