(* ===== verification/Reader_Proxy.thy ===== *)
theory Reader_Proxy
  imports Messages Qos
begin

text \<open>
  The writer's view of a matched reader (src/src/rtps/rtps_reader_proxy.rs): what the reader has
  acknowledged, which changes are still to be sent to it, which ones it is told to skip (pending
  GAP), and which fragments it has asked for. \<^const>\<open>None\<close> is a panic of the bit vector of requested
  fragments, or an iteration that does not end.

  Shown here: an ACKNACK leaves exactly the requested and not yet acknowledged numbers that the
  writer has to be sent; the fragment iterator lists exactly the set bits in order; a NACKFRAG for
  a sample without recorded requests records nothing.
\<close>

datatype ack_submessage = Ack_AckNack ack_nack | Ack_NackFrag nack_frag

fun ack_writer_id :: "ack_submessage \<Rightarrow> entity_id" where
  "ack_writer_id (Ack_AckNack a) = an_writer_id a"
| "ack_writer_id (Ack_NackFrag a) = nf_writer_id a"

record rtps_reader_proxy =
  remote_reader_guid :: guid
  rp_remote_group_entity_id :: entity_id
  rp_unicast_locator_list :: "locator list"
  rp_multicast_locator_list :: "locator list"
  expects_in_line_qos :: bool
  is_active :: bool
  all_acked_before :: seqnum
  unsent_changes :: "seqnum btree_set"
  pending_gap :: "seqnum btree_set"
  repair_mode :: bool
  rp_qos :: qos_policies
  frags_requested :: "(seqnum, bool list) btree_map"

definition rp_new :: "guid \<Rightarrow> qos_policies \<Rightarrow> bool \<Rightarrow> rtps_reader_proxy" where
  "rp_new g qos expects = \<lparr>
     remote_reader_guid = g,
     rp_remote_group_entity_id = EntityId_UNKNOWN,
     rp_unicast_locator_list = [],
     rp_multicast_locator_list = [],
     expects_in_line_qos = expects,
     is_active = True,
     all_acked_before = sn_zero,
     unsent_changes = bm_empty,
     pending_gap = bm_empty,
     repair_mode = False,
     rp_qos = qos,
     frags_requested = bm_empty\<rparr>"

definition not_loopback :: "locator \<Rightarrow> bool" where
  "not_loopback l \<longleftrightarrow> \<not> is_loopback l"

definition rp_update :: "rtps_reader_proxy \<Rightarrow> rtps_reader_proxy \<Rightarrow> rtps_reader_proxy" where
  "rp_update rp update =
     (let rp1 = (if rp_unicast_locator_list rp \<noteq> rp_unicast_locator_list update
                    \<or> rp_multicast_locator_list rp \<noteq> rp_multicast_locator_list update
                 then rp\<lparr>rp_unicast_locator_list := filter not_loopback (rp_unicast_locator_list update),
                         rp_multicast_locator_list := rp_multicast_locator_list update\<rparr>
                 else rp);
          rp2 = rp1\<lparr>expects_in_line_qos := expects_in_line_qos update\<rparr>
      in if rp_qos rp2 \<noteq> rp_qos update then rp2\<lparr>rp_qos := rp_qos update\<rparr> else rp2)"

definition unsent_changes_iter :: "rtps_reader_proxy \<Rightarrow> seqnum list" where
  "unsent_changes_iter rp = bs_iter (unsent_changes rp)"

definition first_unsent_change :: "rtps_reader_proxy \<Rightarrow> seqnum option" where
  "first_unsent_change rp = (case unsent_changes_iter rp of [] \<Rightarrow> None | sn # _ \<Rightarrow> Some sn)"

definition mark_change_sent :: "seqnum \<Rightarrow> rtps_reader_proxy \<Rightarrow> rtps_reader_proxy" where
  "mark_change_sent sn rp = rp\<lparr>unsent_changes := bm_remove sn (unsent_changes rp)\<rparr>"

definition remove_from_unsent_set_all_before :: "seqnum \<Rightarrow> rtps_reader_proxy \<Rightarrow> rtps_reader_proxy" where
  "remove_from_unsent_set_all_before before_sn rp =
     rp\<lparr>unsent_changes := snd (bm_split_off before_sn (unsent_changes rp))\<rparr>"

text \<open>A proxy for a reader of the same participant, given the participant's own user traffic locators.\<close>

definition rp_from_reader :: "guid \<Rightarrow> qos_policies \<Rightarrow> locator list \<Rightarrow> locator list \<Rightarrow> rtps_reader_proxy" where
  "rp_from_reader g qos ul ml =
     (rp_new g qos False)\<lparr>rp_unicast_locator_list := ul, rp_multicast_locator_list := ml\<rparr>"

definition rp_discovered_or_default :: "locator list \<Rightarrow> locator list \<Rightarrow> locator list" where
  "rp_discovered_or_default drd dflt = (if drd = [] then dflt else drd)"

text \<open>
  \<open>from_discovered_reader_data\<close>, on the fields it reads: the GUID, the locator lists and the inline
  QoS wish of the discovered reader's \<open>reader_proxy\<close>, and the QoS of its subscription.
\<close>

definition rp_from_discovered_reader_data ::
    "guid \<Rightarrow> locator list \<Rightarrow> locator list \<Rightarrow> bool \<Rightarrow> qos_policies \<Rightarrow> locator list \<Rightarrow> locator list \<Rightarrow> rtps_reader_proxy" where
  "rp_from_discovered_reader_data g ul ml expects qos default_ul default_ml =
     (rp_new g qos expects)\<lparr>
       rp_unicast_locator_list := filter not_loopback (rp_discovered_or_default ul default_ul),
       rp_multicast_locator_list := rp_discovered_or_default ml default_ml\<rparr>"

definition rp_handle_ack_nack :: "ack_submessage \<Rightarrow> seqnum \<Rightarrow> rtps_reader_proxy \<Rightarrow> rtps_reader_proxy option" where
  "rp_handle_ack_nack ack last_available rp =
     (case ack of
        Ack_AckNack acknack \<Rightarrow>
          let new_all_acked_before = bitmap_base (reader_sn_state acknack);
              rp1 = (remove_from_unsent_set_all_before new_all_acked_before rp)
                      \<lparr>all_acked_before := new_all_acked_before\<rparr>
          in do { nacks \<leftarrow> ns_elems SeqNum (reader_sn_state acknack);
                  let rp2 = rp1\<lparr>unsent_changes := bs_extend nacks (unsent_changes rp1)\<rparr>;
                      rp3 = (case bm_last (unsent_changes rp2) of
                               Some (high, _) \<Rightarrow>
                                 if high > last_available
                                 then rp2\<lparr>unsent_changes := fst (bm_split_off (plus_1 last_available) (unsent_changes rp2))\<rparr>
                                 else rp2
                             | None \<Rightarrow> rp2)
                  in Some (rp3\<lparr>pending_gap := snd (bm_split_off (all_acked_before rp3) (pending_gap rp3))\<rparr>) }
      | Ack_NackFrag _ \<Rightarrow> Some rp)"

definition insert_pending_gap :: "seqnum \<Rightarrow> rtps_reader_proxy \<Rightarrow> rtps_reader_proxy" where
  "insert_pending_gap sn rp = rp\<lparr>pending_gap := bs_insert sn (pending_gap rp)\<rparr>"

definition set_pending_gap_up_to :: "seqnum \<Rightarrow> rtps_reader_proxy \<Rightarrow> rtps_reader_proxy option" where
  "set_pending_gap_up_to last_gap_sn rp =
     map_option (\<lambda>sns. rp\<lparr>pending_gap := bs_extend sns (pending_gap rp)\<rparr>)
       (sn_range_collect (range_inclusive (sn_new 1) last_gap_sn))"

definition notify_new_cache_change :: "seqnum \<Rightarrow> rtps_reader_proxy \<Rightarrow> rtps_reader_proxy" where
  "notify_new_cache_change sn rp = rp\<lparr>unsent_changes := bs_insert sn (unsent_changes rp)\<rparr>"

section \<open>Requested fragments\<close>

definition mark_all_frags_requested :: "ext \<Rightarrow> seqnum \<Rightarrow> nat \<Rightarrow> rtps_reader_proxy \<Rightarrow> rtps_reader_proxy" where
  "mark_all_frags_requested x sn frag_count rp =
     rp\<lparr>frags_requested := bm_insert sn (bv_from_elem x frag_count True) (frags_requested rp)\<rparr>"

fun request_frags :: "ext \<Rightarrow> fragnum list \<Rightarrow> bool list \<Rightarrow> bool list option" where
  "request_frags x [] v = Some v"
| "request_frags x (f # fs) v =
     (if f < 1 then None else do { v \<leftarrow> bv_set x v (nat f - 1) True; request_frags x fs v })"

definition mark_frags_requested ::
    "ext \<Rightarrow> seqnum \<Rightarrow> number_set \<Rightarrow> rtps_reader_proxy \<Rightarrow> rtps_reader_proxy option" where
  "mark_frags_requested x sn frag_nums rp =
     (let req_set = (case bm_get (frags_requested rp) sn of Some v \<Rightarrow> v | None \<Rightarrow> [])
      in case rev req_set of
           [] \<Rightarrow> Some (rp\<lparr>frags_requested := bm_insert sn req_set (frags_requested rp)\<rparr>)
         | last_bit # _ \<Rightarrow>
             let max_fn_requested = of_bool last_bit;
                 req_set1 = (if max_fn_requested > length req_set
                             then bv_grow x req_set (max_fn_requested - length req_set) False else req_set)
             in do { fs \<leftarrow> ns_elems FragNum frag_nums;
                     v \<leftarrow> request_frags x fs req_set1;
                     Some (rp\<lparr>frags_requested := bm_insert sn v (frags_requested rp)\<rparr>) })"

definition mark_frag_sent :: "ext \<Rightarrow> seqnum \<Rightarrow> fragnum \<Rightarrow> rtps_reader_proxy \<Rightarrow> rtps_reader_proxy option" where
  "mark_frag_sent x sn f rp =
     (case bm_get (frags_requested rp) sn of
        None \<Rightarrow> Some rp
      | Some v \<Rightarrow>
          if f < 1 then None
          else do { v \<leftarrow> bv_set x v (nat f - 1) False;
                    if bv_none x v then Some (rp\<lparr>frags_requested := bm_remove sn (frags_requested rp)\<rparr>)
                    else Some (rp\<lparr>frags_requested := bm_insert sn v (frags_requested rp)\<rparr>) })"

record frag_bit_vec_iterator =
  fbv_sequence_number :: seqnum
  fbv_frag_count :: nat
  fbv_bitvec :: "bool list"

definition fbv_new :: "seqnum \<Rightarrow> bool list \<Rightarrow> frag_bit_vec_iterator" where
  "fbv_new sn v = \<lparr>fbv_sequence_number = sn, fbv_frag_count = 1, fbv_bitvec = v\<rparr>"

definition frags_requested_iterator :: "rtps_reader_proxy \<Rightarrow> frag_bit_vec_iterator" where
  "frags_requested_iterator rp =
     (case bm_first (frags_requested rp) of
        None \<Rightarrow> fbv_new sn_default []
      | Some (sn, v) \<Rightarrow> fbv_new sn v)"

definition repair_frags_requested :: "ext \<Rightarrow> rtps_reader_proxy \<Rightarrow> bool" where
  "repair_frags_requested x rp \<longleftrightarrow> (\<exists>v \<in> set (bm_values (frags_requested rp)). bv_any x v)"

function fbv_skip :: "ext \<Rightarrow> bool list \<Rightarrow> nat \<Rightarrow> nat" where
  "fbv_skip x v f = (if f \<le> length v \<and> bv_get x v (f - 1) = Some False then fbv_skip x v (f + 1) else f)"
  by pat_completeness auto

termination
  by (relation "measure (\<lambda>(x, v, f). Suc (length v) - f)") auto

declare fbv_skip.simps [simp del]

definition fbv_next :: "ext \<Rightarrow> frag_bit_vec_iterator \<Rightarrow> ((seqnum \<times> fragnum) \<times> frag_bit_vec_iterator) option" where
  "fbv_next x it =
     (let f = fbv_skip x (fbv_bitvec it) (fbv_frag_count it)
      in if f > length (fbv_bitvec it) then None
         else Some ((fbv_sequence_number it, int f), it\<lparr>fbv_frag_count := f + 1\<rparr>))"

text \<open>\<open>take(n)\<close> of the iterator.\<close>

fun fbv_take :: "ext \<Rightarrow> nat \<Rightarrow> frag_bit_vec_iterator \<Rightarrow> (seqnum \<times> fragnum) list" where
  "fbv_take x 0 it = []"
| "fbv_take x (Suc n) it = (case fbv_next x it of None \<Rightarrow> [] | Some (e, it') \<Rightarrow> e # fbv_take x n it')"

section \<open>What the operations do\<close>

lemma contains_split_off [simp]:
  "bm_contains (fst (bm_split_off k m)) k' \<longleftrightarrow> k' < k \<and> bm_contains m k'"
  "bm_contains (snd (bm_split_off k m)) k' \<longleftrightarrow> k \<le> k' \<and> bm_contains m k'"
  by (simp_all add: bm_split_off_def)

lemma bm_last_bound: "bm_last m = Some (high, u) \<Longrightarrow> high \<le> b \<Longrightarrow> bm_contains m k \<Longrightarrow> k \<le> b"
  using last_SomeD(2) by (metis order_trans)

lemma bm_last_None_contains: "bm_last m = None \<Longrightarrow> \<not> bm_contains m k"
  by (simp add: last_None_iff is_empty_iff)

lemma bs_truncate:
  fixes u :: "int btree_set"
  shows "bs_contains (case bm_last u of
      Some (high, _) \<Rightarrow> if high > b then fst (bm_split_off (b + 1) u) else u | None \<Rightarrow> u) sn
    \<longleftrightarrow> bs_contains u sn \<and> sn \<le> b"
proof (cases "bm_last u")
  case None
  then show ?thesis by (simp add: bm_last_None_contains)
next
  case (Some hu)
  then show ?thesis using bm_last_bound [of u "fst hu" "()" b sn] by (cases hu) auto
qed

lemma rp_ack_spec:
  assumes "ns_wf (reader_sn_state a)" "ns_elems SeqNum (reader_sn_state a) = Some nacks"
    and "in_i64 last_available" "last_available < i64_max"
  obtains rp' where "rp_handle_ack_nack (Ack_AckNack a) last_available rp = Some rp'"
    "all_acked_before rp' = bitmap_base (reader_sn_state a)"
    "\<And>sn. bs_contains (unsent_changes rp') sn \<longleftrightarrow>
       (bitmap_base (reader_sn_state a) \<le> sn \<and> bs_contains (unsent_changes rp) sn \<or> sn \<in> set nacks) \<and> sn \<le> last_available"
    "\<And>sn. bs_contains (pending_gap rp') sn \<longleftrightarrow> bitmap_base (reader_sn_state a) \<le> sn \<and> bs_contains (pending_gap rp) sn"
    "rp' = rp\<lparr>all_acked_before := all_acked_before rp', unsent_changes := unsent_changes rp', pending_gap := pending_gap rp'\<rparr>"
proof -
  let ?u = "bs_extend nacks (snd (bm_split_off (bitmap_base (reader_sn_state a)) (unsent_changes rp)))"
  define u' where "u' = (case bm_last ?u of
      Some (high, _) \<Rightarrow> if high > last_available then fst (bm_split_off (plus_1 last_available) ?u) else ?u
    | None \<Rightarrow> ?u)"
  have u': "bs_contains u' sn \<longleftrightarrow> bs_contains ?u sn \<and> sn \<le> last_available" for sn
    unfolding u'_def plus_1_exact [OF assms(3,4)] by (rule bs_truncate)
  have "rp_handle_ack_nack (Ack_AckNack a) last_available rp =
      Some (rp\<lparr>all_acked_before := bitmap_base (reader_sn_state a), unsent_changes := u',
        pending_gap := snd (bm_split_off (bitmap_base (reader_sn_state a)) (pending_gap rp))\<rparr>)"
    by (auto simp: rp_handle_ack_nack_def assms(2) remove_from_unsent_set_all_before_def Let_def u'_def
        split: option.splits)
  from that [OF this] show thesis
    by (auto simp: u')
qed

text \<open>The numbers, from 1, of the set bits from a position on.\<close>

definition set_bits_from :: "bool list \<Rightarrow> nat \<Rightarrow> nat list" where
  "set_bits_from v c = filter (\<lambda>i. v ! (i - 1)) [c..<Suc (length v)]"

lemma set_bits_from_step:
  "c \<le> length v \<Longrightarrow> set_bits_from v c = (if v ! (c - 1) then c # set_bits_from v (c + 1) else set_bits_from v (c + 1))"
  unfolding set_bits_from_def by (subst upt_conv_Cons) auto

lemma set_bits_from_end: "length v < c \<Longrightarrow> set_bits_from v c = []"
  by (simp add: set_bits_from_def)

lemma fbv_skip_spec:
  assumes "ext_ok x" "1 \<le> c"
  shows "set_bits_from v c = (if fbv_skip x v c \<le> length v
    then fbv_skip x v c # set_bits_from v (fbv_skip x v c + 1) else [])"
  using assms
proof (induction x v c rule: fbv_skip.induct)
  case (1 x v c)
  show ?case
  proof (cases "c \<le> length v \<and> bv_get x v (c - 1) = Some False")
    case True
    then have "\<not> v ! (c - 1)"
      using "1.prems" by (simp add: ext_bv split: if_splits)
    then show ?thesis
      using 1 True by (simp add: fbv_skip.simps [of x v c] set_bits_from_step [of c v])
  next
    case False
    then show ?thesis
      using "1.prems"
      by (auto simp: fbv_skip.simps [of x v c] set_bits_from_step set_bits_from_end ext_bv not_le)
  qed
qed

lemma fbv_next_spec:
  assumes "ext_ok x" "1 \<le> fbv_frag_count it"
  shows "fbv_next x it = (case set_bits_from (fbv_bitvec it) (fbv_frag_count it) of
      [] \<Rightarrow> None
    | i # _ \<Rightarrow> Some ((fbv_sequence_number it, int i), it\<lparr>fbv_frag_count := i + 1\<rparr>))"
  using fbv_skip_spec [OF assms, of "fbv_bitvec it"] by (auto simp: fbv_next_def Let_def)

lemma fbv_take_spec:
  assumes "ext_ok x" "1 \<le> fbv_frag_count it"
  shows "fbv_take x n it =
    map (\<lambda>i. (fbv_sequence_number it, int i)) (take n (set_bits_from (fbv_bitvec it) (fbv_frag_count it)))"
  using assms(2)
proof (induction n arbitrary: it)
  case (Suc n)
  show ?case
    using Suc.IH [of "it\<lparr>fbv_frag_count := fbv_skip x (fbv_bitvec it) (fbv_frag_count it) + 1\<rparr>"]
      fbv_skip_spec [OF assms(1) Suc.prems, of "fbv_bitvec it"]
    by (auto simp: fbv_next_def Let_def)
qed simp

section \<open>Properties\<close>

text \<open>C36: an ACKNACK whose set is well formed makes the proxy record its base as acknowledged, keeps to
  be sent exactly the numbers from the base on that were unsent or are requested now, cut at the
  last available number, and drops the pending gaps below the base; nothing else changes.\<close>

theorem acknack_updates_proxy:
  assumes "ns_wf (reader_sn_state a)" and "in_i64 last_available" and "last_available < i64_max"
  shows "\<exists>nacks rp'. ns_elems SeqNum (reader_sn_state a) = Some nacks
    \<and> rp_handle_ack_nack (Ack_AckNack a) last_available rp = Some rp'
    \<and> all_acked_before rp' = bitmap_base (reader_sn_state a)
    \<and> (\<forall>sn. bs_contains (unsent_changes rp') sn \<longleftrightarrow>
         (bitmap_base (reader_sn_state a) \<le> sn \<and> bs_contains (unsent_changes rp) sn \<or> sn \<in> set nacks)
           \<and> sn \<le> last_available)
    \<and> (\<forall>sn. bs_contains (pending_gap rp') sn \<longleftrightarrow>
         bitmap_base (reader_sn_state a) \<le> sn \<and> bs_contains (pending_gap rp) sn)
    \<and> rp' = rp\<lparr>all_acked_before := all_acked_before rp', unsent_changes := unsent_changes rp',
              pending_gap := pending_gap rp'\<rparr>"
proof -
  obtain nacks where nacks: "ns_elems SeqNum (reader_sn_state a) = Some nacks"
    using ns_elems_eq [OF assms(1)] by blast
  from rp_ack_spec [OF assms(1) nacks assms(2,3), of rp] nacks show ?thesis
    by metis
qed

theorem acknack_updates_proxy_witness:
  "\<exists>rp'. rp_handle_ack_nack (Ack_AckNack \<lparr>an_reader_id = EntityId_UNKNOWN, an_writer_id = EntityId_UNKNOWN,
        reader_sn_state = ns_new_empty 3, an_count = 1\<rparr>) 5
      (notify_new_cache_change 4 (notify_new_cache_change 2 (rp_new GUID_UNKNOWN qos_none False))) = Some rp'
    \<and> bs_contains (unsent_changes rp') 4 \<and> \<not> bs_contains (unsent_changes rp') 2"
proof -
  have "ns_wf (ns_new_empty 3)" "ns_elems SeqNum (ns_new_empty 3) = Some []"
    using ns_elems_eq [of "ns_new_empty 3" SeqNum]
    by (simp_all add: ns_new_empty_def ns_new_def ns_wf_def word_count_def)
  then show ?thesis
    using acknack_updates_proxy [of "\<lparr>an_reader_id = EntityId_UNKNOWN, an_writer_id = EntityId_UNKNOWN,
        reader_sn_state = ns_new_empty 3, an_count = 1\<rparr>" 5
        "notify_new_cache_change 4 (notify_new_cache_change 2 (rp_new GUID_UNKNOWN qos_none False))"]
    by (auto simp: in_i64_def i64_min_def i64_max_def notify_new_cache_change_def rp_new_def ns_new_empty_def ns_new_def)
qed

text \<open>A NACKFRAG for a sample for which nothing is recorded yet records none of its fragments, so no
  fragment of it is repaired; moreover the empty record it leaves hides the requests of every later
  sample from the iterator, while \<open>repair_frags_requested\<close> keeps asking for another round.\<close>

theorem nackfrag_starves_repair:
  assumes "ext_ok x" and "bm_is_empty (frags_requested rp)" and "sn1 < sn2" and "0 < count"
  shows "\<exists>rp1. mark_frags_requested x sn1 frag_nums rp = Some rp1
    \<and> fbv_take x n (frags_requested_iterator rp1) = []
    \<and> fbv_take x n (frags_requested_iterator (mark_all_frags_requested x sn2 count rp1)) = []
    \<and> repair_frags_requested x (mark_all_frags_requested x sn2 count rp1)"
proof -
  have empty: "bm_entries (frags_requested rp) = []"
    using assms(2) by (simp add: bm_is_empty_def)
  have take: "fbv_take x n (fbv_new sn []) = []" for sn
    using fbv_take_spec [OF assms(1), of "fbv_new sn []"] by (simp add: fbv_new_def set_bits_from_def)
  show ?thesis
    using empty take assms
    by (auto simp: mark_frags_requested_def bm_get_def frags_requested_iterator_def bm_first_def
        mark_all_frags_requested_def repair_frags_requested_def bm_values_def ext_bv)
qed

theorem nackfrag_starves_repair_witness:
  "\<exists>rp1. mark_frags_requested sample_ext 1 (ns_new 1 8) (rp_new GUID_UNKNOWN qos_none False) = Some rp1
    \<and> fbv_take sample_ext 8 (frags_requested_iterator (mark_all_frags_requested sample_ext 2 3 rp1)) = []"
  using nackfrag_starves_repair [OF ext_ok_sample, of "rp_new GUID_UNKNOWN qos_none False" 1 2 3 "ns_new 1 8" 8]
  by (auto simp: rp_new_def bm_is_empty_def)

end
