(* ===== verification/Status_Events.thy ===== *)
theory Status_Events
  imports Qos Guid
begin

text \<open>
  Communication status events (src/src/dds/statusevents.rs) that RTPS readers and writers report to
  their DDS entities and to the participant. Of the participant's events, the four about matching
  endpoints are modelled; the others are raised by discovery.
\<close>

record count_with_change =
  cwc_count :: int
  cwc_count_change :: int

definition cwc_new :: "int \<Rightarrow> int \<Rightarrow> count_with_change" where
  "cwc_new n change = \<lparr>cwc_count = n, cwc_count_change = change\<rparr>"

definition cwc_start_from :: "int \<Rightarrow> int \<Rightarrow> count_with_change" where
  "cwc_start_from n change = \<lparr>cwc_count = n, cwc_count_change = change\<rparr>"

datatype sample_rejected_status_kind =
  NotRejected | ByInstancesLimit | BySamplesLimit | BySamplesPerInstanceLimit

datatype data_reader_status =
    SampleRejected count_with_change sample_rejected_status_kind
  | LivelinessChanged count_with_change count_with_change
  | RequestedDeadlineMissed count_with_change
  | RequestedIncompatibleQos count_with_change qos_policy_id guid qos_policies qos_policies
  | SampleLost count_with_change
  | SubscriptionMatched count_with_change count_with_change guid

datatype data_writer_status =
    LivelinessLost count_with_change
  | OfferedDeadlineMissed count_with_change
  | OfferedIncompatibleQos count_with_change qos_policy_id guid qos_policies qos_policies
  | PublicationMatched count_with_change count_with_change guid

datatype participant_status_event =
    RemoteReaderMatched guid guid
  | RemoteWriterMatched guid guid
  | RemoteReaderQosIncompatible guid guid qos_policies qos_policies
  | RemoteWriterQosIncompatible guid guid qos_policies qos_policies

end
