(* ===== verification/History_Buffer.thy ===== *)
theory History_Buffer
  imports Payload
begin

text \<open>
  The writer's history (the \<open>HistoryBuffer\<close> of src/src/rtps/writer.rs): the changes by time stamp,
  and an index from sequence numbers to time stamps. \<open>hb_inv\<close> says that the two agree; it holds as
  long as changes are added in the order of their numbers with strictly increasing clock readings,
  which is what the source calls a unique key.

  The locale \<open>change_store\<close> is what the writer relies on: the store is a partial function from
  numbers to changes, adding extends it, and removal before a stored number restricts it.
\<close>

record history_buffer =
  first_seq :: seqnum
  last_seq :: seqnum
  sequence_number_to_instant :: "(seqnum, timestamp) btree_map"
  hb_history_buffer :: "(timestamp, cache_change) btree_map"
  hb_topic_name :: string

definition hb_new :: "string \<Rightarrow> history_buffer" where
  "hb_new name = \<lparr>first_seq = sn_new 1, last_seq = sn_new 0, sequence_number_to_instant = bm_empty,
     hb_history_buffer = bm_empty, hb_topic_name = name\<rparr>"

definition hb_get_change :: "history_buffer \<Rightarrow> timestamp \<Rightarrow> cache_change option" where
  "hb_get_change h ts = bm_get (hb_history_buffer h) ts"

definition hb_get_by_sn :: "history_buffer \<Rightarrow> seqnum \<Rightarrow> cache_change option" where
  "hb_get_by_sn h sn =
     (case bm_get (sequence_number_to_instant h) sn of None \<Rightarrow> None | Some ts \<Rightarrow> hb_get_change h ts)"

definition hb_add_change :: "timestamp \<Rightarrow> cache_change \<Rightarrow> history_buffer \<Rightarrow> history_buffer" where
  "hb_add_change ts cc h =
     (let new_seq = sequence_number cc;
          h1 = h\<lparr>hb_history_buffer := bm_insert ts cc (hb_history_buffer h),
                 sequence_number_to_instant := bm_insert new_seq ts (sequence_number_to_instant h)\<rparr>
      in if new_seq > last_seq h1 then h1\<lparr>last_seq := new_seq\<rparr> else h1)"

definition hb_remove_changes_before :: "seqnum \<Rightarrow> history_buffer \<Rightarrow> history_buffer" where
  "hb_remove_changes_before remove_before_seq h =
     (case bm_get (sequence_number_to_instant h) remove_before_seq of
        Some remove_before \<Rightarrow>
          let h1 = h\<lparr>hb_history_buffer := snd (bm_split_off remove_before (hb_history_buffer h)),
                     sequence_number_to_instant :=
                       snd (bm_split_off remove_before_seq (sequence_number_to_instant h))\<rparr>
          in if remove_before_seq \<ge> first_seq h1 then h1\<lparr>first_seq := remove_before_seq\<rparr> else h1
      | None \<Rightarrow> h)"

section \<open>The contract of the store\<close>

locale change_store =
  fixes get :: "'h \<Rightarrow> seqnum \<Rightarrow> cache_change option"
    and add :: "timestamp \<Rightarrow> cache_change \<Rightarrow> 'h \<Rightarrow> 'h"
    and remove_before :: "seqnum \<Rightarrow> 'h \<Rightarrow> 'h"
    and inv :: "'h \<Rightarrow> bool"
    and fresh :: "'h \<Rightarrow> timestamp \<Rightarrow> cache_change \<Rightarrow> bool"
  assumes inv_add: "inv h \<Longrightarrow> fresh h ts cc \<Longrightarrow> inv (add ts cc h)"
    and get_add: "inv h \<Longrightarrow> fresh h ts cc \<Longrightarrow> get (add ts cc h) = (get h)(sequence_number cc \<mapsto> cc)"
    and inv_remove: "inv h \<Longrightarrow> inv (remove_before k h)"
    and get_remove: "inv h \<Longrightarrow> get h k \<noteq> None \<Longrightarrow> get (remove_before k h) = get h |` {k..}"
    and get_remove_absent: "inv h \<Longrightarrow> get h k = None \<Longrightarrow> get (remove_before k h) = get h"
    and get_number: "inv h \<Longrightarrow> get h sn = Some cc \<Longrightarrow> sequence_number cc = sn"
begin

lemma get_remove_keeps: "inv h \<Longrightarrow> k \<le> sn \<Longrightarrow> get (remove_before k h) sn = get h sn"
  using get_remove [of h k] get_remove_absent [of h k] by (cases "get h k") (simp_all add: restrict_map_def)

lemma get_remove_subset: "inv h \<Longrightarrow> get (remove_before k h) sn = Some cc \<Longrightarrow> get h sn = Some cc"
  using get_remove [of h k] get_remove_absent [of h k]
  by (cases "get h k") (auto simp: restrict_map_def split: if_splits)

lemma remove_remove: "inv h \<Longrightarrow> get h k \<noteq> None \<Longrightarrow> get h j \<noteq> None \<Longrightarrow> j \<le> k \<Longrightarrow>
    get (remove_before k (remove_before j h)) = get (remove_before k h)"
  using get_remove_keeps [of h j k]
  by (simp add: get_remove inv_remove Int_absorb1 restrict_map_def fun_eq_iff)

end

section \<open>The history buffer keeps the contract\<close>

definition hb_inv :: "history_buffer \<Rightarrow> bool" where
  "hb_inv h \<longleftrightarrow>
     (\<forall>sn ts. bm_get (sequence_number_to_instant h) sn = Some ts \<longrightarrow>
        first_seq h \<le> sn \<and> sn \<le> last_seq h
        \<and> (\<exists>cc. bm_get (hb_history_buffer h) ts = Some cc \<and> sequence_number cc = sn))
     \<and> (\<forall>ts cc. bm_get (hb_history_buffer h) ts = Some cc \<longrightarrow>
          bm_get (sequence_number_to_instant h) (sequence_number cc) = Some ts)
     \<and> (\<forall>sn sn' ts ts'. bm_get (sequence_number_to_instant h) sn = Some ts \<longrightarrow>
          bm_get (sequence_number_to_instant h) sn' = Some ts' \<longrightarrow> (sn < sn' \<longleftrightarrow> ts < ts'))
     \<and> first_seq h \<le> last_seq h + 1"

text \<open>The clock reading is later than all before, and the number is the next one or a later one.\<close>

definition hb_fresh :: "history_buffer \<Rightarrow> timestamp \<Rightarrow> cache_change \<Rightarrow> bool" where
  "hb_fresh h ts cc \<longleftrightarrow> last_seq h < sequence_number cc
     \<and> (\<forall>sn ts'. bm_get (sequence_number_to_instant h) sn = Some ts' \<longrightarrow> ts' < ts)"

lemma cc_new_sel [simp]:
  "sequence_number (cc_new g sn wo dv) = sn" "data_value (cc_new g sn wo dv) = dv"
  "write_options (cc_new g sn wo dv) = wo" "writer_guid (cc_new g sn wo dv) = g"
  by (simp_all add: cc_new_def)

lemma hb_inv_new: "hb_inv (hb_new name)"
  by (simp add: hb_inv_def hb_new_def sn_new_def)

lemma get_split_off [simp]:
  "bm_get (fst (bm_split_off k m)) k' = (if k' < k then bm_get m k' else None)"
  "bm_get (snd (bm_split_off k m)) k' = (if k \<le> k' then bm_get m k' else None)"
  by (simp_all add: bm_split_off_def)

lemma hb_invD:
  assumes "hb_inv h"
  shows "bm_get (sequence_number_to_instant h) sn = Some ts \<Longrightarrow>
      first_seq h \<le> sn \<and> sn \<le> last_seq h \<and> (\<exists>cc. bm_get (hb_history_buffer h) ts = Some cc \<and> sequence_number cc = sn)"
    and "bm_get (hb_history_buffer h) ts = Some cc \<Longrightarrow>
      bm_get (sequence_number_to_instant h) (sequence_number cc) = Some ts"
    and "bm_get (sequence_number_to_instant h) sn = Some ts \<Longrightarrow>
      bm_get (sequence_number_to_instant h) sn' = Some ts' \<Longrightarrow> sn < sn' \<longleftrightarrow> ts < ts'"
  using assms unfolding hb_inv_def by blast+

lemma hb_invI:
  assumes "\<And>sn ts. bm_get (sequence_number_to_instant h) sn = Some ts \<Longrightarrow> first_seq h \<le> sn \<and> sn \<le> last_seq h
      \<and> (\<exists>cc. bm_get (hb_history_buffer h) ts = Some cc \<and> sequence_number cc = sn)"
    and "\<And>ts cc. bm_get (hb_history_buffer h) ts = Some cc \<Longrightarrow>
      bm_get (sequence_number_to_instant h) (sequence_number cc) = Some ts"
    and "\<And>sn sn' ts ts'. bm_get (sequence_number_to_instant h) sn = Some ts \<Longrightarrow>
      bm_get (sequence_number_to_instant h) sn' = Some ts' \<Longrightarrow> sn < sn' \<longleftrightarrow> ts < ts'"
    and "first_seq h \<le> last_seq h + 1"
  shows "hb_inv h"
  using assms unfolding hb_inv_def by blast

lemma hb_inv_add:
  assumes inv: "hb_inv h" and fresh: "hb_fresh h ts cc"
  shows "hb_inv (hb_add_change ts cc h)"
proof -
  note D = hb_invD [OF inv]
  have firstle: "first_seq h \<le> sequence_number cc"
    using inv fresh by (simp add: hb_inv_def hb_fresh_def)
  have old: "bm_get (sequence_number_to_instant h) sn = Some ts' \<Longrightarrow> ts' < ts \<and> sn < sequence_number cc" for sn ts'
    using fresh D(1) by (fastforce simp: hb_fresh_def)
  have h': "first_seq (hb_add_change ts cc h) = first_seq h" "last_seq (hb_add_change ts cc h) = sequence_number cc"
      "sequence_number_to_instant (hb_add_change ts cc h) = bm_insert (sequence_number cc) ts (sequence_number_to_instant h)"
      "hb_history_buffer (hb_add_change ts cc h) = bm_insert ts cc (hb_history_buffer h)"
    using fresh by (simp_all add: hb_add_change_def hb_fresh_def Let_def)
  show ?thesis
  proof (rule hb_invI, unfold h')
    fix sn ts' assume "bm_get (bm_insert (sequence_number cc) ts (sequence_number_to_instant h)) sn = Some ts'"
    then show "first_seq h \<le> sn \<and> sn \<le> sequence_number cc
        \<and> (\<exists>c. bm_get (bm_insert ts cc (hb_history_buffer h)) ts' = Some c \<and> sequence_number c = sn)"
      using D(1) [of sn ts'] old [of sn ts'] firstle fresh by (auto simp: hb_fresh_def split: if_splits)
  next
    fix ts' c assume "bm_get (bm_insert ts cc (hb_history_buffer h)) ts' = Some c"
    then show "bm_get (bm_insert (sequence_number cc) ts (sequence_number_to_instant h)) (sequence_number c) = Some ts'"
      using D(2) [of ts' c] old [of "sequence_number c" ts'] by (auto split: if_splits)
  next
    fix sn sn' t t'
    assume "bm_get (bm_insert (sequence_number cc) ts (sequence_number_to_instant h)) sn = Some t"
      and "bm_get (bm_insert (sequence_number cc) ts (sequence_number_to_instant h)) sn' = Some t'"
    then show "sn < sn' \<longleftrightarrow> t < t'"
      using D(3) [of sn t sn' t'] old [of sn t] old [of sn' t'] by (auto split: if_splits)
  qed (use firstle in simp)
qed

lemma hb_inv_remove:
  assumes inv: "hb_inv h"
  shows "hb_inv (hb_remove_changes_before k h)"
proof (cases "bm_get (sequence_number_to_instant h) k")
  case None
  then show ?thesis using inv by (simp add: hb_remove_changes_before_def)
next
  case (Some rb)
  note D = hb_invD [OF inv]
  have k: "first_seq h \<le> k" "k \<le> last_seq h"
    using D(1) [OF Some] by auto
  have h': "first_seq (hb_remove_changes_before k h) = k" "last_seq (hb_remove_changes_before k h) = last_seq h"
      "sequence_number_to_instant (hb_remove_changes_before k h) = snd (bm_split_off k (sequence_number_to_instant h))"
      "hb_history_buffer (hb_remove_changes_before k h) = snd (bm_split_off rb (hb_history_buffer h))"
    using k Some by (simp_all add: hb_remove_changes_before_def Let_def)
  have iff: "k \<le> sn \<longleftrightarrow> rb \<le> ts" if "bm_get (sequence_number_to_instant h) sn = Some ts" for sn ts
    using D(3) [OF that Some] by (simp flip: not_less)
  show ?thesis
  proof (rule hb_invI, unfold h')
    fix sn ts assume "bm_get (snd (bm_split_off k (sequence_number_to_instant h))) sn = Some ts"
    then show "k \<le> sn \<and> sn \<le> last_seq h
        \<and> (\<exists>c. bm_get (snd (bm_split_off rb (hb_history_buffer h))) ts = Some c \<and> sequence_number c = sn)"
      using D(1) [of sn ts] iff [of sn ts] by (auto split: if_splits)
  next
    fix ts c assume "bm_get (snd (bm_split_off rb (hb_history_buffer h))) ts = Some c"
    then show "bm_get (snd (bm_split_off k (sequence_number_to_instant h))) (sequence_number c) = Some ts"
      using D(2) [of ts c] iff [of "sequence_number c" ts] by (auto split: if_splits)
  next
    fix sn sn' t t'
    assume "bm_get (snd (bm_split_off k (sequence_number_to_instant h))) sn = Some t"
      and "bm_get (snd (bm_split_off k (sequence_number_to_instant h))) sn' = Some t'"
    then show "sn < sn' \<longleftrightarrow> t < t'"
      using D(3) [of sn t sn' t'] by (auto split: if_splits)
  qed (use k in simp)
qed

lemma hb_get_add:
  assumes inv: "hb_inv h" and fresh: "hb_fresh h ts cc"
  shows "hb_get_by_sn (hb_add_change ts cc h) = (hb_get_by_sn h)(sequence_number cc \<mapsto> cc)"
proof
  fix sn
  have "bm_get (sequence_number_to_instant h) sn = Some ts' \<Longrightarrow> ts' < ts" for ts'
    using fresh by (auto simp: hb_fresh_def)
  then show "hb_get_by_sn (hb_add_change ts cc h) sn = ((hb_get_by_sn h)(sequence_number cc \<mapsto> cc)) sn"
    by (fastforce simp: hb_get_by_sn_def hb_add_change_def hb_get_change_def Let_def split: option.splits)
qed

lemma hb_get_stored:
  assumes "hb_inv h"
  shows "hb_get_by_sn h sn = None \<longleftrightarrow> bm_get (sequence_number_to_instant h) sn = None"
  using hb_invD(1) [OF assms, of sn] by (fastforce simp: hb_get_by_sn_def hb_get_change_def split: option.splits)

lemma hb_get_remove:
  assumes inv: "hb_inv h" and k: "hb_get_by_sn h k \<noteq> None"
  shows "hb_get_by_sn (hb_remove_changes_before k h) = hb_get_by_sn h |` {k..}"
proof
  fix sn
  obtain rb where rb: "bm_get (sequence_number_to_instant h) k = Some rb"
    using k hb_get_stored [OF inv, of k] by auto
  have "k \<le> sn \<longleftrightarrow> rb \<le> ts" if "bm_get (sequence_number_to_instant h) sn = Some ts" for ts
    using hb_invD(3) [OF inv that rb] by (simp flip: not_less)
  then show "hb_get_by_sn (hb_remove_changes_before k h) sn = (hb_get_by_sn h |` {k..}) sn"
    by (auto simp: hb_get_by_sn_def hb_remove_changes_before_def hb_get_change_def rb restrict_map_def Let_def
        split: option.splits)
qed

lemma hb_get_number:
  assumes "hb_inv h" "hb_get_by_sn h sn = Some cc"
  shows "sequence_number cc = sn" and "first_seq h \<le> sn" and "sn \<le> last_seq h"
  using assms(2) hb_invD(1) [OF assms(1), of sn]
  by (auto simp: hb_get_by_sn_def hb_get_change_def split: option.splits)

interpretation history: change_store hb_get_by_sn hb_add_change hb_remove_changes_before hb_inv hb_fresh
proof
  fix h k assume "hb_inv h" "hb_get_by_sn h k = None"
  then show "hb_get_by_sn (hb_remove_changes_before k h) = hb_get_by_sn h"
    by (simp add: hb_get_stored hb_remove_changes_before_def)
qed (simp_all add: hb_inv_add hb_get_add hb_inv_remove hb_get_remove hb_get_number)

end
