(* ===== verification/Writer.thy ===== *)
theory Writer
  imports Reader_Proxy History_Buffer Status_Events
begin

text \<open>
  The RTPS writer (src/src/rtps/writer.rs): it stores the samples of its data writer, sends them to
  the matched readers, answers ACKNACK and NACKFRAG submessages by repairs and GAPs, and cleans its
  history. A handler returns the new writer and the list of its effects in order: datagrams sent,
  timers set, status events reported, waiters released. \<^const>\<open>None\<close> is a panic. Clock readings,
  the outcome of the security plug-ins (absent) and the queue of commands are arguments; counters
  are i32 values that wrap as in the release profile.
\<close>

section \<open>State\<close>

datatype delivery_mode = Unicast | Multicast

datatype writer_timed_event =
    WT_Heartbeat
  | WT_CacheCleaning
  | WT_SendRepairData guid
  | WT_SendRepairFrags guid

record ack_waiter =
  wait_until :: seqnum
  complete_channel :: nat
  readers_pending :: "guid btree_set"

text \<open>\<open>reader_acked_or_lost\<close>; true when nobody is waited for any more.\<close>

definition reader_acked_or_lost :: "guid \<Rightarrow> seqnum option \<Rightarrow> ack_waiter \<Rightarrow> bool \<times> ack_waiter" where
  "reader_acked_or_lost g acked_before aw =
     (let aw' = (case acked_before of
                   None \<Rightarrow> aw\<lparr>readers_pending := bm_remove g (readers_pending aw)\<rparr>
                 | Some ab \<Rightarrow>
                     if wait_until aw < ab then aw\<lparr>readers_pending := bm_remove g (readers_pending aw)\<rparr> else aw)
      in (bm_is_empty (readers_pending aw'), aw'))"

datatype writer_command =
    WC_DDSData dds_data write_options seqnum
  | WC_WaitForAcknowledgments nat

record writer =
  w_endianness :: endianness
  heartbeat_message_counter :: int
  push_mode :: bool
  heartbeat_period :: "duration option"
  cache_cleaning_period :: duration
  nack_response_delay :: int
  nackfrag_response_delay :: int
  repairfrags_continue_delay :: int
  data_max_size_serialized :: nat
  w_my_guid :: guid
  readers :: "(guid, rtps_reader_proxy) btree_map"
  matched_readers_count_total :: int
  requested_incompatible_qos_count :: int
  w_like_stateless :: bool
  my_topic_name :: string
  w_history_buffer :: history_buffer
  w_qos_policies :: qos_policies
  w_ack_waiter :: "ack_waiter option"

datatype writer_effect =
    WE_Send bytes locator
  | WE_SetTimeout int writer_timed_event
  | WE_Status data_writer_status
  | WE_ParticipantStatus participant_status_event
  | WE_AckComplete nat
  | WE_WakeDataWriter

type_synonym 'a writer_result = "('a \<times> writer_effect list) option"

abbreviation w_entity_id :: "writer \<Rightarrow> entity_id" where
  "w_entity_id w \<equiv> guid_entity_id (w_my_guid w)"

abbreviation w_prefix :: "writer \<Rightarrow> guid_prefix" where
  "w_prefix w \<equiv> guid_prefix (w_my_guid w)"

definition P2P_BUILTIN_PARTICIPANT_VOLATILE_SECURE_WRITER :: entity_id where
  "P2P_BUILTIN_PARTICIPANT_VOLATILE_SECURE_WRITER = EntityId (0xff, 0x02, 0x02) 0xc3"

definition heartbeat_period_of :: "qos_policies \<Rightarrow> duration option option" where
  "heartbeat_period_of q =
     (case reliability q of
        Some (Reliable _) \<Rightarrow>
          (case liveliness q of
             Some (ManualByTopic lease) \<Rightarrow> map_option Some (dur_div lease 3)
           | _ \<Rightarrow> Some (Some (dur_from_secs 1)))
      | _ \<Rightarrow> Some None)"

definition writer_new :: "guid \<Rightarrow> string \<Rightarrow> bool \<Rightarrow> qos_policies \<Rightarrow> writer writer_result" where
  "writer_new g topic stateless qos =
     (if stateless \<and> is_reliable qos then None
      else do {
        hbp \<leftarrow> heartbeat_period_of qos;
        let ccp = dur_from_secs (2 * 60)
        in Some (\<lparr>w_endianness = LittleEndian, heartbeat_message_counter = 1, push_mode = True,
               heartbeat_period = hbp, cache_cleaning_period = ccp,
               nack_response_delay = 200000000, nackfrag_response_delay = 200000000,
               repairfrags_continue_delay = 1000000, data_max_size_serialized = 1024,
               w_my_guid = g, readers = bm_empty, matched_readers_count_total = 0,
               requested_incompatible_qos_count = 0, w_like_stateless = stateless, my_topic_name = topic,
               w_history_buffer = hb_new topic, w_qos_policies = qos, w_ack_waiter = None\<rparr>,
             (case hbp of Some p \<Rightarrow> [WE_SetTimeout (to_std p) WT_Heartbeat] | None \<Rightarrow> [])
             @ [WE_SetTimeout (to_std ccp) WT_CacheCleaning]) })"

definition local_readers :: "writer \<Rightarrow> entity_id list" where
  "local_readers w =
     map guid_entity_id
       (filter (\<lambda>g. in_guid_range (guid_prefix_range (w_prefix w)) g \<and> guid_prefix g = w_prefix w)
         (bm_keys (readers w)))"

section \<open>Sending\<close>

definition next_heartbeat_count :: "writer \<Rightarrow> int \<times> writer" where
  "next_heartbeat_count w =
     (heartbeat_message_counter w, w\<lparr>heartbeat_message_counter := wrap_i32 (heartbeat_message_counter w + 1)\<rparr>)"

text \<open>The locators of a list that were not sent to before, each of them once.\<close>

fun fresh_locators :: "locator list \<Rightarrow> locator list \<Rightarrow> locator list" where
  "fresh_locators [] already = []"
| "fresh_locators (l # ls) already =
     (if l \<in> set already then fresh_locators ls already else l # fresh_locators ls (l # already))"

fun reader_locators :: "delivery_mode \<Rightarrow> rtps_reader_proxy \<Rightarrow> locator list" where
  "reader_locators mode r =
     (case (mode, find is_udp (rp_unicast_locator_list r), find is_udp (rp_multicast_locator_list r)) of
        (Multicast, _, Some _) \<Rightarrow> rp_multicast_locator_list r
      | (Unicast, Some _, _) \<Rightarrow> rp_unicast_locator_list r
      | (_, _, Some _) \<Rightarrow> rp_multicast_locator_list r
      | (_, Some _, _) \<Rightarrow> rp_unicast_locator_list r
      | (_, None, None) \<Rightarrow> [])"

fun send_locators :: "delivery_mode \<Rightarrow> rtps_reader_proxy list \<Rightarrow> locator list \<Rightarrow> locator list" where
  "send_locators mode [] already = []"
| "send_locators mode (r # rs) already =
     (let ls = fresh_locators (reader_locators mode r) already
      in ls @ send_locators mode rs (ls @ already))"

definition send_message_to_readers ::
    "ext \<Rightarrow> writer \<Rightarrow> delivery_mode \<Rightarrow> message \<Rightarrow> rtps_reader_proxy list \<Rightarrow> writer_effect list" where
  "send_message_to_readers x w mode m rs =
     (let buffer = write_message x (w_endianness w) m
      in map (WE_Send buffer) (send_locators mode rs []))"

definition num_frags_and_frag_size :: "writer \<Rightarrow> nat \<Rightarrow> (u32 \<times> u16) option" where
  "num_frags_and_frag_size w payload_sz =
     (let fragment_sz = of_nat (data_max_size_serialized w) :: u32;
          data_sz = of_nat payload_sz :: u32
      in if fragment_sz = 0 then None
         else Some (data_sz div fragment_sz + (if data_sz mod fragment_sz \<noteq> 0 then 1 else 0), ucast fragment_sz))"

abbreviation hb_range_msg ::
    "ext \<Rightarrow> writer \<Rightarrow> int \<Rightarrow> entity_id \<Rightarrow> bool \<Rightarrow> bool \<Rightarrow> message_builder \<Rightarrow> message_builder" where
  "hb_range_msg x w count rid final live b \<equiv>
     heartbeat_msg x (w_entity_id w) (first_seq (w_history_buffer w)) (last_seq (w_history_buffer w))
       count (w_endianness w) rid final live b"

text \<open>The one message of a sample that fits a DATA submessage.\<close>

definition data_message ::
    "ext \<Rightarrow> writer \<Rightarrow> cache_change \<Rightarrow> bool \<Rightarrow> rtps_reader_proxy option \<Rightarrow> (writer \<times> message list) option" where
  "data_message x w cc send_also_heartbeat target =
     (let e = w_endianness w;
          rid = (case target of None \<Rightarrow> EntityId_UNKNOWN | Some r \<Rightarrow> guid_entity_id (remote_reader_guid r));
          b1 = (case source_timestamp (write_options cc) of
                  Some ts \<Rightarrow> ts_msg x e (Some ts) mb_new | None \<Rightarrow> mb_new)
      in do {
        b2 \<leftarrow> (case target of
                None \<Rightarrow> Some b1
              | Some r \<Rightarrow>
                  let b = dst_submessage e (guid_prefix (remote_reader_guid r)) b1
                  in if bm_is_empty (pending_gap r) then Some b
                     else gap_msg x (pending_gap r) (w_entity_id w) e (remote_reader_guid r) b);
        b3 \<leftarrow> data_msg x cc rid (w_my_guid w) e b2;
        if send_also_heartbeat \<and> \<not> w_like_stateless w then
          let (count, w') = next_heartbeat_count w
          in Some (w', [add_header_and_build (hb_range_msg x w count rid False False b3) (w_prefix w)])
        else Some (w, [add_header_and_build b3 (w_prefix w)]) })"

text \<open>One DATAFRAG message.\<close>

definition frag_message ::
    "ext \<Rightarrow> writer \<Rightarrow> cache_change \<Rightarrow> rtps_reader_proxy option \<Rightarrow> u16 \<Rightarrow> u32 \<Rightarrow> fragnum \<Rightarrow> message option" where
  "frag_message x w cc target fsize sample_size k =
     (let e = w_endianness w;
          rid = (case target of None \<Rightarrow> EntityId_UNKNOWN | Some r \<Rightarrow> guid_entity_id (remote_reader_guid r));
          b1 = (case source_timestamp (write_options cc) of
                  Some ts \<Rightarrow> ts_msg x e (Some ts) mb_new | None \<Rightarrow> mb_new);
          b2 = (case target of
                  None \<Rightarrow> b1 | Some r \<Rightarrow> dst_submessage e (guid_prefix (remote_reader_guid r)) b1)
      in map_option (\<lambda>b. add_header_and_build b (w_prefix w))
           (data_frag_msg x cc rid (w_my_guid w) k fsize sample_size e b2))"

fun collect_options :: "'a option list \<Rightarrow> 'a list option" where
  "collect_options [] = Some []"
| "collect_options (p # ps) = do { m \<leftarrow> p; ms \<leftarrow> collect_options ps; Some (m # ms) }"

definition frag_messages ::
    "ext \<Rightarrow> writer \<Rightarrow> cache_change \<Rightarrow> bool \<Rightarrow> rtps_reader_proxy option \<Rightarrow> (writer \<times> message list) option" where
  "frag_messages x w cc send_also_heartbeat target =
     (let e = w_endianness w; data_sz = payload_size (data_value cc);
          rid = (case target of None \<Rightarrow> EntityId_UNKNOWN | Some r \<Rightarrow> guid_entity_id (remote_reader_guid r))
      in do {
        gaps \<leftarrow> (case target of
                  Some r \<Rightarrow>
                    if bm_is_empty (pending_gap r) then Some []
                    else map_option (\<lambda>b. [add_header_and_build b (w_prefix w)])
                           (gap_msg x (pending_gap r) (w_entity_id w) e (remote_reader_guid r)
                              (dst_submessage e (guid_prefix (remote_reader_guid r)) mb_new))
                | None \<Rightarrow> Some []);
        (num_frags, fsize) \<leftarrow> num_frags_and_frag_size w data_sz;
        frags \<leftarrow> (if data_sz < 2 ^ 32
                  then collect_options (map (frag_message x w cc target fsize (of_nat data_sz)) [1..uint num_frags])
                  else if num_frags = 0 then Some [] else None);
        if send_also_heartbeat \<and> \<not> w_like_stateless w then
          let (count, w') = next_heartbeat_count w
          in Some (w', gaps @ frags
               @ [add_header_and_build (hb_range_msg x w count rid False False mb_new) (w_prefix w)])
        else Some (w, gaps @ frags) })"

text \<open>The result tells whether the sample was fragmented.\<close>

definition send_cache_change ::
    "ext \<Rightarrow> writer \<Rightarrow> cache_change \<Rightarrow> bool \<Rightarrow> rtps_reader_proxy option \<Rightarrow> (bool \<times> writer) writer_result" where
  "send_cache_change x w cc send_also_heartbeat target =
     (if (case to_single_reader (write_options cc) of
            None \<Rightarrow> False
          | Some g \<Rightarrow> (case target of None \<Rightarrow> True | Some r \<Rightarrow> g \<noteq> remote_reader_guid r))
      then Some ((False, w), [])
      else
        let fragmentation_needed = payload_size (data_value cc) > data_max_size_serialized w
        in do {
          (w', ms) \<leftarrow> (if fragmentation_needed then frag_messages x w cc send_also_heartbeat target
                       else data_message x w cc send_also_heartbeat target);
          Some ((fragmentation_needed, w'),
            concat (map (\<lambda>m. case target of
                None \<Rightarrow> send_message_to_readers x w Multicast m (bm_values (readers w))
              | Some r \<Rightarrow> send_message_to_readers x w Unicast m [r]) ms)) })"

section \<open>Commands of the data writer\<close>

definition insert_to_history_buffer ::
    "timestamp \<Rightarrow> dds_data \<Rightarrow> write_options \<Rightarrow> seqnum \<Rightarrow> writer \<Rightarrow> (timestamp \<times> writer) option" where
  "insert_to_history_buffer now dv wo sn w =
     (if sn > sn_zero
      then Some (now, w\<lparr>w_history_buffer := hb_add_change now (cc_new (w_my_guid w) sn wo dv) (w_history_buffer w)\<rparr>)
      else None)"

definition notify_readers :: "seqnum \<Rightarrow> write_options \<Rightarrow> writer \<Rightarrow> writer" where
  "notify_readers sn wo w =
     w\<lparr>readers := bm_map (\<lambda>_ r.
         let r' = notify_new_cache_change sn r
         in case to_single_reader wo of
              Some g \<Rightarrow> if remote_reader_guid r' \<noteq> g then insert_pending_gap sn r' else r'
            | None \<Rightarrow> r') (readers w)\<rparr>"

definition handle_dds_data ::
    "ext \<Rightarrow> timestamp \<Rightarrow> dds_data \<Rightarrow> write_options \<Rightarrow> seqnum \<Rightarrow> writer \<Rightarrow> writer writer_result" where
  "handle_dds_data x now dv wo sn w =
     do { (ts, w1) \<leftarrow> insert_to_history_buffer now dv wo sn w;
          let w2 = (if w_like_stateless w1 then w1 else notify_readers sn wo w1)
          in if push_mode w2 then
               (case hb_get_change (w_history_buffer w2) ts of
                  Some cc \<Rightarrow>
                    do { ((_, w3), es) \<leftarrow> send_cache_change x w2 cc True
                           (case to_single_reader wo of Some g \<Rightarrow> bm_get (readers w2) g | None \<Rightarrow> None);
                         Some (w3, WE_WakeDataWriter # es) }
                | None \<Rightarrow> Some (w2, [WE_WakeDataWriter]))
             else
               let (count, w3) = next_heartbeat_count w2;
                   m = add_header_and_build (hb_range_msg x w2 count EntityId_UNKNOWN False False mb_new) (w_prefix w2)
               in Some (w3, WE_WakeDataWriter # send_message_to_readers x w2 Multicast m (bm_values (readers w2))) }"

definition handle_wait_for_acknowledgments :: "nat \<Rightarrow> writer \<Rightarrow> writer \<times> writer_effect list" where
  "handle_wait_for_acknowledgments all_acked w =
     (let wait = last_seq (w_history_buffer w);
          pending = bm_map (\<lambda>_ _. ())
            (bm_retain (\<lambda>_ rp. is_reliable (rp_qos rp) \<and> all_acked_before rp \<le> wait) (readers w))
      in if bm_is_empty pending then (w\<lparr>w_ack_waiter := None\<rparr>, [WE_AckComplete all_acked])
         else (w\<lparr>w_ack_waiter := Some \<lparr>wait_until = wait, complete_channel = all_acked, readers_pending = pending\<rparr>\<rparr>, []))"

text \<open>
  The loop over the queue of commands, each with the clock reading at which it is taken out. The
  result has the commands that stay in the queue: a stateless writer returns from the loop on a
  request to wait for acknowledgements.
\<close>

fun process_writer_command ::
    "ext \<Rightarrow> (timestamp \<times> writer_command) list \<Rightarrow> writer \<Rightarrow> (writer \<times> (timestamp \<times> writer_command) list) writer_result" where
  "process_writer_command x [] w = Some ((w, []), [])"
| "process_writer_command x ((now, WC_DDSData dv wo sn) # cs) w =
     do { (w1, es1) \<leftarrow> handle_dds_data x now dv wo sn w;
          (r, es2) \<leftarrow> process_writer_command x cs w1;
          Some (r, es1 @ es2) }"
| "process_writer_command x ((now, WC_WaitForAcknowledgments ch) # cs) w =
     (if w_like_stateless w then Some ((w, cs), [WE_AckComplete ch])
      else let (w1, es1) = handle_wait_for_acknowledgments ch w
           in do { (r, es2) \<leftarrow> process_writer_command x cs w1; Some (r, es1 @ es2) })"

section \<open>Heartbeats and cleaning\<close>

definition handle_heartbeat_tick :: "ext \<Rightarrow> timestamp \<Rightarrow> bool \<Rightarrow> writer \<Rightarrow> writer \<times> writer_effect list" where
  "handle_heartbeat_tick x now is_manual_assertion w =
     (if w_like_stateless w then (w, [])
      else
        let last_change = last_seq (w_history_buffer w)
        in if \<forall>rp \<in> set (bm_values (readers w)). last_change < all_acked_before rp then (w, [])
           else
             let (count, w') = next_heartbeat_count w;
                 m = add_header_and_build
                       (hb_range_msg x w count EntityId_UNKNOWN False is_manual_assertion
                         (ts_msg x (w_endianness w) (Some now) mb_new)) (w_prefix w)
             in (w',
                 if w_entity_id w = P2P_BUILTIN_PARTICIPANT_VOLATILE_SECURE_WRITER then
                   concat (map (\<lambda>rp. if last_change < all_acked_before rp then []
                                     else send_message_to_readers x w Unicast m [rp]) (bm_values (readers w)))
                 else send_message_to_readers x w Multicast m (bm_values (readers w))))"

definition min_acked :: "writer \<Rightarrow> seqnum" where
  "min_acked w =
     (case map all_acked_before (bm_values (readers w)) of
        [] \<Rightarrow> sn_zero
      | a # as \<Rightarrow> fold min as a)"

definition remove_all_acked_changes_but_keep_depth :: "nat \<Rightarrow> writer \<Rightarrow> writer" where
  "remove_all_acked_changes_but_keep_depth n w =
     (let first_keeper =
            (if \<not> w_like_stateless w
             then max (sn_sub (min_acked w) (int n)) (first_seq (w_history_buffer w))
             else first_seq (w_history_buffer w))
      in w\<lparr>w_history_buffer := hb_remove_changes_before first_keeper (w_history_buffer w)\<rparr>)"

text \<open>\<open>d as usize\<close> of the history depth: a negative depth becomes a huge number.\<close>

definition handle_cache_cleaning :: "writer \<Rightarrow> writer" where
  "handle_cache_cleaning w =
     (case history (w_qos_policies w) of
        None \<Rightarrow> remove_all_acked_changes_but_keep_depth 1 w
      | Some KeepAll \<Rightarrow> remove_all_acked_changes_but_keep_depth 32 w
      | Some (KeepLast d) \<Rightarrow> remove_all_acked_changes_but_keep_depth (min (nat (d mod 2 ^ 64)) 32) w)"

section \<open>Acknowledgements and repairs\<close>

definition update_ack_waiters :: "guid \<Rightarrow> seqnum option \<Rightarrow> writer \<Rightarrow> writer \<times> writer_effect list" where
  "update_ack_waiters g acked_before w =
     (case w_ack_waiter w of
        None \<Rightarrow> (w, [])
      | Some aw \<Rightarrow>
          let (completed, aw') = reader_acked_or_lost g acked_before aw
          in if completed then (w\<lparr>w_ack_waiter := None\<rparr>, [WE_AckComplete (complete_channel aw')])
             else (w\<lparr>w_ack_waiter := Some aw'\<rparr>, []))"

text \<open>The update of the reader's proxy by an ACKNACK, with the repair timer it may start.\<close>

definition acknack_proxy ::
    "ack_nack \<Rightarrow> seqnum \<Rightarrow> writer \<Rightarrow> rtps_reader_proxy \<Rightarrow> (rtps_reader_proxy \<times> writer_effect list) option" where
  "acknack_proxy an lastseq w rp =
     do { rp1 \<leftarrow> rp_handle_ack_nack (Ack_AckNack an) lastseq rp;
          if all_acked_before rp1 > lastseq then Some (rp1\<lparr>repair_mode := False\<rparr>, [])
          else Some (rp1\<lparr>repair_mode := True\<rparr>,
                 [WE_SetTimeout (nack_response_delay w) (WT_SendRepairData (remote_reader_guid rp1))]) }"

definition handle_ack_nack :: "ext \<Rightarrow> guid_prefix \<Rightarrow> ack_submessage \<Rightarrow> writer \<Rightarrow> writer writer_result" where
  "handle_ack_nack x reader_guid_prefix ack w =
     (if \<not> is_reliable (w_qos_policies w) \<or> w_like_stateless w then Some (w, [])
      else case ack of
        Ack_AckNack an \<Rightarrow>
          let lastseq = last_seq (w_history_buffer w);
              reader_guid = GUID reader_guid_prefix (an_reader_id an);
              (w1, es1) = update_ack_waiters reader_guid (Some (bitmap_base (reader_sn_state an))) w
          in do {
            (w2, es2) \<leftarrow> (case bm_get (readers w1) reader_guid of
                Some rp \<Rightarrow> map_option (\<lambda>(rp', es). (w1\<lparr>readers := bm_insert reader_guid rp' (readers w1)\<rparr>, es))
                             (acknack_proxy an lastseq w1 rp)
              | None \<Rightarrow> Some (w1, []));
            es3 \<leftarrow> (case bm_get (readers w2) reader_guid of
                Some rp \<Rightarrow>
                  if bm_is_empty (pending_gap rp) then Some []
                  else map_option (\<lambda>b. send_message_to_readers x w2 Unicast (add_header_and_build b (w_prefix w2)) [rp])
                         (gap_msg x (pending_gap rp) (w_entity_id w2) (w_endianness w2) reader_guid mb_new)
              | None \<Rightarrow> Some []);
            Some (w2, es1 @ es2 @ es3) }
      | Ack_NackFrag nf \<Rightarrow>
          let reader_guid = GUID reader_guid_prefix (nf_reader_id nf)
          in do {
            w1 \<leftarrow> (case bm_get (readers w) reader_guid of
                Some rp \<Rightarrow> map_option (\<lambda>rp'. w\<lparr>readers := bm_insert reader_guid rp' (readers w)\<rparr>)
                             (mark_frags_requested x (nf_writer_sn nf) (fragment_number_state nf) rp)
              | None \<Rightarrow> Some w);
            Some (w1, [WE_SetTimeout (nackfrag_response_delay w1) (WT_SendRepairFrags reader_guid)]) })"

text \<open>The GAP message for numbers that are not sent any more.\<close>

definition repair_gap ::
    "ext \<Rightarrow> writer \<Rightarrow> seqnum option \<Rightarrow> seqnum btree_set \<Rightarrow> rtps_reader_proxy \<Rightarrow> (rtps_reader_proxy \<times> writer_effect list) option" where
  "repair_gap x w all_irrelevant_before no_longer_relevant rp =
     (if bm_is_empty no_longer_relevant \<and> all_irrelevant_before = None then Some (rp, [])
      else
        let e = w_endianness w; g = remote_reader_guid rp;
            b1 = dst_submessage e (guid_prefix g) mb_new;
            (b2, rp2) = (case all_irrelevant_before of
                None \<Rightarrow> (b1, rp)
              | Some sn \<Rightarrow> (gap_msg_before x sn (w_entity_id w) e g b1, remove_from_unsent_set_all_before sn rp))
        in do {
          (b3, rp3) \<leftarrow> (if bm_is_empty no_longer_relevant then Some (b2, rp2)
              else map_option (\<lambda>b. (b, fold mark_change_sent (bs_iter no_longer_relevant) rp2))
                     (gap_msg x no_longer_relevant (w_entity_id w) e g b2));
          Some (rp3, send_message_to_readers x w Unicast (add_header_and_build b3 (w_prefix w)) [rp3]) })"

definition handle_repair_data_send_worker ::
    "ext \<Rightarrow> rtps_reader_proxy \<Rightarrow> writer \<Rightarrow> (rtps_reader_proxy \<times> writer) writer_result" where
  "handle_repair_data_send_worker x rp w =
     (case first_unsent_change rp of
        None \<Rightarrow> Some ((rp\<lparr>repair_mode := False\<rparr>, w), [])
      | Some unsent_sn \<Rightarrow>
          let first_available = first_seq (w_history_buffer w);
              all_irrelevant_before = (if unsent_sn < first_available then Some first_available else None)
          in if bs_contains (pending_gap rp) unsent_sn \<or> all_irrelevant_before \<noteq> None then
               map_option (\<lambda>(rp', es). ((rp', w), es)) (repair_gap x w all_irrelevant_before (pending_gap rp) rp)
             else
               (case hb_get_by_sn (w_history_buffer w) unsent_sn of
                  Some cc \<Rightarrow>
                    do { ((fragmented, w1), es) \<leftarrow> send_cache_change x w cc False (Some rp);
                         (rp1, es1) \<leftarrow> (if fragmented then
                             map_option (\<lambda>(num_frags, _).
                               (mark_all_frags_requested x unsent_sn (unat num_frags) rp,
                                [WE_SetTimeout (repairfrags_continue_delay w1) (WT_SendRepairFrags (remote_reader_guid rp))]))
                               (num_frags_and_frag_size w1 (payload_size (data_value cc)))
                           else Some (rp, []));
                         Some ((mark_change_sent unsent_sn rp1, w1), es @ es1) }
                | None \<Rightarrow>
                    map_option (\<lambda>(rp', es). ((rp', w), es)) (repair_gap x w None (bs_insert unsent_sn bm_empty) rp)))"

definition handle_repair_data_send :: "ext \<Rightarrow> guid \<Rightarrow> writer \<Rightarrow> writer writer_result" where
  "handle_repair_data_send x to_reader w =
     (if w_like_stateless w then Some (w, [])
      else case bm_get (readers w) to_reader of
             None \<Rightarrow> Some (w, [])
           | Some rp \<Rightarrow>
               do { ((rp', w1), es) \<leftarrow> handle_repair_data_send_worker x rp (w\<lparr>readers := bm_remove to_reader (readers w)\<rparr>);
                    Some (w1\<lparr>readers := bm_insert (remote_reader_guid rp') rp' (readers w1)\<rparr>, es) })"

text \<open>The loop over the requested fragments; it ends early when a sample is meant for another reader.\<close>

fun repair_frags_loop ::
    "ext \<Rightarrow> (seqnum \<times> fragnum) list \<Rightarrow> writer \<Rightarrow> rtps_reader_proxy \<Rightarrow> (rtps_reader_proxy \<times> writer_effect list) option" where
  "repair_frags_loop x [] w rp = Some (rp, [])"
| "repair_frags_loop x ((sn, k) # fs) w rp =
     (case hb_get_by_sn (w_history_buffer w) sn of
        Some cc \<Rightarrow>
          if (case to_single_reader (write_options cc) of Some g \<Rightarrow> g \<noteq> remote_reader_guid rp | None \<Rightarrow> False)
          then Some (rp, [])
          else
            let e = w_endianness w;
                b1 = (case source_timestamp (write_options cc) of
                        Some ts \<Rightarrow> ts_msg x e (Some ts) mb_new | None \<Rightarrow> mb_new)
            in do { b \<leftarrow> data_frag_msg x cc (guid_entity_id (remote_reader_guid rp)) (w_my_guid w) k
                       (of_nat (data_max_size_serialized w)) (of_nat (payload_size (data_value cc))) e b1;
                    rp1 \<leftarrow> mark_frag_sent x sn k rp;
                    (rp2, es) \<leftarrow> repair_frags_loop x fs w rp1;
                    Some (rp2, send_message_to_readers x w Unicast (add_header_and_build b (w_prefix w)) [rp] @ es) }
      | None \<Rightarrow> do { rp1 \<leftarrow> mark_frag_sent x sn k rp; repair_frags_loop x fs w rp1 })"

definition handle_repair_frags_send :: "ext \<Rightarrow> guid \<Rightarrow> writer \<Rightarrow> writer writer_result" where
  "handle_repair_frags_send x to_reader w =
     (if w_like_stateless w then Some (w, [])
      else case bm_get (readers w) to_reader of
             None \<Rightarrow> Some (w, [])
           | Some rp \<Rightarrow>
               do { (rp', es) \<leftarrow> repair_frags_loop x (fbv_take x 8 (frags_requested_iterator rp))
                           (w\<lparr>readers := bm_remove to_reader (readers w)\<rparr>) rp;
                    Some (w\<lparr>readers := bm_insert (remote_reader_guid rp') rp' (bm_remove to_reader (readers w))\<rparr>, es) })"

definition handle_timed_event :: "ext \<Rightarrow> timestamp \<Rightarrow> writer_timed_event \<Rightarrow> writer \<Rightarrow> writer writer_result" where
  "handle_timed_event x now ev w =
     (case ev of
        WT_Heartbeat \<Rightarrow>
          let (w1, es) = handle_heartbeat_tick x now False w
          in Some (w1, es @ (case heartbeat_period w1 of
                               Some p \<Rightarrow> [WE_SetTimeout (to_std p) WT_Heartbeat] | None \<Rightarrow> []))
      | WT_CacheCleaning \<Rightarrow>
          let w1 = handle_cache_cleaning w
          in Some (w1, [WE_SetTimeout (to_std (cache_cleaning_period w1)) WT_CacheCleaning])
      | WT_SendRepairData g \<Rightarrow>
          do { (w1, es) \<leftarrow> handle_repair_data_send x g w;
               (case bm_get (readers w1) g of
                  Some rp \<Rightarrow>
                    if repair_mode rp then
                      do { delay \<leftarrow> dur_div (case deadline (w_qos_policies w1) of
                                 Some dl \<Rightarrow> deadline_period dl | None \<Rightarrow> dur_from_millis 100) 5;
                           Some (w1, es @ [WE_SetTimeout (to_std delay) (WT_SendRepairData g)]) }
                    else Some (w1, es)
                | None \<Rightarrow> Some (w1, es)) }
      | WT_SendRepairFrags g \<Rightarrow>
          do { (w1, es) \<leftarrow> handle_repair_frags_send x g w;
               Some (w1, es @ (case bm_get (readers w1) g of
                   Some rp \<Rightarrow> if repair_frags_requested x rp
                              then [WE_SetTimeout (repairfrags_continue_delay w1) (WT_SendRepairFrags g)] else []
                 | None \<Rightarrow> [])) })"

section \<open>Matching readers\<close>

text \<open>The count of added proxies, and the writer.\<close>

definition matched_reader_update :: "rtps_reader_proxy \<Rightarrow> writer \<Rightarrow> (int \<times> writer) option" where
  "matched_reader_update rp w =
     (case bm_get (readers w) (remote_reader_guid rp) of
        Some old \<Rightarrow> Some (0, w\<lparr>readers := bm_insert (remote_reader_guid rp) (rp_update old rp) (readers w)\<rparr>)
      | None \<Rightarrow>
          do { rp' \<leftarrow> (if is_volatile (w_qos_policies w)
                      then set_pending_gap_up_to (last_seq (w_history_buffer w)) rp else Some rp);
               Some (1, w\<lparr>readers := bm_insert (remote_reader_guid rp) rp' (readers w)\<rparr>) })"

definition update_reader_proxy :: "rtps_reader_proxy \<Rightarrow> qos_policies \<Rightarrow> writer \<Rightarrow> writer writer_result" where
  "update_reader_proxy rp requested_qos w =
     (case compliance_failure_wrt (w_qos_policies w) requested_qos of
        None \<Rightarrow>
          do { (change, w1) \<leftarrow> matched_reader_update rp w;
               if change > 0 then
                 let w2 = w1\<lparr>matched_readers_count_total := wrap_i32 (matched_readers_count_total w1 + change)\<rparr>
                 in Some (w2,
                      [WE_Status (PublicationMatched (cwc_new (matched_readers_count_total w2) change)
                         (cwc_new (wrap_i32 (int (bm_len (readers w2)))) change) (remote_reader_guid rp)),
                       WE_ParticipantStatus (RemoteReaderMatched (w_my_guid w2) (remote_reader_guid rp))])
               else Some (w1, []) }
      | Some bad_policy_id \<Rightarrow>
          let w1 = w\<lparr>requested_incompatible_qos_count := wrap_i32 (requested_incompatible_qos_count w + 1)\<rparr>
          in Some (w1,
               [WE_Status (OfferedIncompatibleQos (cwc_new (requested_incompatible_qos_count w1) 1) bad_policy_id
                  (remote_reader_guid rp) requested_qos (w_qos_policies w1)),
                WE_ParticipantStatus (RemoteReaderQosIncompatible (w_my_guid w1) (remote_reader_guid rp)
                  requested_qos (w_qos_policies w1))]))"

definition reader_lost :: "guid \<Rightarrow> writer \<Rightarrow> writer \<times> writer_effect list" where
  "reader_lost g w =
     (let (w1, es1) =
            (if bm_contains (readers w) g then
               let w' = w\<lparr>readers := bm_remove g (readers w)\<rparr>
               in (w', [WE_Status (PublicationMatched (cwc_new (matched_readers_count_total w') 0)
                          (cwc_new (wrap_i32 (int (bm_len (readers w')))) (-1)) g)])
             else (w, []));
          (w2, es2) = update_ack_waiters g None w1
      in (w2, es1 @ es2))"

definition writer_participant_lost :: "guid_prefix \<Rightarrow> writer \<Rightarrow> writer \<times> writer_effect list" where
  "writer_participant_lost p w =
     fold (\<lambda>g (w, es). case reader_lost g w of (w', es') \<Rightarrow> (w', es @ es'))
       (filter (in_guid_range (guid_prefix_range p)) (bm_keys (readers w))) (w, [])"

end
