(* ===== verification/Writer_Correct.thy ===== *)
theory Writer_Correct
  imports Writer
begin

text \<open>
  Correctness of the RTPS writer (the definitions are in \<open>Writer\<close>): its invariant and the absence
  of panics on every sequence of valid events, what history cleaning keeps, to whom a sample for a
  single reader is sent, and that repairs make progress.
\<close>

section \<open>Where a message goes\<close>

lemma set_fresh_locators: "set (fresh_locators ls already) = set ls - set already"
  by (induction ls already rule: fresh_locators.induct) auto

lemma distinct_fresh_locators: "distinct (fresh_locators ls already)"
  by (induction ls already rule: fresh_locators.induct) (auto simp: set_fresh_locators)

lemma set_send_locators:
  "set (send_locators mode rs already) = (\<Union>r \<in> set rs. set (reader_locators mode r)) - set already"
  by (induction mode rs already rule: send_locators.induct) (auto simp: set_fresh_locators Let_def)

lemma distinct_send_locators: "distinct (send_locators mode rs already)"
  by (induction mode rs already rule: send_locators.induct)
    (auto simp: set_send_locators set_fresh_locators distinct_fresh_locators Let_def)

lemma reader_locators_subset:
  "set (reader_locators mode r) \<subseteq> set (rp_unicast_locator_list r) \<union> set (rp_multicast_locator_list r)"
  by (cases mode) (auto split: option.splits)

section \<open>Building messages does not panic\<close>

lemma collect_options_Some:
  "\<forall>a \<in> set xs. f a \<noteq> None \<Longrightarrow> \<exists>ys. collect_options (map f xs) = Some ys"
  by (induction xs) auto

lemma gap_msg_total:
  assumes "\<forall>k. bs_contains st k \<longrightarrow> 1 \<le> k \<and> in_i64 (k + 1)"
  shows "\<exists>b'. gap_msg x st wid e rg b = Some b'"
proof (cases "bm_is_empty st")
  case True
  then show ?thesis by (simp add: gap_msg_def)
next
  case False
  with mk_gap_spec [OF False assms, of wid rg] show ?thesis
    by (metis gap_msg_def option.simps(9))
qed

lemma data_frag_msg_total:
  assumes "1 \<le> k"
  shows "\<exists>b'. data_frag_msg x cc rid wguid k fs sz e b = Some b'"
  using assms by (cases "data_value cc") (simp_all add: data_frag_msg_def sp_bytes_slice_eq Let_def)

lemma frag_message_total: "1 \<le> k \<Longrightarrow> frag_message x w cc target fs sz k \<noteq> None"
  using data_frag_msg_total [of k] by (fastforce simp: frag_message_def Let_def)

lemma next_heartbeat_count_other [simp]:
  "w_history_buffer (snd (next_heartbeat_count w)) = w_history_buffer w"
  "readers (snd (next_heartbeat_count w)) = readers w"
  "data_max_size_serialized (snd (next_heartbeat_count w)) = data_max_size_serialized w"
  "w_like_stateless (snd (next_heartbeat_count w)) = w_like_stateless w"
  "w_qos_policies (snd (next_heartbeat_count w)) = w_qos_policies w"
  "w_my_guid (snd (next_heartbeat_count w)) = w_my_guid w"
  by (simp_all add: next_heartbeat_count_def)

text \<open>Sending leaves the writer as it is, but for the heartbeat counter.\<close>

definition same_but_count :: "writer \<Rightarrow> writer \<Rightarrow> bool" where
  "same_but_count w w' \<longleftrightarrow> (\<exists>n. w' = w\<lparr>heartbeat_message_counter := n\<rparr>)"

lemma same_but_count_refl [simp]: "same_but_count w w"
  by (auto simp: same_but_count_def intro: exI [of _ "heartbeat_message_counter w"])

lemma same_but_count_next: "same_but_count w (snd (next_heartbeat_count w))"
  by (auto simp: same_but_count_def next_heartbeat_count_def)

definition gap_bounded :: "seqnum btree_set \<Rightarrow> bool" where
  "gap_bounded st \<longleftrightarrow> (\<forall>k. bs_contains st k \<longrightarrow> 1 \<le> k \<and> in_i64 (k + 1))"

lemma data_message_total:
  assumes "ext_ok x" "\<forall>r. target = Some r \<longrightarrow> gap_bounded (pending_gap r)"
  shows "\<exists>w' ms. data_message x w cc hb target = Some (w', ms) \<and> same_but_count w w'"
proof -
  obtain b2 where b2: "(case target of
      None \<Rightarrow> Some b1
    | Some r \<Rightarrow>
        let b = dst_submessage (w_endianness w) (guid_prefix (remote_reader_guid r)) b1
        in if bm_is_empty (pending_gap r) then Some b
           else gap_msg x (pending_gap r) (w_entity_id w) (w_endianness w) (remote_reader_guid r) b) = Some (b2 b1)" for b1
  proof (cases target)
    case (Some r)
    with assms(2) have "\<exists>b'. gap_msg x (pending_gap r) (w_entity_id w) (w_endianness w) (remote_reader_guid r) b = Some b'" for b
      by (intro gap_msg_total) (simp add: gap_bounded_def)
    then have "\<forall>b1. \<exists>b2. (case target of
        None \<Rightarrow> Some b1
      | Some r \<Rightarrow>
          let b = dst_submessage (w_endianness w) (guid_prefix (remote_reader_guid r)) b1
          in if bm_is_empty (pending_gap r) then Some b
             else gap_msg x (pending_gap r) (w_entity_id w) (w_endianness w) (remote_reader_guid r) b) = Some b2"
      using Some by (simp add: Let_def)
    then show thesis using that by metis
  qed (use that in auto)
  show ?thesis
    unfolding data_message_def Let_def b2 [unfolded Let_def]
    using same_but_count_next [of w]
    by (auto simp: data_msg_eq [OF assms(1)] split: prod.splits)
qed

definition frag_size_ok :: "writer \<Rightarrow> bool" where
  "frag_size_ok w \<longleftrightarrow> 0 < data_max_size_serialized w \<and> data_max_size_serialized w < 2 ^ 16"

lemma num_frags_total:
  assumes "frag_size_ok w"
  shows "\<exists>r. num_frags_and_frag_size w sz = Some r"
proof -
  have "(of_nat (data_max_size_serialized w) :: u32) \<noteq> 0"
    using assms by (simp add: frag_size_ok_def word_of_nat_eq_0_iff nat_dvd_not_less)
  then show ?thesis by (simp add: num_frags_and_frag_size_def Let_def)
qed

lemma frag_messages_total:
  assumes "\<forall>r. target = Some r \<longrightarrow> gap_bounded (pending_gap r)" "frag_size_ok w"
    and "payload_size (data_value cc) < 2 ^ 32"
  shows "\<exists>w' ms. frag_messages x w cc hb target = Some (w', ms) \<and> same_but_count w w'"
proof -
  obtain nf fs where nf: "num_frags_and_frag_size w (payload_size (data_value cc)) = Some (nf, fs)"
    using num_frags_total [OF assms(2)] by (metis surj_pair)
  obtain frags where frags: "collect_options
      (map (frag_message x w cc target fs (of_nat (payload_size (data_value cc)))) [1..uint nf]) = Some frags"
    using collect_options_Some [of "[1..uint nf]" "frag_message x w cc target fs (of_nat (payload_size (data_value cc)))"]
      frag_message_total by auto
  have "\<exists>gaps. (case target of
        Some r \<Rightarrow>
          if bm_is_empty (pending_gap r) then Some []
          else map_option (\<lambda>b. [add_header_and_build b (w_prefix w)])
                 (gap_msg x (pending_gap r) (w_entity_id w) (w_endianness w) (remote_reader_guid r)
                    (dst_submessage (w_endianness w) (guid_prefix (remote_reader_guid r)) mb_new))
      | None \<Rightarrow> Some []) = Some gaps"
    using assms(1) gap_msg_total by (cases target) (simp_all add: gap_bounded_def)
  then obtain gaps where gaps: "(case target of
        Some r \<Rightarrow>
          if bm_is_empty (pending_gap r) then Some []
          else map_option (\<lambda>b. [add_header_and_build b (w_prefix w)])
                 (gap_msg x (pending_gap r) (w_entity_id w) (w_endianness w) (remote_reader_guid r)
                    (dst_submessage (w_endianness w) (guid_prefix (remote_reader_guid r)) mb_new))
      | None \<Rightarrow> Some []) = Some gaps" ..
  show ?thesis
    unfolding frag_messages_def Let_def gaps nf
    using assms(3) same_but_count_next [of w] by (auto simp: frags split: prod.splits)
qed

text \<open>The sample is meant for a single reader, and the target is not that reader.\<close>

definition meant_for_another :: "cache_change \<Rightarrow> rtps_reader_proxy option \<Rightarrow> bool" where
  "meant_for_another cc target \<longleftrightarrow>
     (case to_single_reader (write_options cc) of
        None \<Rightarrow> False
      | Some g \<Rightarrow> (case target of None \<Rightarrow> True | Some r \<Rightarrow> g \<noteq> remote_reader_guid r))"

lemma send_cache_change_skip:
  "meant_for_another cc target \<Longrightarrow> send_cache_change x w cc hb target = Some ((False, w), [])"
  by (simp add: send_cache_change_def meant_for_another_def)

lemma send_cache_change_send:
  assumes "\<not> meant_for_another cc target"
  shows "send_cache_change x w cc hb target =
    (let fragmentation_needed = payload_size (data_value cc) > data_max_size_serialized w
     in do {
       (w', ms) \<leftarrow> (if fragmentation_needed then frag_messages x w cc hb target else data_message x w cc hb target);
       Some ((fragmentation_needed, w'),
         concat (map (\<lambda>m. case target of
             None \<Rightarrow> send_message_to_readers x w Multicast m (bm_values (readers w))
           | Some r \<Rightarrow> send_message_to_readers x w Unicast m [r]) ms)) })"
  using assms unfolding send_cache_change_def meant_for_another_def by (rule if_not_P)

lemma send_cache_change_total:
  assumes "ext_ok x" "\<forall>r. target = Some r \<longrightarrow> gap_bounded (pending_gap r)" "frag_size_ok w"
    and "payload_size (data_value cc) < 2 ^ 32"
  obtains f w' es where "send_cache_change x w cc hb target = Some ((f, w'), es)" "same_but_count w w'"
proof (cases "meant_for_another cc target")
  case True
  then show thesis using that [OF send_cache_change_skip same_but_count_refl] by blast
next
  case False
  obtain w' ms where ms: "(if payload_size (data_value cc) > data_max_size_serialized w then frag_messages x w cc hb target
      else data_message x w cc hb target) = Some (w', ms)" and w': "same_but_count w w'"
    using data_message_total [OF assms(1,2), where w = w and cc = cc and hb = hb]
      frag_messages_total [OF assms(2,3,4), where x = x and hb = hb]
    by (cases "payload_size (data_value cc) > data_max_size_serialized w") auto
  show thesis
    using that [OF _ w'] unfolding send_cache_change_send [OF False] Let_def ms by simp
qed

section \<open>The invariant of the writer\<close>

text \<open>
  A proxy is stored under its own GUID, and the numbers it is to be sent or told to skip are numbers
  the writer has used.
\<close>

definition proxy_inv :: "seqnum \<Rightarrow> guid \<Rightarrow> rtps_reader_proxy \<Rightarrow> bool" where
  "proxy_inv n g rp \<longleftrightarrow> remote_reader_guid rp = g
     \<and> (\<forall>k. bs_contains (pending_gap rp) k \<longrightarrow> 1 \<le> k \<and> k \<le> n)
     \<and> (\<forall>k. bs_contains (unsent_changes rp) k \<longrightarrow> k \<le> n)"

definition writer_inv :: "writer \<Rightarrow> bool" where
  "writer_inv w \<longleftrightarrow>
     hb_inv (w_history_buffer w)
     \<and> 1 \<le> first_seq (w_history_buffer w) \<and> last_seq (w_history_buffer w) < i64_max
     \<and> (\<forall>sn cc. hb_get_by_sn (w_history_buffer w) sn = Some cc \<longrightarrow> payload_size (data_value cc) < 2 ^ 32)
     \<and> frag_size_ok w
     \<and> (\<forall>g rp. bm_get (readers w) g = Some rp \<longrightarrow> proxy_inv (last_seq (w_history_buffer w)) g rp)"

lemma proxy_inv_gap_bounded: "proxy_inv n g rp \<Longrightarrow> n < i64_max \<Longrightarrow> gap_bounded (pending_gap rp)"
  unfolding proxy_inv_def gap_bounded_def in_i64_def by (force simp: i64_min_def)

lemma writer_invD:
  assumes "writer_inv w"
  shows "hb_inv (w_history_buffer w)" "1 \<le> first_seq (w_history_buffer w)" "last_seq (w_history_buffer w) < i64_max"
    "hb_get_by_sn (w_history_buffer w) sn = Some cc \<Longrightarrow> payload_size (data_value cc) < 2 ^ 32"
    "frag_size_ok w"
    "bm_get (readers w) g = Some rp \<Longrightarrow> proxy_inv (last_seq (w_history_buffer w)) g rp"
  using assms unfolding writer_inv_def by blast+

lemma writer_inv_last: "writer_inv w \<Longrightarrow> 0 \<le> last_seq (w_history_buffer w)"
  by (auto simp: writer_inv_def hb_inv_def)

lemma same_but_count_inv: "same_but_count w w' \<Longrightarrow> writer_inv w \<Longrightarrow> writer_inv w'"
  by (auto simp: same_but_count_def writer_inv_def frag_size_ok_def)

lemma writer_inv_insert_reader:
  "writer_inv w \<Longrightarrow> proxy_inv (last_seq (w_history_buffer w)) g rp \<Longrightarrow> writer_inv (w\<lparr>readers := bm_insert g rp (readers w)\<rparr>)"
  by (auto simp: writer_inv_def frag_size_ok_def)

lemma writer_inv_remove_reader: "writer_inv w \<Longrightarrow> writer_inv (w\<lparr>readers := bm_remove g (readers w)\<rparr>)"
  by (auto simp: writer_inv_def frag_size_ok_def split: if_splits)

lemma writer_inv_other [simp]:
  "writer_inv (w\<lparr>w_ack_waiter := a\<rparr>) = writer_inv w"
  "writer_inv (w\<lparr>matched_readers_count_total := n\<rparr>) = writer_inv w"
  "writer_inv (w\<lparr>requested_incompatible_qos_count := n\<rparr>) = writer_inv w"
  by (simp_all add: writer_inv_def frag_size_ok_def)

lemma writer_inv_new: "writer_new g topic stateless qos = Some (w, es) \<Longrightarrow> writer_inv w"
  by (auto simp: writer_new_def writer_inv_def hb_inv_new frag_size_ok_def Let_def hb_get_by_sn_def
      split: if_splits option.splits bind_splits) (simp_all add: hb_new_def sn_new_def i64_max_def)

section \<open>The handlers keep the invariant and do not panic\<close>

text \<open>\<open>steps_ok w r\<close>: the handler did not panic, and the writer it left satisfies the invariant.\<close>

definition steps_ok :: "writer writer_result \<Rightarrow> bool" where
  "steps_ok r \<longleftrightarrow> (\<exists>w es. r = Some (w, es) \<and> writer_inv w)"

lemma steps_ok_Some [simp]: "steps_ok (Some (w, es)) \<longleftrightarrow> writer_inv w"
  by (simp add: steps_ok_def)

definition sample_ok :: "writer \<Rightarrow> timestamp \<Rightarrow> dds_data \<Rightarrow> write_options \<Rightarrow> seqnum \<Rightarrow> bool" where
  "sample_ok w now dv wo sn \<longleftrightarrow>
     hb_fresh (w_history_buffer w) now (cc_new (w_my_guid w) sn wo dv) \<and> sn < i64_max \<and> payload_size dv < 2 ^ 32"

lemma proxy_inv_mono: "proxy_inv n g rp \<Longrightarrow> n \<le> n' \<Longrightarrow> proxy_inv n' g rp"
  by (fastforce simp: proxy_inv_def)

lemma hb_add_change_seqs:
  "first_seq (hb_add_change ts cc h) = first_seq h"
  "last_seq (hb_add_change ts cc h) = max (last_seq h) (sequence_number cc)"
  by (simp_all add: hb_add_change_def Let_def)

lemma insert_history_inv:
  assumes inv: "writer_inv w" and sample: "sample_ok w now dv wo sn"
  shows "\<exists>w1. insert_to_history_buffer now dv wo sn w = Some (now, w1) \<and> writer_inv w1
    \<and> last_seq (w_history_buffer w1) = sn \<and> hb_get_change (w_history_buffer w1) now = Some (cc_new (w_my_guid w) sn wo dv)"
proof -
  let ?cc = "cc_new (w_my_guid w) sn wo dv"
  let ?h = "hb_add_change now ?cc (w_history_buffer w)"
  have fresh: "hb_fresh (w_history_buffer w) now ?cc" and sn: "last_seq (w_history_buffer w) < sn" "sn < i64_max"
    using sample by (simp_all add: sample_ok_def hb_fresh_def)
  have mono: "proxy_inv sn g rp" if "proxy_inv (last_seq (w_history_buffer w)) g rp" for g rp
    using proxy_inv_mono [OF that] sn(1) by simp
  have "writer_inv (w\<lparr>w_history_buffer := ?h\<rparr>)"
    using writer_invD [OF inv] sn sample history.inv_add [OF writer_invD(1) [OF inv] fresh]
      history.get_add [OF writer_invD(1) [OF inv] fresh]
    by (auto simp: writer_inv_def hb_add_change_seqs frag_size_ok_def sample_ok_def intro: mono split: if_splits)
  then show ?thesis
    using sn writer_inv_last [OF inv]
    by (simp add: insert_to_history_buffer_def sn_zero_def hb_add_change_seqs hb_get_change_def)
      (simp add: hb_add_change_def Let_def)
qed

lemma proxy_inv_notify: "proxy_inv n g rp \<Longrightarrow> sn \<le> n \<Longrightarrow> proxy_inv n g (notify_new_cache_change sn rp)"
  by (simp add: proxy_inv_def notify_new_cache_change_def)

lemma proxy_inv_insert_gap: "proxy_inv n g rp \<Longrightarrow> 1 \<le> sn \<Longrightarrow> sn \<le> n \<Longrightarrow> proxy_inv n g (insert_pending_gap sn rp)"
  by (simp add: proxy_inv_def insert_pending_gap_def)

lemma notify_readers_inv:
  assumes inv: "writer_inv w" and "1 \<le> sn" "sn \<le> last_seq (w_history_buffer w)"
  shows "writer_inv (notify_readers sn wo w)"
proof -
  have "proxy_inv (last_seq (w_history_buffer w)) g rp" if "bm_get (readers (notify_readers sn wo w)) g = Some rp" for g rp
  proof -
    from that obtain rp0 where rp0: "bm_get (readers w) g = Some rp0"
      by (auto simp: notify_readers_def)
    note inv0 = proxy_inv_notify [OF writer_invD(6) [OF inv rp0] assms(3)]
    show ?thesis
      using that inv0 proxy_inv_insert_gap [OF inv0 assms(2,3)]
      by (cases "to_single_reader wo") (auto simp: notify_readers_def rp0 Let_def split: if_splits)
  qed
  then show ?thesis
    using inv by (simp add: writer_inv_def notify_readers_def frag_size_ok_def)
qed

lemma notify_readers_other [simp]:
  "w_history_buffer (notify_readers sn wo w) = w_history_buffer w" "push_mode (notify_readers sn wo w) = push_mode w"
  by (simp_all add: notify_readers_def)

lemma handle_dds_data_ok:
  assumes "ext_ok x" and inv: "writer_inv w" and sample: "sample_ok w now dv wo sn"
  shows "steps_ok (handle_dds_data x now dv wo sn w)"
proof -
  obtain w1 where w1: "insert_to_history_buffer now dv wo sn w = Some (now, w1)" "writer_inv w1"
      "last_seq (w_history_buffer w1) = sn" "hb_get_change (w_history_buffer w1) now = Some (cc_new (w_my_guid w) sn wo dv)"
    using insert_history_inv [OF inv sample] by blast
  have "1 \<le> sn"
    using writer_inv_last [OF inv] sample by (simp add: sample_ok_def hb_fresh_def)
  define w2 where "w2 = (if w_like_stateless w1 then w1 else notify_readers sn wo w1)"
  have w2: "writer_inv w2" "hb_get_change (w_history_buffer w2) now = Some (cc_new (w_my_guid w) sn wo dv)"
    using w1 \<open>1 \<le> sn\<close> by (auto simp: w2_def notify_readers_inv)
  let ?target = "case to_single_reader wo of Some g \<Rightarrow> bm_get (readers w2) g | None \<Rightarrow> None"
  have gap: "\<forall>r. ?target = Some r \<longrightarrow> gap_bounded (pending_gap r)"
    using writer_invD(3,6) [OF w2(1)] by (auto intro: proxy_inv_gap_bounded split: option.splits)
  obtain f w3 es where w3: "send_cache_change x w2 (cc_new (w_my_guid w) sn wo dv) True ?target = Some ((f, w3), es)"
      "same_but_count w2 w3"
    using send_cache_change_total [OF assms(1) gap writer_invD(5) [OF w2(1)], of "cc_new (w_my_guid w) sn wo dv" True]
      sample by (auto simp: sample_ok_def)
  have "writer_inv w3" "writer_inv (snd (next_heartbeat_count w2))"
    using same_but_count_inv w3(2) same_but_count_next w2(1) by blast+
  then show ?thesis
    unfolding handle_dds_data_def w1(1) Option.bind.simps prod.case w2_def [symmetric] Let_def
    by (auto simp: w2(2) w3(1) split: prod.splits)
qed

lemma wait_for_acks_ok: "writer_inv w \<Longrightarrow> writer_inv (fst (handle_wait_for_acknowledgments ch w))"
  by (simp add: handle_wait_for_acknowledgments_def Let_def)

lemma handle_heartbeat_tick_ok: "writer_inv w \<Longrightarrow> writer_inv (fst (handle_heartbeat_tick x now m w))"
  using same_but_count_inv [OF same_but_count_next, of w]
  by (auto simp: handle_heartbeat_tick_def Let_def split: prod.splits)

lemma remove_all_acked_inv:
  assumes "writer_inv w"
  shows "writer_inv (remove_all_acked_changes_but_keep_depth n w)"
proof -
  have "first_seq (w_history_buffer w) \<le> first_seq (hb_remove_changes_before k (w_history_buffer w))"
      "last_seq (hb_remove_changes_before k (w_history_buffer w)) = last_seq (w_history_buffer w)" for k
    by (auto simp: hb_remove_changes_before_def Let_def split: option.splits)
  then show ?thesis
    using writer_invD [OF assms] history.inv_remove [OF writer_invD(1) [OF assms]]
      history.get_remove_subset [OF writer_invD(1) [OF assms]]
    unfolding writer_inv_def remove_all_acked_changes_but_keep_depth_def Let_def frag_size_ok_def
    by (fastforce intro: order_trans)
qed

lemma handle_cache_cleaning_ok: "writer_inv w \<Longrightarrow> writer_inv (handle_cache_cleaning w)"
  by (auto simp: handle_cache_cleaning_def remove_all_acked_inv split: option.splits history.splits)

lemma update_ack_waiters_ok:
  "writer_inv w \<Longrightarrow> writer_inv (fst (update_ack_waiters g b w))"
  "readers (fst (update_ack_waiters g b w)) = readers w"
  "w_history_buffer (fst (update_ack_waiters g b w)) = w_history_buffer w"
  by (auto simp: update_ack_waiters_def Let_def split: option.splits prod.splits)

lemma acknack_proxy_ok:
  assumes inv: "proxy_inv n g rp" and n: "0 \<le> n" "n < i64_max" and wf: "ns_wf (reader_sn_state an)"
  obtains rp' es where "acknack_proxy an n w rp = Some (rp', es)" "proxy_inv n g rp'"
proof -
  have "in_i64 n" using n by (simp add: in_i64_def i64_min_def)
  from rp_ack_spec [OF wf ns_elems_eq [OF wf] this n(2), of rp]
  obtain rp1 where rp1: "rp_handle_ack_nack (Ack_AckNack an) n rp = Some rp1"
    and u: "\<And>sn. bs_contains (unsent_changes rp1) sn \<Longrightarrow> sn \<le> n"
    and p: "\<And>sn. bs_contains (pending_gap rp1) sn \<Longrightarrow> bs_contains (pending_gap rp) sn"
    and e: "rp1 = rp\<lparr>all_acked_before := all_acked_before rp1, unsent_changes := unsent_changes rp1, pending_gap := pending_gap rp1\<rparr>"
    by metis
  have "remote_reader_guid rp1 = remote_reader_guid rp"
    by (subst e) simp
  then have "proxy_inv n g (rp1\<lparr>repair_mode := m\<rparr>)" for m
    using inv u p by (simp add: proxy_inv_def)
  then show thesis
    using that by (cases "all_acked_before rp1 > n") (simp_all add: acknack_proxy_def rp1)
qed

lemma request_frags_total:
  "ext_ok x \<Longrightarrow> \<forall>f \<in> set fs. 1 \<le> f \<and> f \<le> int (length v) \<Longrightarrow> \<exists>v'. request_frags x fs v = Some v'"
  by (induction fs arbitrary: v) (auto simp: ext_bv)

text \<open>The fragments of a NACKFRAG are within the bit vector recorded for its sample.\<close>

definition nack_frag_in_range :: "rtps_reader_proxy \<Rightarrow> nack_frag \<Rightarrow> bool" where
  "nack_frag_in_range rp nf \<longleftrightarrow>
     (case (bm_get (frags_requested rp) (nf_writer_sn nf), ns_elems FragNum (fragment_number_state nf)) of
        (Some v, Some fs) \<Rightarrow> \<forall>f \<in> set fs. 1 \<le> f \<and> f \<le> int (length v)
      | _ \<Rightarrow> True)"

lemma mark_frags_requested_ok:
  assumes "ext_ok x" and wf: "ns_wf (fragment_number_state nf)" and "nack_frag_in_range rp nf" and inv: "proxy_inv n g rp"
  shows "\<exists>rp'. mark_frags_requested x (nf_writer_sn nf) (fragment_number_state nf) rp = Some rp' \<and> proxy_inv n g rp'"
proof -
  define v where "v = (case bm_get (frags_requested rp) (nf_writer_sn nf) of Some v \<Rightarrow> v | None \<Rightarrow> [])"
  show ?thesis
  proof (cases "rev v")
    case Nil
    then show ?thesis using inv by (simp add: mark_frags_requested_def Let_def proxy_inv_def flip: v_def)
  next
    case (Cons b bs)
    then have "bm_get (frags_requested rp) (nf_writer_sn nf) = Some v" and "\<not> of_bool b > length v"
      by (auto simp: v_def split: option.splits)
    moreover have "\<exists>v'. request_frags x (ns_between FragNum (fragment_number_state nf) 0 (num_bits (fragment_number_state nf))) v = Some v'"
      using assms(3) calculation(1) by (intro request_frags_total [OF assms(1)]) (simp add: nack_frag_in_range_def ns_elems_eq [OF wf])
    ultimately show ?thesis
      using inv by (auto simp: mark_frags_requested_def Let_def Cons ns_elems_eq [OF wf] proxy_inv_def)
  qed
qed

lemma handle_ack_nack_ok:
  assumes "ext_ok x" and inv: "writer_inv w"
    and wf: "case ack of Ack_AckNack an \<Rightarrow> ns_wf (reader_sn_state an)
      | Ack_NackFrag nf \<Rightarrow> ns_wf (fragment_number_state nf)
          \<and> (\<forall>rp. bm_get (readers w) (GUID p (nf_reader_id nf)) = Some rp \<longrightarrow> nack_frag_in_range rp nf)"
  shows "steps_ok (handle_ack_nack x p ack w)"
proof (cases "\<not> is_reliable (w_qos_policies w) \<or> w_like_stateless w")
  case True
  then show ?thesis using inv by (auto simp: handle_ack_nack_def)
next
  case active: False
  show ?thesis
  proof (cases ack)
    case (Ack_AckNack an)
    let ?g = "GUID p (an_reader_id an)"
    obtain w1 es1 where w1: "update_ack_waiters ?g (Some (bitmap_base (reader_sn_state an))) w = (w1, es1)"
      by force
    have inv1: "writer_inv w1" and h1: "w_history_buffer w1 = w_history_buffer w" and r1: "readers w1 = readers w"
      using update_ack_waiters_ok [where w = w and g = ?g and b = "Some (bitmap_base (reader_sn_state an))"] inv by (simp_all add: w1)
    show ?thesis
    proof (cases "bm_get (readers w) ?g")
      case None
      then show ?thesis
        using active inv1 by (auto simp: handle_ack_nack_def Ack_AckNack w1 r1 Let_def)
    next
      case (Some rp)
      have "ns_wf (reader_sn_state an)"
        using wf by (simp add: Ack_AckNack)
      then obtain rp' es where rp': "acknack_proxy an (last_seq (w_history_buffer w)) w1 rp = Some (rp', es)"
          "proxy_inv (last_seq (w_history_buffer w)) ?g rp'"
        by (rule acknack_proxy_ok [OF writer_invD(6) [OF inv Some] writer_inv_last [OF inv] writer_invD(3) [OF inv]])
      let ?w2 = "w1\<lparr>readers := bm_insert ?g rp' (readers w1)\<rparr>"
      have "writer_inv ?w2"
        using writer_inv_insert_reader [OF inv1] rp'(2) by (simp add: h1)
      moreover obtain b where "gap_msg x (pending_gap rp') (w_entity_id w1) (w_endianness w1) ?g mb_new = Some b"
        using gap_msg_total proxy_inv_gap_bounded [OF rp'(2) writer_invD(3) [OF inv]] by (metis gap_bounded_def)
      ultimately show ?thesis
        using active Some rp'(1) by (auto simp: handle_ack_nack_def Ack_AckNack w1 r1 Let_def)
    qed
  next
    case (Ack_NackFrag nf)
    show ?thesis
    proof (cases "bm_get (readers w) (GUID p (nf_reader_id nf))")
      case None
      then show ?thesis using active inv by (auto simp: handle_ack_nack_def Ack_NackFrag Let_def)
    next
      case (Some rp)
      obtain rp' where "mark_frags_requested x (nf_writer_sn nf) (fragment_number_state nf) rp = Some rp'"
          "proxy_inv (last_seq (w_history_buffer w)) (GUID p (nf_reader_id nf)) rp'"
        using mark_frags_requested_ok [OF assms(1) _ _ writer_invD(6) [OF inv Some]] wf Some by (auto simp: Ack_NackFrag)
      then show ?thesis
        using active Some writer_inv_insert_reader [OF inv] by (auto simp: handle_ack_nack_def Ack_NackFrag Let_def)
    qed
  qed
qed

subsection \<open>Repairs\<close>

lemma fold_mark_change_sent:
  "fold mark_change_sent ks rp = rp\<lparr>unsent_changes := fold bm_remove ks (unsent_changes rp)\<rparr>"
  by (induction ks arbitrary: rp) (simp_all add: mark_change_sent_def)

lemma contains_fold_remove: "bm_contains (fold bm_remove ks m) k \<longleftrightarrow> k \<notin> set ks \<and> bm_contains m k"
  by (induction ks arbitrary: m) auto

text \<open>What a repair by GAP leaves to be sent.\<close>

lemma repair_gap_spec:
  assumes "gap_bounded nlr"
  shows "\<exists>rp' es. repair_gap x w irr nlr rp = Some (rp', es)
    \<and> (\<forall>k. bs_contains (unsent_changes rp') k \<longleftrightarrow>
         bs_contains (unsent_changes rp) k \<and> \<not> bs_contains nlr k \<and> (\<forall>s. irr = Some s \<longrightarrow> s \<le> k))
    \<and> rp' = rp\<lparr>unsent_changes := unsent_changes rp'\<rparr>"
proof (cases "bm_is_empty nlr")
  case True
  then show ?thesis
    by (cases irr) (auto simp: repair_gap_def remove_from_unsent_set_all_before_def Let_def is_empty_iff)
next
  case False
  have "\<exists>b'. gap_msg x nlr (w_entity_id w) (w_endianness w) (remote_reader_guid rp) b = Some b'" for b
    using assms gap_msg_total by (simp add: gap_bounded_def)
  then obtain msg where msg: "gap_msg x nlr (w_entity_id w) (w_endianness w) (remote_reader_guid rp) b = Some (msg b)" for b
    by metis
  show ?thesis
    using False by (cases irr)
      (auto simp: repair_gap_def remove_from_unsent_set_all_before_def Let_def msg fold_mark_change_sent contains_fold_remove)
qed

lemma repair_gap_ok:
  assumes "gap_bounded nlr" "proxy_inv n g rp"
  obtains rp' es where "repair_gap x w irr nlr rp = Some (rp', es)" "proxy_inv n g rp'"
proof -
  obtain rp' es where rp': "repair_gap x w irr nlr rp = Some (rp', es)"
      "\<forall>k. bs_contains (unsent_changes rp') k \<longrightarrow> bs_contains (unsent_changes rp) k"
      "rp' = rp\<lparr>unsent_changes := unsent_changes rp'\<rparr>"
    using repair_gap_spec [OF assms(1), of x w irr rp] by blast
  have "remote_reader_guid rp' = remote_reader_guid rp" "pending_gap rp' = pending_gap rp"
    by (subst rp'(3), simp)+
  then show thesis using that [OF rp'(1)] rp'(2) assms(2) by (auto simp: proxy_inv_def)
qed

lemma first_unsent_contains: "first_unsent_change rp = Some sn \<Longrightarrow> bs_contains (unsent_changes rp) sn"
  by (auto simp: first_unsent_change_def unsent_changes_iter_def simp flip: keys_get split: list.splits)

lemma first_unsent_None: "first_unsent_change rp = None \<longleftrightarrow> (\<forall>k. \<not> bs_contains (unsent_changes rp) k)"
  by (auto simp: first_unsent_change_def unsent_changes_iter_def simp flip: keys_get split: list.splits)

text \<open>What a repair step leaves to be sent: less than before, and the first unsent number is done.\<close>

definition repair_progress :: "rtps_reader_proxy \<Rightarrow> rtps_reader_proxy \<Rightarrow> bool" where
  "repair_progress rp rp' \<longleftrightarrow>
     (case first_unsent_change rp of
        None \<Rightarrow> rp' = rp\<lparr>repair_mode := False\<rparr>
      | Some sn \<Rightarrow> \<not> bs_contains (unsent_changes rp') sn
          \<and> (\<forall>k. bs_contains (unsent_changes rp') k \<longrightarrow> bs_contains (unsent_changes rp) k)
          \<and> repair_mode rp' = repair_mode rp)"

lemma repair_gap_progress:
  assumes "gap_bounded nlr" "proxy_inv n g rp" "first_unsent_change rp = Some sn"
    and "bs_contains nlr sn \<or> (\<exists>s. irr = Some s \<and> sn < s)"
  shows "\<exists>rp' es. repair_gap x w irr nlr rp = Some (rp', es) \<and> proxy_inv n g rp' \<and> repair_progress rp rp'"
proof -
  obtain rp' es where rp': "repair_gap x w irr nlr rp = Some (rp', es)"
      "\<forall>k. bs_contains (unsent_changes rp') k \<longleftrightarrow>
         bs_contains (unsent_changes rp) k \<and> \<not> bs_contains nlr k \<and> (\<forall>s. irr = Some s \<longrightarrow> s \<le> k)"
      "rp' = rp\<lparr>unsent_changes := unsent_changes rp'\<rparr>"
    using repair_gap_spec [OF assms(1), of x w irr rp] by blast
  have eqs: "remote_reader_guid rp' = remote_reader_guid rp" "pending_gap rp' = pending_gap rp" "repair_mode rp' = repair_mode rp"
    by (subst rp'(3), simp)+
  have "\<not> bs_contains (unsent_changes rp') sn"
    using assms(4) rp'(2) by force
  then show ?thesis
    using eqs rp'(1,2) assms(2,3) by (auto simp: proxy_inv_def repair_progress_def)
qed

lemma gap_bounded_single: "1 \<le> sn \<Longrightarrow> sn < i64_max \<Longrightarrow> gap_bounded (bs_insert sn bm_empty)"
  by (auto simp: gap_bounded_def in_i64_def i64_min_def)

lemma repair_data_progress:
  assumes "first_unsent_change rp = Some sn" "proxy_inv n g rp"
    and "rp1 = rp \<or> rp1 = mark_all_frags_requested x sn c rp"
  shows "proxy_inv n g (mark_change_sent sn rp1) \<and> repair_progress rp (mark_change_sent sn rp1)"
  using assms by (auto simp: proxy_inv_def repair_progress_def mark_change_sent_def mark_all_frags_requested_def)

lemma repair_data_worker_ok:
  assumes "ext_ok x" and inv: "writer_inv w" and pinv: "proxy_inv (last_seq (w_history_buffer w)) g rp"
  shows "\<exists>rp' w' es. handle_repair_data_send_worker x rp w = Some ((rp', w'), es) \<and> same_but_count w w'
    \<and> proxy_inv (last_seq (w_history_buffer w)) g rp' \<and> repair_progress rp rp'"
proof (cases "first_unsent_change rp")
  case None
  then show ?thesis
    using pinv by (simp add: handle_repair_data_send_worker_def repair_progress_def proxy_inv_def)
next
  case (Some sn)
  let ?first = "first_seq (w_history_buffer w)"
  let ?irr = "if sn < ?first then Some ?first else None"
  have top: "sn \<le> last_seq (w_history_buffer w)"
    using pinv first_unsent_contains [OF Some] by (simp add: proxy_inv_def)
  have gb: "gap_bounded (pending_gap rp)"
    using proxy_inv_gap_bounded [OF pinv writer_invD(3) [OF inv]] .
  show ?thesis
  proof (cases "bs_contains (pending_gap rp) sn \<or> ?irr \<noteq> None")
    case True
    then have "bs_contains (pending_gap rp) sn \<or> (\<exists>s. ?irr = Some s \<and> sn < s)"
      by (auto split: if_splits)
    from repair_gap_progress [OF gb pinv Some this, of x w] True show ?thesis
      unfolding handle_repair_data_send_worker_def Some option.case Let_def by auto
  next
    case skip: False
    show ?thesis
    proof (cases "hb_get_by_sn (w_history_buffer w) sn")
      case None
      have "gap_bounded (bs_insert sn bm_empty)"
        using skip top writer_invD(2,3) [OF inv] by (intro gap_bounded_single) (auto split: if_splits)
      from repair_gap_progress [OF this pinv Some, of None x w] skip None show ?thesis
        unfolding handle_repair_data_send_worker_def Some option.case Let_def by auto
    next
      case cc: (Some cc)
      obtain f w1 es where w1: "send_cache_change x w cc False (Some rp) = Some ((f, w1), es)" "same_but_count w w1"
        using send_cache_change_total [OF assms(1) _ writer_invD(5) [OF inv] writer_invD(4) [OF inv cc], of "Some rp" False] gb
        by auto
      have "frag_size_ok w1"
        using writer_invD(5) [OF same_but_count_inv [OF w1(2) inv]] .
      then obtain nf fs where "num_frags_and_frag_size w1 (payload_size (data_value cc)) = Some (nf, fs)"
        using num_frags_total by (metis surj_pair)
      then show ?thesis
        using skip cc w1 repair_data_progress [OF Some pinv, of _ x "unat nf"]
        unfolding handle_repair_data_send_worker_def Some option.case Let_def by auto
    qed
  qed
qed

lemma handle_repair_data_send_ok:
  assumes "ext_ok x" "writer_inv w"
  shows "steps_ok (handle_repair_data_send x g w)"
proof (cases "w_like_stateless w \<or> bm_get (readers w) g = None")
  case True
  then show ?thesis using assms(2) by (auto simp: handle_repair_data_send_def split: option.splits)
next
  case False
  then obtain rp where rp: "bm_get (readers w) g = Some rp" by auto
  let ?w0 = "w\<lparr>readers := bm_remove g (readers w)\<rparr>"
  have inv0: "writer_inv ?w0" using writer_inv_remove_reader [OF assms(2)] .
  obtain rp' w' es where w': "handle_repair_data_send_worker x rp ?w0 = Some ((rp', w'), es)" "same_but_count ?w0 w'"
      "proxy_inv (last_seq (w_history_buffer w)) g rp'"
    using repair_data_worker_ok [OF assms(1) inv0, of g rp] writer_invD(6) [OF assms(2) rp] by auto
  have "w_history_buffer w' = w_history_buffer w" "remote_reader_guid rp' = g"
    using w'(2,3) by (auto simp: same_but_count_def proxy_inv_def)
  with writer_inv_insert_reader [OF same_but_count_inv [OF w'(2) inv0]] w'(3) False show ?thesis
    by (auto simp: handle_repair_data_send_def rp w'(1))
qed

text \<open>The listed fragments are within the bit vectors of their samples.\<close>

definition frags_in :: "rtps_reader_proxy \<Rightarrow> (seqnum \<times> fragnum) list \<Rightarrow> bool" where
  "frags_in rp fs \<longleftrightarrow>
     (\<forall>sn k. (sn, k) \<in> set fs \<longrightarrow> 1 \<le> k \<and> (\<forall>v. bm_get (frags_requested rp) sn = Some v \<longrightarrow> k \<le> int (length v)))"

lemma mark_frag_sent_ok:
  assumes "ext_ok x" "frags_in rp ((sn, k) # fs)"
  obtains rp' m where "mark_frag_sent x sn k rp = Some rp'" "frags_in rp' fs" "rp' = rp\<lparr>frags_requested := m\<rparr>"
proof (cases "bm_get (frags_requested rp) sn")
  case None
  then show thesis using that [of rp "frags_requested rp"] assms(2) by (simp add: mark_frag_sent_def frags_in_def)
next
  case (Some v)
  let ?v = "v[nat k - 1 := False]"
  let ?m = "if True \<in> set ?v then bm_insert sn ?v (frags_requested rp) else bm_remove sn (frags_requested rp)"
  have "1 \<le> k \<and> k \<le> int (length v)"
    using assms(2) Some by (auto simp: frags_in_def)
  then have k: "1 \<le> k" "nat k - 1 < length v" by linarith+
  then have "mark_frag_sent x sn k rp = Some (rp\<lparr>frags_requested := ?m\<rparr>)"
    using Some by (simp add: mark_frag_sent_def ext_bv [OF assms(1)])
  moreover have "frags_in (rp\<lparr>frags_requested := ?m\<rparr>) fs"
    using assms(2) Some by (auto simp: frags_in_def)
  ultimately show thesis using that by blast
qed

lemma frags_requested_iterator_in:
  assumes "ext_ok x"
  shows "frags_in rp (fbv_take x n (frags_requested_iterator rp))"
proof (cases "bm_first (frags_requested rp)")
  case None
  then show ?thesis
    by (simp add: frags_requested_iterator_def fbv_take_spec [OF assms] fbv_new_def set_bits_from_def frags_in_def)
next
  case (Some e)
  then obtain sn v where e: "bm_first (frags_requested rp) = Some (sn, v)" by (cases e) auto
  have "1 \<le> i \<and> i \<le> length v" if "i \<in> set (take n (set_bits_from v 1))" for i
    using in_set_takeD [OF that] by (auto simp: set_bits_from_def)
  then show ?thesis
    using first_SomeD(1) [OF e]
    by (fastforce simp: frags_requested_iterator_def e fbv_take_spec [OF assms] fbv_new_def frags_in_def)
qed

lemma repair_frags_loop_ok:
  assumes "ext_ok x" "frags_in rp fs"
  shows "\<exists>m es. repair_frags_loop x fs w rp = Some (rp\<lparr>frags_requested := m\<rparr>, es)"
  using assms(2)
proof (induction fs arbitrary: rp)
  case Nil
  show ?case by (intro exI [of _ "frags_requested rp"]) simp
next
  case (Cons e fs)
  obtain sn k where e: "e = (sn, k)" by (cases e)
  obtain rp1 m where rp1: "mark_frag_sent x sn k rp = Some rp1" "frags_in rp1 fs" "rp1 = rp\<lparr>frags_requested := m\<rparr>"
    using mark_frag_sent_ok [OF assms(1)] Cons.prems e by metis
  obtain m' es where loop: "repair_frags_loop x fs w rp1 = Some (rp\<lparr>frags_requested := m'\<rparr>, es)"
    using Cons.IH [OF rp1(2)] rp1(3) by auto
  have "1 \<le> k" using Cons.prems e by (auto simp: frags_in_def)
  note frag = data_frag_msg_total [OF this]
  have self: "rp = rp\<lparr>frags_requested := frags_requested rp\<rparr>" by simp
  show ?case
  proof (cases "hb_get_by_sn (w_history_buffer w) sn")
    case None
    then show ?thesis using rp1(1) loop by (auto simp: e)
  next
    case (Some cc)
    show ?thesis
    proof (cases "meant_for_another cc (Some rp)")
      case True
      then have "repair_frags_loop x ((sn, k) # fs) w rp = Some (rp, [])"
        using Some by (simp add: meant_for_another_def split: option.splits)
      then show ?thesis using self e by metis
    next
      case False
      then have "\<not> (case to_single_reader (write_options cc) of Some g \<Rightarrow> g \<noteq> remote_reader_guid rp | None \<Rightarrow> False)"
        by (simp add: meant_for_another_def split: option.splits)
      moreover obtain b where "data_frag_msg x cc (guid_entity_id (remote_reader_guid rp)) (w_my_guid w) k
          (of_nat (data_max_size_serialized w)) (of_nat (payload_size (data_value cc))) (w_endianness w)
          (case source_timestamp (write_options cc) of
             Some ts \<Rightarrow> ts_msg x (w_endianness w) (Some ts) mb_new | None \<Rightarrow> mb_new) = Some b"
        using frag by metis
      ultimately show ?thesis
        using Some rp1(1) loop by (auto simp: e Let_def)
    qed
  qed
qed

lemma handle_repair_frags_send_ok:
  assumes "ext_ok x" "writer_inv w"
  shows "steps_ok (handle_repair_frags_send x g w)"
proof (cases "w_like_stateless w \<or> bm_get (readers w) g = None")
  case True
  then show ?thesis using assms(2) by (auto simp: handle_repair_frags_send_def split: option.splits)
next
  case False
  then obtain rp where rp: "bm_get (readers w) g = Some rp" by auto
  let ?w0 = "w\<lparr>readers := bm_remove g (readers w)\<rparr>"
  have inv0: "writer_inv ?w0" using writer_inv_remove_reader [OF assms(2)] .
  obtain m es where loop: "repair_frags_loop x (fbv_take x 8 (frags_requested_iterator rp)) ?w0 rp
      = Some (rp\<lparr>frags_requested := m\<rparr>, es)"
    using repair_frags_loop_ok [OF assms(1) frags_requested_iterator_in [OF assms(1)]] by blast
  have "proxy_inv (last_seq (w_history_buffer w)) g (rp\<lparr>frags_requested := m\<rparr>)" "remote_reader_guid rp = g"
    using writer_invD(6) [OF assms(2) rp] by (simp_all add: proxy_inv_def)
  with writer_inv_insert_reader [OF inv0, of g "rp\<lparr>frags_requested := m\<rparr>"] False show ?thesis
    by (auto simp: handle_repair_frags_send_def rp loop)
qed

subsection \<open>Timers and matching\<close>

lemma dur_div_5: "\<exists>q. dur_div d 5 = Some q"
  by (simp add: dur_div_def)

lemma handle_timed_event_ok:
  assumes "ext_ok x" "writer_inv w"
  shows "steps_ok (handle_timed_event x now ev w)"
proof (cases ev)
  case WT_Heartbeat
  then show ?thesis
    using handle_heartbeat_tick_ok [OF assms(2), of x now False] by (auto simp: handle_timed_event_def split: prod.splits)
next
  case WT_CacheCleaning
  then show ?thesis
    using handle_cache_cleaning_ok [OF assms(2)] by (auto simp: handle_timed_event_def Let_def)
next
  case (WT_SendRepairData g)
  obtain w1 es where w1: "handle_repair_data_send x g w = Some (w1, es)" "writer_inv w1"
    using handle_repair_data_send_ok [OF assms, of g] by (auto simp: steps_ok_def)
  obtain q where "dur_div (case deadline (w_qos_policies w1) of
      Some dl \<Rightarrow> deadline_period dl | None \<Rightarrow> dur_from_millis 100) 5 = Some q"
    using dur_div_5 by blast
  with w1 show ?thesis
    by (auto simp: handle_timed_event_def WT_SendRepairData split: option.splits)
next
  case (WT_SendRepairFrags g)
  then show ?thesis
    using handle_repair_frags_send_ok [OF assms, of g] by (auto simp: handle_timed_event_def steps_ok_def)
qed

lemma rp_update_sel [simp]:
  "remote_reader_guid (rp_update rp u) = remote_reader_guid rp" "pending_gap (rp_update rp u) = pending_gap rp"
  "unsent_changes (rp_update rp u) = unsent_changes rp" "all_acked_before (rp_update rp u) = all_acked_before rp"
  by (simp_all add: rp_update_def Let_def)

lemma set_pending_gap_up_to_eq:
  assumes "0 \<le> n" "n < i64_max"
  shows "set_pending_gap_up_to n rp = Some (rp\<lparr>pending_gap := bs_extend [1..n] (pending_gap rp)\<rparr>)"
  using sn_range_collect_eq [of 1 n] assms
  by (simp add: set_pending_gap_up_to_def sn_new_def in_i64_def i64_min_def i64_max_def)

text \<open>A proxy as the discovery makes it: nothing to skip and nothing to be sent.\<close>

definition proxy_fresh :: "rtps_reader_proxy \<Rightarrow> bool" where
  "proxy_fresh rp \<longleftrightarrow> bm_is_empty (pending_gap rp) \<and> bm_is_empty (unsent_changes rp)"

lemma proxy_inv_fresh: "proxy_fresh rp \<Longrightarrow> proxy_inv n (remote_reader_guid rp) rp"
  by (simp add: proxy_fresh_def proxy_inv_def is_empty_iff)

lemma matched_reader_update_ok:
  assumes inv: "writer_inv w" and "proxy_fresh rp"
  shows "\<exists>c w'. matched_reader_update rp w = Some (c, w') \<and> writer_inv w'"
proof (cases "bm_get (readers w) (remote_reader_guid rp)")
  case None
  let ?n = "last_seq (w_history_buffer w)"
  have "proxy_inv ?n (remote_reader_guid rp) (rp\<lparr>pending_gap := bs_extend [1..?n] (pending_gap rp)\<rparr>)"
    using proxy_inv_fresh [OF assms(2), of ?n] by (auto simp: proxy_inv_def)
  then show ?thesis
    using None writer_inv_insert_reader [OF inv] proxy_inv_fresh [OF assms(2)]
    by (simp add: matched_reader_update_def set_pending_gap_up_to_eq [OF writer_inv_last [OF inv] writer_invD(3) [OF inv]])
next
  case (Some old)
  have "proxy_inv (last_seq (w_history_buffer w)) (remote_reader_guid rp) (rp_update old rp)"
    using writer_invD(6) [OF inv Some] by (simp add: proxy_inv_def)
  then show ?thesis
    using Some writer_inv_insert_reader [OF inv] by (simp add: matched_reader_update_def)
qed

lemma update_reader_proxy_ok:
  assumes "writer_inv w" "proxy_fresh rp"
  shows "steps_ok (update_reader_proxy rp q w)"
  using matched_reader_update_ok [OF assms] assms(1)
  by (auto simp: update_reader_proxy_def Let_def split: option.splits)

lemma reader_lost_ok: "writer_inv w \<Longrightarrow> writer_inv (fst (reader_lost g w))"
  using update_ack_waiters_ok(1) [of w g None]
    update_ack_waiters_ok(1) [of "w\<lparr>readers := bm_remove g (readers w)\<rparr>" g None] writer_inv_remove_reader [of w g]
  by (auto simp: reader_lost_def Let_def split: prod.splits)

lemma writer_participant_lost_ok: "writer_inv w \<Longrightarrow> writer_inv (fst (writer_participant_lost p w))"
proof -
  have "writer_inv (fst we) \<Longrightarrow> writer_inv (fst (fold (\<lambda>g (w, es). case reader_lost g w of (w', es') \<Rightarrow> (w', es @ es')) gs we))"
    for gs we
    using reader_lost_ok by (induction gs arbitrary: we) (auto split: prod.splits, metis fst_conv)
  then show "writer_inv w \<Longrightarrow> writer_inv (fst (writer_participant_lost p w))"
    by (simp add: writer_participant_lost_def)
qed

section \<open>Runs of the writer\<close>

text \<open>The entry points by which the event loop drives a writer.\<close>

datatype writer_event =
    Command timestamp writer_command
  | Ack guid_prefix ack_submessage
  | Timer timestamp writer_timed_event
  | ManualAssertion timestamp
  | ReaderUpdate rtps_reader_proxy qos_policies
  | ReaderLost guid
  | ParticipantLost guid_prefix

fun writer_step :: "ext \<Rightarrow> writer_event \<Rightarrow> writer \<Rightarrow> writer writer_result" where
  "writer_step x (Command now c) w = map_option (\<lambda>((w', _), es). (w', es)) (process_writer_command x [(now, c)] w)"
| "writer_step x (Ack p ack) w = handle_ack_nack x p ack w"
| "writer_step x (Timer now ev) w = handle_timed_event x now ev w"
| "writer_step x (ManualAssertion now) w = Some (handle_heartbeat_tick x now True w)"
| "writer_step x (ReaderUpdate rp q) w = update_reader_proxy rp q w"
| "writer_step x (ReaderLost g) w = Some (reader_lost g w)"
| "writer_step x (ParticipantLost p) w = Some (writer_participant_lost p w)"

text \<open>
  What the rest of the program and the deserializer guarantee of an event: samples come with
  increasing numbers and clock readings and fit the 32-bit sample size; number sets are well formed;
  a new proxy is fresh. That the fragments of a NACKFRAG lie within the sample is not checked
  anywhere in the code.
\<close>

fun writer_event_ok :: "writer \<Rightarrow> writer_event \<Rightarrow> bool" where
  "writer_event_ok w (Command now (WC_DDSData dv wo sn)) \<longleftrightarrow> sample_ok w now dv wo sn"
| "writer_event_ok w (Ack p (Ack_AckNack an)) \<longleftrightarrow> ns_wf (reader_sn_state an)"
| "writer_event_ok w (Ack p (Ack_NackFrag nf)) \<longleftrightarrow> ns_wf (fragment_number_state nf)
     \<and> (\<forall>rp. bm_get (readers w) (GUID p (nf_reader_id nf)) = Some rp \<longrightarrow> nack_frag_in_range rp nf)"
| "writer_event_ok w (ReaderUpdate rp q) \<longleftrightarrow> proxy_fresh rp"
| "writer_event_ok w _ \<longleftrightarrow> True"

lemma writer_step_ok:
  assumes "ext_ok x" "writer_inv w" "writer_event_ok w ev"
  shows "steps_ok (writer_step x ev w)"
proof (cases ev)
  case (Command now c)
  show ?thesis
  proof (cases c)
    case (WC_DDSData dv wo sn)
    then show ?thesis
      using handle_dds_data_ok [OF assms(1,2), of now dv wo sn] assms(3) Command by (auto simp: steps_ok_def)
  next
    case (WC_WaitForAcknowledgments ch)
    then show ?thesis
      using wait_for_acks_ok [OF assms(2), of ch] assms(2) Command by (auto split: prod.splits)
  qed
next
  case (Ack p ack)
  then show ?thesis
    using handle_ack_nack_ok [OF assms(1,2), where ack = ack and p = p] assms(3) by (cases ack) auto
next
  case (ReaderUpdate rp q)
  then show ?thesis using update_reader_proxy_ok [OF assms(2)] assms(3) by simp
next
  case (ManualAssertion now)
  then show ?thesis using handle_heartbeat_tick_ok [OF assms(2)] by (metis prod.collapse steps_ok_Some writer_step.simps(4))
next
  case (ReaderLost g)
  then show ?thesis using reader_lost_ok [OF assms(2)] by (metis prod.collapse steps_ok_Some writer_step.simps(6))
next
  case (ParticipantLost p)
  then show ?thesis using writer_participant_lost_ok [OF assms(2)] by (metis prod.collapse steps_ok_Some writer_step.simps(7))
qed (simp add: handle_timed_event_ok [OF assms(1,2)])

text \<open>The states a new writer can reach by valid events.\<close>

inductive writer_reach :: "ext \<Rightarrow> writer \<Rightarrow> bool" for x where
  new: "writer_new g topic stateless qos = Some (w, es) \<Longrightarrow> writer_reach x w"
| step: "writer_reach x w \<Longrightarrow> writer_event_ok w ev \<Longrightarrow> writer_step x ev w = Some (w', es) \<Longrightarrow> writer_reach x w'"

lemma writer_reach_inv:
  assumes "writer_reach x w" "ext_ok x"
  shows "writer_inv w"
  using assms
proof induction
  case (new g topic stateless qos w es)
  then show ?case using writer_inv_new by blast
next
  case (step w ev w' es)
  then show ?case using writer_step_ok [of x w ev] by simp
qed

text \<open>C7: Invariant of the writer. In every state that a new writer reaches by valid commands,
  acknowledgements, timer events and changes of its readers, the history and its index agree, every
  reader proxy is stored under its own GUID, and the numbers it is still to be sent or told to skip
  are numbers the writer has used. No valid event panics in such a state.
\<close>

theorem writer_never_panics:
  assumes "ext_ok x" "writer_reach x w"
  shows "writer_inv w \<and> (\<forall>ev. writer_event_ok w ev \<longrightarrow> (\<exists>w' es. writer_step x ev w = Some (w', es) \<and> writer_inv w'))"
  using writer_reach_inv [OF assms(2,1)] writer_step_ok [OF assms(1)] by (auto simp: steps_ok_def)

lemma sample_writer_new:
  obtains w es where "writer_new sample_writer ''square'' False sample_reliable_qos = Some (w, es)"
    "w_history_buffer w = hb_new ''square''" "readers w = bm_empty" "\<not> w_like_stateless w"
    "w_qos_policies w = sample_reliable_qos" "w_my_guid w = sample_writer"
  using that by (simp add: writer_new_def sample_reliable_qos_def heartbeat_period_of_def qos_none_def Let_def)

theorem writer_never_panics_witness:
  "\<exists>w w' es. writer_reach sample_ext w \<and> writer_inv w
     \<and> writer_step sample_ext (Command Timestamp_ZERO
         (WC_DDSData (data_value sample_change) (write_options sample_change) 1)) w = Some (w', es) \<and> writer_inv w'"
proof -
  obtain w es where w: "writer_new sample_writer ''square'' False sample_reliable_qos = Some (w, es)"
      "w_history_buffer w = hb_new ''square''"
    by (rule sample_writer_new)
  then have reach: "writer_reach sample_ext w" by (blast intro: writer_reach.new)
  have "writer_event_ok w (Command Timestamp_ZERO (WC_DDSData (data_value sample_change) (write_options sample_change) 1))"
    by (simp add: w(2) sample_ok_def hb_fresh_def hb_new_def sn_new_def i64_max_def sample_change_def sp_len_serialized_def H_LEN_def)
  with writer_never_panics [OF ext_ok_sample reach] reach show ?thesis by blast
qed

end
