(* ===== verification/Writer_Delivery.thy ===== *)
theory Writer_Delivery
  imports Writer_Correct
begin

text \<open>
  What the RTPS writer does for its readers: which changes the periodic cleaning of the history
  keeps, whom a sample for a single reader reaches, that the repair timer ends, and when a request
  to wait for acknowledgements is answered.
\<close>

section \<open>Cleaning\<close>

lemma fold_min_le: "b \<in> set (a # bs) \<Longrightarrow> fold min bs a \<le> (b :: int)"
proof (induction bs arbitrary: a b)
  case (Cons c bs)
  show ?case
  proof (cases "b = a \<or> b = c")
    case True
    then show ?thesis using Cons.IH [of "min c a" "min c a"] by auto
  next
    case False
    then show ?thesis using Cons.IH [of b "min c a"] Cons.prems by auto
  qed
qed simp

lemma fold_min_mem: "fold min bs a \<in> set (a # (bs :: int list))"
proof (induction bs arbitrary: a)
  case (Cons c bs)
  show ?case using Cons.IH [of "min c a"] by (auto simp: min_def split: if_splits)
qed simp

lemma min_acked_le:
  assumes "bm_get (readers w) g = Some rp"
  shows "min_acked w \<le> all_acked_before rp"
proof -
  have mem: "all_acked_before rp \<in> set (map all_acked_before (bm_values (readers w)))"
    using assms values_get [of rp "readers w"] by auto
  then obtain a bs where "map all_acked_before (bm_values (readers w)) = a # bs"
    by (cases "map all_acked_before (bm_values (readers w))") auto
  with mem show ?thesis
    using fold_min_le [of "all_acked_before rp" a bs] by (simp only: min_acked_def list.case)
qed

text \<open>The number of changes the history policy keeps of those that are acknowledged.\<close>

definition kept_depth :: "qos_policies \<Rightarrow> nat" where
  "kept_depth q =
     (case history q of None \<Rightarrow> 1 | Some KeepAll \<Rightarrow> 32 | Some (KeepLast d) \<Rightarrow> min (nat (d mod 2 ^ 64)) 32)"

lemma handle_cache_cleaning_eq:
  "handle_cache_cleaning w = remove_all_acked_changes_but_keep_depth (kept_depth (w_qos_policies w)) w"
  by (simp add: handle_cache_cleaning_def kept_depth_def split: option.splits history.splits)

lemma kept_depth_le: "kept_depth q \<le> 32"
  by (simp add: kept_depth_def split: option.splits history.splits)

text \<open>The first number that cleaning keeps, when no subtraction wraps.\<close>

definition first_keeper :: "writer \<Rightarrow> seqnum" where
  "first_keeper w = max (min_acked w - int (kept_depth (w_qos_policies w))) (first_seq (w_history_buffer w))"

definition acks_in_range :: "writer \<Rightarrow> bool" where
  "acks_in_range w \<longleftrightarrow> (\<forall>g rp. bm_get (readers w) g = Some rp \<longrightarrow> in_i64 (all_acked_before rp - 32) \<and> in_i64 (all_acked_before rp))"

lemma min_acked_range:
  assumes "acks_in_range w" "n \<le> 32"
  shows "in_i64 (min_acked w - int n)"
proof (cases "map all_acked_before (bm_values (readers w))")
  case Nil
  then show ?thesis using assms(2) by (simp add: min_acked_def sn_zero_def in_i64_def i64_min_def i64_max_def)
next
  case (Cons a bs)
  then have "min_acked w \<in> set (map all_acked_before (bm_values (readers w)))"
    using fold_min_mem by (simp add: min_acked_def)
  then obtain g rp where "bm_get (readers w) g = Some rp" "min_acked w = all_acked_before rp"
    by (auto simp: values_get)
  then have "in_i64 (min_acked w - 32)" "in_i64 (min_acked w)"
    using assms(1) by (auto simp: acks_in_range_def)
  then show ?thesis using assms(2) by (auto simp: in_i64_def)
qed

lemma cleaning_history:
  assumes "acks_in_range w" "\<not> w_like_stateless w"
  shows "w_history_buffer (handle_cache_cleaning w) = hb_remove_changes_before (first_keeper w) (w_history_buffer w)"
  using assms(2) wrap_i64_id [OF min_acked_range [OF assms(1) kept_depth_le]]
  by (simp add: sn_sub_def handle_cache_cleaning_eq remove_all_acked_changes_but_keep_depth_def first_keeper_def Let_def)

text \<open>C16: Cleaning of a stateful writer's history. With \<open>k\<close> the larger of the first stored number and
  the least acknowledged number minus the kept depth, the changes before \<open>k\<close> are dropped when \<open>k\<close> is
  stored, and nothing is dropped otherwise. In particular a change that some matched reader has not
  acknowledged is kept.
\<close>

theorem cleaning_keeps_unacknowledged:
  assumes "writer_inv w" "acks_in_range w" "\<not> w_like_stateless w"
  shows "hb_get_by_sn (w_history_buffer (handle_cache_cleaning w)) =
      (if hb_get_by_sn (w_history_buffer w) (first_keeper w) = None then hb_get_by_sn (w_history_buffer w)
       else hb_get_by_sn (w_history_buffer w) |` {first_keeper w..})
    \<and> (\<forall>g rp sn. bm_get (readers w) g = Some rp \<longrightarrow> all_acked_before rp \<le> sn \<longrightarrow>
        hb_get_by_sn (w_history_buffer (handle_cache_cleaning w)) sn = hb_get_by_sn (w_history_buffer w) sn)"
proof -
  note h = writer_invD(1) [OF assms(1)]
  have "hb_get_by_sn (w_history_buffer (handle_cache_cleaning w)) sn = hb_get_by_sn (w_history_buffer w) sn"
    if "bm_get (readers w) g = Some rp" "all_acked_before rp \<le> sn" for g rp sn
  proof (cases "first_keeper w \<le> sn")
    case True
    then show ?thesis using history.get_remove_keeps [OF h] by (simp add: cleaning_history [OF assms(2,3)])
  next
    case False
    then have "sn < first_seq (w_history_buffer w)"
      using min_acked_le [OF that(1)] that(2) by (auto simp: first_keeper_def max_def split: if_splits)
    then have "hb_get_by_sn (w_history_buffer w) sn = None"
      using hb_get_number(2) [OF h, of sn] by (cases "hb_get_by_sn (w_history_buffer w) sn") force+
    then show ?thesis
      using history.get_remove_subset [OF h, of "first_keeper w" sn]
      by (cases "hb_get_by_sn (w_history_buffer (handle_cache_cleaning w)) sn")
        (simp_all add: cleaning_history [OF assms(2,3)])
  qed
  then show ?thesis
    using history.get_remove [OF h] history.get_remove_absent [OF h] by (simp add: cleaning_history [OF assms(2,3)])
qed

text \<open>A writer with three changes and one reliable reader that has acknowledged two of them.\<close>

definition sample_change_at :: "seqnum \<Rightarrow> cache_change" where
  "sample_change_at sn = cc_new sample_writer sn (write_options sample_change) (data_value sample_change)"

definition sample_history :: history_buffer where
  "sample_history =
     hb_add_change (Timestamp 3 0) (sample_change_at 3) (hb_add_change (Timestamp 2 0) (sample_change_at 2)
       (hb_add_change (Timestamp 1 0) (sample_change_at 1) (hb_new ''square'')))"

definition sample_reader :: guid where
  "sample_reader = GUID sample_prefix (EntityId (0, 0, 1) 7)"

definition sample_locator :: locator where
  "sample_locator = UdpV4 \<lparr>v4_ip = (10, 0, 0, 2), v4_port = 7411\<rparr>"

definition sample_proxy :: rtps_reader_proxy where
  "sample_proxy = (rp_new sample_reader sample_reliable_qos False)\<lparr>
     rp_unicast_locator_list := [sample_locator], all_acked_before := 3, unsent_changes := bs_insert 3 bm_empty\<rparr>"

lemma sample_history_eqs:
  "first_seq sample_history = 1" "last_seq sample_history = 3"
  "sequence_number_to_instant sample_history = bm_insert 3 (Timestamp 3 0) (bm_insert 2 (Timestamp 2 0) (bm_insert 1 (Timestamp 1 0) bm_empty))"
  "hb_history_buffer sample_history = bm_insert (Timestamp 3 0) (sample_change_at 3) (bm_insert (Timestamp 2 0) (sample_change_at 2)
     (bm_insert (Timestamp 1 0) (sample_change_at 1) bm_empty))"
  by (simp_all add: sample_history_def hb_add_change_def Let_def sample_change_at_def hb_new_def sn_new_def)

lemma sample_history_inv: "hb_inv sample_history"
  by (rule hb_invI) (auto simp: sample_history_eqs sample_change_at_def less_timestamp_def split: if_splits)

lemma sample_history_get:
  "hb_get_by_sn sample_history sn = (if sn \<in> {1, 2, 3} then Some (sample_change_at sn) else None)"
  by (simp add: hb_get_by_sn_def hb_get_change_def sample_history_eqs)

lemma sample_busy_writer:
  obtains w where "writer_inv w" "w_history_buffer w = sample_history"
    "readers w = bm_insert sample_reader sample_proxy bm_empty" "\<not> w_like_stateless w"
    "w_qos_policies w = sample_reliable_qos" "push_mode w" "w_my_guid w = sample_writer"
    "data_max_size_serialized w = 1024" "heartbeat_message_counter w = 1"
proof -
  obtain w es where w: "writer_new sample_writer ''square'' False sample_reliable_qos = Some (w, es)"
      "\<not> w_like_stateless w" "w_qos_policies w = sample_reliable_qos"
    by (rule sample_writer_new)
  have "writer_inv (w\<lparr>w_history_buffer := sample_history, readers := bm_insert sample_reader sample_proxy bm_empty\<rparr>)"
    using writer_invD(5) [OF writer_inv_new [OF w(1)]]
    by (auto simp: writer_inv_def sample_history_inv sample_history_eqs sample_history_get frag_size_ok_def proxy_inv_def
        sample_proxy_def rp_new_def i64_max_def sample_change_at_def sample_change_def sp_len_serialized_def H_LEN_def split: if_splits)
  moreover have "push_mode w" "w_my_guid w = sample_writer" "data_max_size_serialized w = 1024" "heartbeat_message_counter w = 1"
    using w(1) by (auto simp: writer_new_def Let_def split: if_splits bind_splits)
  ultimately show thesis using that w(2,3) by simp
qed

theorem cleaning_keeps_unacknowledged_witness:
  "\<exists>w. writer_inv w \<and> hb_get_by_sn (w_history_buffer w) 1 \<noteq> None
     \<and> hb_get_by_sn (w_history_buffer (handle_cache_cleaning w)) 1 = None
     \<and> hb_get_by_sn (w_history_buffer (handle_cache_cleaning w)) 2 = hb_get_by_sn (w_history_buffer w) 2
     \<and> hb_get_by_sn (w_history_buffer (handle_cache_cleaning w)) 3 = hb_get_by_sn (w_history_buffer w) 3"
proof -
  obtain w where w: "writer_inv w" "w_history_buffer w = sample_history"
    "readers w = bm_insert sample_reader sample_proxy bm_empty" "\<not> w_like_stateless w" "w_qos_policies w = sample_reliable_qos"
    by (rule sample_busy_writer)
  have range: "acks_in_range w"
    by (simp add: acks_in_range_def w(3) sample_proxy_def in_i64_def i64_min_def i64_max_def)
  have "bm_values (readers w) = [sample_proxy]"
    by (simp add: w(3) bm_values_def)
  then have "first_keeper w = 2"
    by (simp add: first_keeper_def min_acked_def w(2,5) sample_history_eqs kept_depth_def sample_reliable_qos_def qos_none_def sample_proxy_def)
  with cleaning_keeps_unacknowledged [OF w(1) range w(4)] show ?thesis
    by (intro exI [of _ w]) (simp add: w(1,2) sample_history_get restrict_map_def)
qed

text \<open>Cleaning does not bound the history. A stateless writer, and a writer that no reader is matched
  to, keep every change they ever stored, whatever depth the history policy asks for.
\<close>

theorem cleaning_without_readers_keeps_all:
  assumes "writer_inv w" "w_like_stateless w \<or> bm_is_empty (readers w)"
  shows "hb_get_by_sn (w_history_buffer (handle_cache_cleaning w)) = hb_get_by_sn (w_history_buffer w)"
proof
  fix sn
  note h = writer_invD(1) [OF assms(1)]
  have "min_acked w = 0" if "bm_is_empty (readers w)"
    using that by (simp add: min_acked_def bm_values_def bm_is_empty_def sn_zero_def)
  moreover have "wrap_i64 (- int (kept_depth q)) = - int (kept_depth q)" for q
    using kept_depth_le [of q] by (intro wrap_i64_id) (simp add: in_i64_def i64_min_def i64_max_def)
  ultimately have "w_history_buffer (handle_cache_cleaning w)
      = hb_remove_changes_before (first_seq (w_history_buffer w)) (w_history_buffer w)"
    using assms(2) writer_invD(2) [OF assms(1)]
    by (auto simp: handle_cache_cleaning_eq remove_all_acked_changes_but_keep_depth_def sn_sub_def Let_def max_def)
  moreover have "hb_get_by_sn (w_history_buffer w) sn = None" if "sn < first_seq (w_history_buffer w)"
    using that hb_get_number(2) [OF h, of sn] by (cases "hb_get_by_sn (w_history_buffer w) sn") force+
  ultimately show "hb_get_by_sn (w_history_buffer (handle_cache_cleaning w)) sn = hb_get_by_sn (w_history_buffer w) sn"
    using history.get_remove_keeps [OF h, of "first_seq (w_history_buffer w)" sn]
      history.get_remove_subset [OF h, of "first_seq (w_history_buffer w)" sn]
    by (cases "hb_get_by_sn (hb_remove_changes_before (first_seq (w_history_buffer w)) (w_history_buffer w)) sn") force+
qed

theorem cleaning_without_readers_keeps_all_witness:
  "\<exists>w. writer_inv w \<and> bm_is_empty (readers w) \<and> hb_get_by_sn (w_history_buffer (handle_cache_cleaning w)) 1 \<noteq> None"
proof -
  obtain w where w: "writer_inv w" "w_history_buffer w = sample_history"
    "readers w = bm_insert sample_reader sample_proxy bm_empty"
    by (rule sample_busy_writer)
  let ?w = "w\<lparr>readers := bm_remove sample_reader (readers w)\<rparr>"
  have "writer_inv ?w" "bm_is_empty (readers ?w)"
    using writer_inv_remove_reader [OF w(1)] by (simp_all add: w(3) is_empty_iff)
  with cleaning_without_readers_keeps_all [of ?w] show ?thesis
    by (intro exI [of _ ?w]) (simp add: w(2) sample_history_get)
qed

section \<open>Samples for a single reader\<close>

lemma send_message_locators:
  "WE_Send b l \<in> set (send_message_to_readers x w mode m rs) \<Longrightarrow>
   \<exists>r \<in> set rs. l \<in> set (rp_unicast_locator_list r) \<union> set (rp_multicast_locator_list r)"
  using reader_locators_subset
  by (fastforce simp: send_message_to_readers_def set_send_locators Let_def simp del: reader_locators.simps)

lemma send_cache_change_locators:
  assumes "send_cache_change x w cc hb target = Some (r, es)" "to_single_reader (write_options cc) = Some g"
    and "WE_Send b l \<in> set es"
  shows "\<exists>rp. target = Some rp \<and> remote_reader_guid rp = g
    \<and> l \<in> set (rp_unicast_locator_list rp) \<union> set (rp_multicast_locator_list rp)"
proof (cases "meant_for_another cc target")
  case True
  then show ?thesis using assms(1,3) by (simp add: send_cache_change_skip)
next
  case False
  then obtain rp where rp: "target = Some rp" "remote_reader_guid rp = g"
    using assms(2) by (auto simp: meant_for_another_def split: option.splits)
  have "\<exists>ms. es = concat (map (\<lambda>m. send_message_to_readers x w Unicast m [rp]) ms)"
    using assms(1) unfolding send_cache_change_send [OF False] Let_def
    by (auto simp: rp(1) split: bind_splits prod.splits)
  with assms(3) show ?thesis
    using rp send_message_locators [of b l x w Unicast _ "[rp]"] by auto
qed

lemma data_message_readers: "data_message x w cc hb target = Some (w', ms) \<Longrightarrow> readers w' = readers w"
  unfolding data_message_def Let_def
  by (auto simp: next_heartbeat_count_def split: bind_splits if_splits option.splits)

lemma frag_messages_readers: "frag_messages x w cc hb target = Some (w', ms) \<Longrightarrow> readers w' = readers w"
  unfolding frag_messages_def Let_def
  by (auto simp: next_heartbeat_count_def split: bind_splits if_splits option.splits prod.splits)

lemma send_cache_change_readers:
  assumes "send_cache_change x w cc hb target = Some ((f, w'), es)"
  shows "readers w' = readers w"
proof (cases "meant_for_another cc target")
  case True
  then show ?thesis using assms by (simp add: send_cache_change_skip)
next
  case False
  show ?thesis
    using assms data_message_readers frag_messages_readers unfolding send_cache_change_send [OF False] Let_def
    by (auto split: bind_splits if_splits)
qed

lemma guid_notify [simp]: "remote_reader_guid (notify_new_cache_change sn rp) = remote_reader_guid rp"
  by (simp add: notify_new_cache_change_def)

lemma notify_readers_get:
  "bm_get (readers (notify_readers sn wo w)) g = Some rp \<Longrightarrow>
   \<exists>rp0. bm_get (readers w) g = Some rp0 \<and> rp_unicast_locator_list rp = rp_unicast_locator_list rp0
     \<and> rp_multicast_locator_list rp = rp_multicast_locator_list rp0 \<and> remote_reader_guid rp = remote_reader_guid rp0
     \<and> (\<forall>g'. to_single_reader wo = Some g' \<longrightarrow> remote_reader_guid rp0 \<noteq> g' \<longrightarrow> bs_contains (pending_gap rp) sn)"
proof -
  assume "bm_get (readers (notify_readers sn wo w)) g = Some rp"
  then obtain rp0 where rp0: "bm_get (readers w) g = Some rp0"
      "rp = (case to_single_reader wo of
          Some g' \<Rightarrow> if remote_reader_guid rp0 \<noteq> g' then insert_pending_gap sn (notify_new_cache_change sn rp0)
            else notify_new_cache_change sn rp0
        | None \<Rightarrow> notify_new_cache_change sn rp0)"
    by (auto simp: notify_readers_def Let_def cong: option.case_cong if_cong)
  show ?thesis
    by (intro exI [of _ rp0] conjI rp0(1); cases "to_single_reader wo";
        simp add: rp0(2) notify_new_cache_change_def insert_pending_gap_def)
qed

text \<open>C23: A sample written for a single reader is sent to no locator but those of that reader, and to
  nobody when the reader is not matched. Every other matched reader is to be told to skip its number.
\<close>

theorem single_reader_sample_stays_private:
  assumes "writer_inv w" "push_mode w" "\<not> w_like_stateless w" "to_single_reader wo = Some g"
    and "sample_ok w now dv wo sn" "handle_dds_data x now dv wo sn w = Some (w', es)"
  shows "(\<forall>b l. WE_Send b l \<in> set es \<longrightarrow> (\<exists>rp. bm_get (readers w) g = Some rp
      \<and> l \<in> set (rp_unicast_locator_list rp) \<union> set (rp_multicast_locator_list rp)))
    \<and> (\<forall>g' rp. g' \<noteq> g \<longrightarrow> bm_get (readers w') g' = Some rp \<longrightarrow> bs_contains (pending_gap rp) sn)"
proof -
  obtain w1 where w1: "insert_to_history_buffer now dv wo sn w = Some (now, w1)" "writer_inv w1"
      "hb_get_change (w_history_buffer w1) now = Some (cc_new (w_my_guid w) sn wo dv)"
    using insert_history_inv [OF assms(1,5)] by blast
  have same: "readers w1 = readers w" "push_mode w1" "\<not> w_like_stateless w1"
    using w1(1) assms(2,3) by (auto simp: insert_to_history_buffer_def split: if_splits)
  let ?w2 = "notify_readers sn wo w1"
  obtain f es' where send: "send_cache_change x ?w2 (cc_new (w_my_guid w) sn wo dv) True (bm_get (readers ?w2) g) = Some ((f, w'), es')"
      and es: "es = WE_WakeDataWriter # es'"
    using assms(6) same w1(3) by (auto simp: handle_dds_data_def w1(1) assms(4) Let_def split: bind_splits)
  have "readers w' = readers ?w2"
    using send by (rule send_cache_change_readers)
  then have "bs_contains (pending_gap rp) sn" if "g' \<noteq> g" "bm_get (readers w') g' = Some rp" for g' rp
    using notify_readers_get [of sn wo w1 g' rp] that assms(4) writer_invD(6) [OF w1(2)] by (auto simp: proxy_inv_def)
  moreover have "\<exists>rp. bm_get (readers w) g = Some rp \<and> l \<in> set (rp_unicast_locator_list rp) \<union> set (rp_multicast_locator_list rp)"
    if "WE_Send b l \<in> set es" for b l
  proof -
    have "WE_Send b l \<in> set es'" using that by (simp add: es)
    then obtain rp where rp: "bm_get (readers ?w2) g = Some rp"
        "l \<in> set (rp_unicast_locator_list rp) \<union> set (rp_multicast_locator_list rp)"
      using send_cache_change_locators [OF send, of g b l] assms(4) by auto
    from notify_readers_get [OF rp(1)] rp(2) same(1) show ?thesis by auto
  qed
  ultimately show ?thesis by blast
qed

theorem single_reader_sample_stays_private_witness:
  "\<exists>w w' es. writer_inv w \<and> readers w = bm_insert sample_reader sample_proxy bm_empty
     \<and> handle_dds_data sample_ext (Timestamp 4 0) (data_value sample_change)
          ((write_options sample_change)\<lparr>to_single_reader := Some sample_writer\<rparr>) 4 w = Some (w', es)
     \<and> (\<forall>b l. WE_Send b l \<notin> set es)
     \<and> (\<forall>rp. bm_get (readers w') sample_reader = Some rp \<longrightarrow> bs_contains (pending_gap rp) 4)"
proof -
  obtain w where w: "writer_inv w" "w_history_buffer w = sample_history"
    "readers w = bm_insert sample_reader sample_proxy bm_empty" "\<not> w_like_stateless w" "push_mode w"
    by (rule sample_busy_writer)
  let ?wo = "(write_options sample_change)\<lparr>to_single_reader := Some sample_writer\<rparr>"
  have ok: "sample_ok w (Timestamp 4 0) (data_value sample_change) ?wo 4"
    by (auto simp: sample_ok_def hb_fresh_def w(2) sample_history_eqs less_timestamp_def i64_max_def sample_change_def
        sp_len_serialized_def H_LEN_def split: if_splits)
  obtain w' es where h: "handle_dds_data sample_ext (Timestamp 4 0) (data_value sample_change) ?wo 4 w = Some (w', es)"
    using handle_dds_data_ok [OF ext_ok_sample w(1) ok] by (auto simp: steps_ok_def)
  have ne: "sample_reader \<noteq> sample_writer"
    by (simp add: sample_reader_def sample_writer_def EntityId_UNKNOWN_def)
  have "bm_get (readers w) sample_writer = None"
    using ne by (simp add: w(3))
  then have "\<forall>b l. WE_Send b l \<notin> set es" "\<forall>rp. bm_get (readers w') sample_reader = Some rp \<longrightarrow> bs_contains (pending_gap rp) 4"
    using single_reader_sample_stays_private [OF w(1,5,4) _ ok h, of sample_writer] ne by simp_all
  with w(1,3) h show ?thesis by blast
qed

section \<open>Repairs end\<close>

text \<open>The repair timer of a reader, as often as it goes off; the clock readings do not matter.\<close>

fun repair_rounds :: "ext \<Rightarrow> guid \<Rightarrow> nat \<Rightarrow> writer \<Rightarrow> writer option" where
  "repair_rounds x g 0 w = Some w"
| "repair_rounds x g (Suc n) w =
     do { (w1, _) \<leftarrow> handle_timed_event x Timestamp_ZERO (WT_SendRepairData g) w; repair_rounds x g n w1 }"

definition unsent_count :: "rtps_reader_proxy \<Rightarrow> nat" where
  "unsent_count rp = length (unsent_changes_iter rp)"

lemma unsent_set: "{k. bs_contains (unsent_changes rp) k} = set (unsent_changes_iter rp)"
  by (auto simp: unsent_changes_iter_def)

lemma unsent_count_card: "unsent_count rp = card {k. bs_contains (unsent_changes rp) k}"
  unfolding unsent_set unsent_count_def
  by (rule distinct_card [symmetric]) (simp add: unsent_changes_iter_def bm_keys_def)

lemma unsent_count_0: "unsent_count rp = 0 \<longleftrightarrow> first_unsent_change rp = None"
  by (simp add: unsent_count_def first_unsent_change_def split: list.splits)

lemma repair_progress_count:
  assumes "repair_progress rp rp'"
  shows "unsent_count rp' \<le> unsent_count rp - 1"
proof (cases "first_unsent_change rp")
  case None
  then show ?thesis
    using assms unsent_count_0 [of rp] by (simp add: repair_progress_def) (simp add: unsent_count_def unsent_changes_iter_def)
next
  case (Some sn)
  have "{k. bs_contains (unsent_changes rp') k} \<subset> {k. bs_contains (unsent_changes rp) k}"
    using assms Some first_unsent_contains [OF Some] by (auto simp: repair_progress_def)
  moreover have "finite {k. bs_contains (unsent_changes rp) k}"
    by (simp only: unsent_set List.finite_set)
  ultimately have "unsent_count rp' < unsent_count rp"
    unfolding unsent_count_card by (rule psubset_card_mono [rotated])
  then show ?thesis by simp
qed

lemma repair_round:
  assumes "ext_ok x" "writer_inv w" "\<not> w_like_stateless w" "bm_get (readers w) g = Some rp"
  obtains w' es rp' where "handle_timed_event x now (WT_SendRepairData g) w = Some (w', es)" "writer_inv w'"
    "\<not> w_like_stateless w'" "bm_get (readers w') g = Some rp'" "repair_progress rp rp'"
    "repair_mode rp' \<Longrightarrow> \<exists>d. WE_SetTimeout d (WT_SendRepairData g) \<in> set es"
proof -
  let ?w0 = "w\<lparr>readers := bm_remove g (readers w)\<rparr>"
  have inv0: "writer_inv ?w0" using writer_inv_remove_reader [OF assms(2)] .
  obtain rp' w1 es where w1: "handle_repair_data_send_worker x rp ?w0 = Some ((rp', w1), es)" "same_but_count ?w0 w1"
      "proxy_inv (last_seq (w_history_buffer w)) g rp'" "repair_progress rp rp'"
    using repair_data_worker_ok [OF assms(1) inv0, of g rp] writer_invD(6) [OF assms(2,4)] by auto
  let ?w2 = "w1\<lparr>readers := bm_insert g rp' (readers w1)\<rparr>"
  have "remote_reader_guid rp' = g" "w_history_buffer w1 = w_history_buffer w" and st: "\<not> w_like_stateless w1"
    using w1(2,3) assms(3) by (auto simp: proxy_inv_def same_but_count_def)
  then have send: "handle_repair_data_send x g w = Some (?w2, es)" and inv2: "writer_inv ?w2"
    using assms(3,4) w1(1,3) writer_inv_insert_reader [OF same_but_count_inv [OF w1(2) inv0]]
    by (auto simp: handle_repair_data_send_def)
  obtain q where q: "dur_div (case deadline (w_qos_policies w1) of
      Some dl \<Rightarrow> deadline_period dl | None \<Rightarrow> dur_from_millis 100) 5 = Some q"
    using dur_div_5 by blast
  show thesis
  proof (cases "repair_mode rp'")
    case True
    then show thesis
      by (intro that [of ?w2 "es @ [WE_SetTimeout (to_std q) (WT_SendRepairData g)]" rp'])
        (auto simp: handle_timed_event_def send q st inv2 w1(4))
  next
    case False
    then show thesis
      by (intro that [of ?w2 es rp']) (auto simp: handle_timed_event_def send q st inv2 w1(4))
  qed
qed

lemma repair_rounds_end:
  assumes "ext_ok x" "writer_inv w" "\<not> w_like_stateless w" "bm_get (readers w) g = Some rp" "unsent_count rp < n"
  shows "\<exists>w' rp'. repair_rounds x g n w = Some w' \<and> writer_inv w' \<and> bm_get (readers w') g = Some rp'
    \<and> \<not> repair_mode rp' \<and> unsent_count rp' = 0"
  using assms(2-)
proof (induction n arbitrary: w rp)
  case (Suc n)
  obtain w1 es rp1 where w1: "handle_timed_event x Timestamp_ZERO (WT_SendRepairData g) w = Some (w1, es)" "writer_inv w1"
      "\<not> w_like_stateless w1" "bm_get (readers w1) g = Some rp1" "repair_progress rp rp1"
    using repair_round [OF assms(1) Suc.prems(1-3)] by metis
  show ?case
  proof (cases n)
    case 0
    then have "first_unsent_change rp = None"
      using Suc.prems(4) by (simp flip: unsent_count_0)
    then show ?thesis
      using w1 unsent_count_0 [of rp] 0
      by (auto simp: repair_progress_def unsent_count_def unsent_changes_iter_def)
  next
    case (Suc m)
    then have "unsent_count rp1 < n"
      using repair_progress_count [OF w1(5)] \<open>unsent_count rp < Suc n\<close> by simp
    then show ?thesis using Suc.IH [OF w1(2-4)] w1(1) by simp
  qed
qed simp



text \<open>A repair does not tell a reader to skip a sample that is meant for another reader. When the
  first number to be repaired is such a sample and is not in the pending gap, which is the case for a
  reader that was matched after the sample was written, nothing is sent and the number is marked as
  sent, so that the reader keeps missing it.
\<close>

theorem foreign_sample_repair_is_silent:
  assumes "first_unsent_change rp = Some sn" "\<not> bs_contains (pending_gap rp) sn"
    and "first_seq (w_history_buffer w) \<le> sn" "hb_get_by_sn (w_history_buffer w) sn = Some cc"
    and "to_single_reader (write_options cc) = Some g" "g \<noteq> remote_reader_guid rp"
  shows "handle_repair_data_send_worker x rp w = Some ((mark_change_sent sn rp, w), [])"
proof -
  have "meant_for_another cc (Some rp)"
    using assms(5,6) by (simp add: meant_for_another_def)
  with assms show ?thesis
    by (simp add: handle_repair_data_send_worker_def send_cache_change_skip)
qed

theorem foreign_sample_repair_is_silent_witness:
  "\<exists>w. let rp = (rp_new sample_reader sample_reliable_qos False)\<lparr>unsent_changes := bs_insert 1 bm_empty\<rparr>
     in handle_repair_data_send_worker sample_ext rp w = Some ((mark_change_sent 1 rp, w), [])"
proof -
  let ?rp = "(rp_new sample_reader sample_reliable_qos False)\<lparr>unsent_changes := bs_insert 1 bm_empty\<rparr>"
  let ?cc = "sample_change_at 1\<lparr>write_options := (write_options sample_change)\<lparr>to_single_reader := Some sample_writer\<rparr>\<rparr>"
  obtain w where "writer_inv w" by (rule sample_busy_writer)
  let ?w = "w\<lparr>w_history_buffer := hb_add_change (Timestamp 1 0) ?cc (hb_new ''square'')\<rparr>"
  have "first_unsent_change ?rp = Some 1" "\<not> bs_contains (pending_gap ?rp) 1"
    by (simp_all add: first_unsent_change_def unsent_changes_iter_def rp_new_def bm_keys_def)
  moreover have "hb_get_by_sn (w_history_buffer ?w) 1 = Some ?cc" "first_seq (w_history_buffer ?w) \<le> 1"
    by (simp_all add: hb_get_by_sn_def hb_get_change_def hb_add_change_def sample_change_at_def Let_def hb_new_def sn_new_def)
  moreover have "to_single_reader (write_options ?cc) = Some sample_writer" "sample_writer \<noteq> remote_reader_guid ?rp"
    by (simp_all add: rp_new_def sample_writer_def sample_reader_def EntityId_UNKNOWN_def)
  ultimately show ?thesis
    unfolding Let_def by (intro exI [of _ ?w] foreign_sample_repair_is_silent)
qed

section \<open>Waiting for acknowledgements\<close>

text \<open>Reports of readers: acknowledged before a number, or lost.\<close>

fun ack_reports :: "(guid \<times> seqnum option) list \<Rightarrow> writer \<Rightarrow> writer \<times> writer_effect list" where
  "ack_reports [] w = (w, [])"
| "ack_reports ((g, r) # rs) w =
     (let (w1, es1) = update_ack_waiters g r w; (w2, es2) = ack_reports rs w1 in (w2, es1 @ es2))"

definition released :: "seqnum \<Rightarrow> (guid \<times> seqnum option) list \<Rightarrow> guid \<Rightarrow> bool" where
  "released n rs g \<longleftrightarrow> (\<exists>r. (g, r) \<in> set rs \<and> (case r of None \<Rightarrow> True | Some b \<Rightarrow> n < b))"

lemma ack_reports_None: "w_ack_waiter w = None \<Longrightarrow> ack_reports rs w = (w, [])"
  by (induction rs) (auto simp: update_ack_waiters_def)

lemma released_Cons:
  "released n ((g, r) # rs) g' \<longleftrightarrow> (g' = g \<and> (case r of None \<Rightarrow> True | Some b \<Rightarrow> n < b)) \<or> released n rs g'"
  by (auto simp: released_def)

lemma ack_reports_waiting:
  assumes "w_ack_waiter w = Some aw" "\<not> bm_is_empty (readers_pending aw)"
  shows "snd (ack_reports rs w) =
    (if \<forall>g. bs_contains (readers_pending aw) g \<longrightarrow> released (wait_until aw) rs g then [WE_AckComplete (complete_channel aw)] else [])"
  using assms
proof (induction rs arbitrary: w aw)
  case Nil
  then show ?case by (auto simp: released_def is_empty_iff)
next
  case (Cons rep rs)
  obtain g r where rep: "rep = (g, r)" by (cases rep)
  define rel where "rel \<longleftrightarrow> (case r of None \<Rightarrow> True | Some b \<Rightarrow> wait_until aw < b)"
  define aw' where "aw' = (if rel then aw\<lparr>readers_pending := bm_remove g (readers_pending aw)\<rparr> else aw)"
  have upd: "reader_acked_or_lost g r aw = (bm_is_empty (readers_pending aw'), aw')"
    by (auto simp: reader_acked_or_lost_def aw'_def rel_def Let_def split: option.splits)
  have pend: "bs_contains (readers_pending aw') g' \<longleftrightarrow> bs_contains (readers_pending aw) g' \<and> \<not> (g' = g \<and> rel)" for g'
    by (auto simp: aw'_def)
  have same: "wait_until aw' = wait_until aw" "complete_channel aw' = complete_channel aw"
    by (auto simp: aw'_def)
  have rc: "released (wait_until aw) (rep # rs) g' \<longleftrightarrow> (g' = g \<and> rel) \<or> released (wait_until aw) rs g'" for g'
    by (simp add: rep released_Cons rel_def)
  show ?case
  proof (cases "bm_is_empty (readers_pending aw')")
    case True
    then have "ack_reports (rep # rs) w = (w\<lparr>w_ack_waiter := None\<rparr>, [WE_AckComplete (complete_channel aw)])"
      by (simp add: rep update_ack_waiters_def Cons.prems(1) upd ack_reports_None same)
    moreover have "\<forall>g'. bs_contains (readers_pending aw) g' \<longrightarrow> g' = g \<and> rel"
      using True pend by (auto simp: is_empty_iff)
    ultimately show ?thesis by (auto simp: rc)
  next
    case False
    have "snd (ack_reports (rep # rs) w) = snd (ack_reports rs (w\<lparr>w_ack_waiter := Some aw'\<rparr>))"
      using False by (simp add: rep update_ack_waiters_def Cons.prems(1) upd split: prod.splits)
    also have "\<dots> = (if \<forall>g. bs_contains (readers_pending aw') g \<longrightarrow> released (wait_until aw) rs g
        then [WE_AckComplete (complete_channel aw)] else [])"
      using Cons.IH [of "w\<lparr>w_ack_waiter := Some aw'\<rparr>" aw'] False by (simp add: same)
    also have "(\<forall>g. bs_contains (readers_pending aw') g \<longrightarrow> released (wait_until aw) rs g)
        \<longleftrightarrow> (\<forall>g. bs_contains (readers_pending aw) g \<longrightarrow> released (wait_until aw) (rep # rs) g)"
      by (auto simp: pend rc)
    finally show ?thesis .
  qed
qed



section \<open>Fragment requests out of range\<close>

lemma request_frags_panics:
  "ext_ok x \<Longrightarrow> f \<in> set fs \<Longrightarrow> int (length v) < f \<Longrightarrow> request_frags x fs v = None"
  by (induction fs arbitrary: v) (auto simp: ext_bv)

text \<open>While the fragments of a sample are being repaired, a NACKFRAG of the same reader that asks for
  a fragment beyond the end of the sample panics: nothing checks the requested numbers before they
  index the bit vector of requested fragments.
\<close>

theorem nackfrag_beyond_sample_panics:
  assumes "ext_ok x" "is_reliable (w_qos_policies w)" "\<not> w_like_stateless w"
    and "bm_get (readers w) (GUID p (nf_reader_id nf)) = Some rp"
    and "bm_get (frags_requested rp) (nf_writer_sn nf) = Some v" "v \<noteq> []"
    and "ns_elems FragNum (fragment_number_state nf) = Some fs" "f \<in> set fs" "int (length v) < f"
  shows "handle_ack_nack x p (Ack_NackFrag nf) w = None"
proof -
  obtain b bs where "rev v = b # bs"
    using assms(6) by (cases "rev v") auto
  moreover have "1 \<le> length v"
    using assms(6) by (cases v) auto
  ultimately have "mark_frags_requested x (nf_writer_sn nf) (fragment_number_state nf) rp = None"
    using request_frags_panics [OF assms(1,8,9)] assms(5,7) by (simp add: mark_frags_requested_def Let_def)
  then show ?thesis
    using assms(2-4) by (simp add: handle_ack_nack_def Let_def)
qed

theorem nackfrag_beyond_sample_panics_witness:
  "\<exists>w. writer_inv w \<and> handle_ack_nack sample_ext sample_prefix (Ack_NackFrag
       \<lparr>nf_reader_id = EntityId (0, 0, 1) 7, nf_writer_id = EntityId_UNKNOWN, nf_writer_sn = 3,
        fragment_number_state = \<lparr>bitmap_base = 3, num_bits = 1, bitmap = [0x80000000]\<rparr>, nf_count = 1\<rparr>) w = None"
proof -
  let ?nf = "\<lparr>nf_reader_id = EntityId (0, 0, 1) 7, nf_writer_id = EntityId_UNKNOWN, nf_writer_sn = 3,
        fragment_number_state = \<lparr>bitmap_base = 3, num_bits = 1, bitmap = [0x80000000]\<rparr>, nf_count = 1\<rparr>"
  obtain w where w: "writer_inv w" "w_history_buffer w = sample_history"
    "readers w = bm_insert sample_reader sample_proxy bm_empty" "\<not> w_like_stateless w" "w_qos_policies w = sample_reliable_qos"
    by (rule sample_busy_writer)
  let ?rp = "mark_all_frags_requested sample_ext 3 2 sample_proxy"
  let ?w = "w\<lparr>readers := bm_insert sample_reader ?rp (readers w)\<rparr>"
  have inv: "writer_inv ?w"
    using writer_invD(6) [OF w(1), of sample_reader sample_proxy]
    by (intro writer_inv_insert_reader [OF w(1)]) (simp add: w(3) proxy_inv_def mark_all_frags_requested_def)
  have "bm_get (readers ?w) (GUID sample_prefix (nf_reader_id ?nf)) = Some ?rp"
    by (simp add: sample_reader_def)
  moreover have "bm_get (frags_requested ?rp) (nf_writer_sn ?nf) = Some [True, True]"
    by (simp add: mark_all_frags_requested_def ext_bv [OF ext_ok_sample] numeral_2_eq_2)
  moreover have "ns_elems FragNum (fragment_number_state ?nf) = Some [3]"
    by code_simp
  moreover have "is_reliable (w_qos_policies ?w)"
    by (simp add: w(5) sample_reliable_qos_def is_reliable_def)
  ultimately have "handle_ack_nack sample_ext sample_prefix (Ack_NackFrag ?nf) ?w = None"
    using w(4) by (intro nackfrag_beyond_sample_panics [OF ext_ok_sample, where rp = ?rp and v = "[True, True]" and fs = "[3]" and f = 3]) simp_all
  then show ?thesis using inv by blast
qed

end
