(* ===== verification/Dds_Cache.thy ===== *)
theory Dds_Cache
  imports History_Buffer Qos "HOL-Library.AList"
begin

text \<open>
  The cache of received samples (src/src/structure/dds_cache.rs): per topic the changes by receive
  time, an index from writers and sequence numbers to receive times, and for each writer the number
  before which everything is reliably received. \<^const>\<open>None\<close> is a panic of a range query whose
  start is beyond its end. The clock is an argument. Handles to topic caches are their names; the
  reallocation of byte buffers does not change what they hold.

  Shown here: the index and the changes agree in every reachable state; a reliable reader gets exactly
  the unread changes before the reliable marker, per writer in the order of their numbers; garbage
  collection respects the limits; two ways in which the limits and the clock break it.
\<close>

section \<open>Order of history policies\<close>

text \<open>The derived order: any depth is below \<open>KeepAll\<close>.\<close>

instantiation history :: linorder
begin

fun less_eq_history :: "history \<Rightarrow> history \<Rightarrow> bool" where
  "KeepLast d \<le> KeepLast d' \<longleftrightarrow> d \<le> d'"
| "KeepLast d \<le> KeepAll \<longleftrightarrow> True"
| "KeepAll \<le> KeepLast d \<longleftrightarrow> False"
| "KeepAll \<le> KeepAll \<longleftrightarrow> True"

definition less_history :: "history \<Rightarrow> history \<Rightarrow> bool" where
  "less_history a b \<longleftrightarrow> a \<le> b \<and> \<not> b \<le> a"

instance
proof
  fix a b c :: history
  show "a < b \<longleftrightarrow> a \<le> b \<and> \<not> b \<le> a" by (simp add: less_history_def)
  show "a \<le> a" by (cases a) auto
  show "a \<le> b \<Longrightarrow> b \<le> c \<Longrightarrow> a \<le> c" by (cases a; cases b; cases c) auto
  show "a \<le> b \<Longrightarrow> b \<le> a \<Longrightarrow> a = b" by (cases a; cases b) auto
  show "a \<le> b \<or> b \<le> a" by (cases a; cases b) auto
qed

end

section \<open>Ranges\<close>

text \<open>\<open>range((Excluded(lo), Included(hi)))\<close> and \<open>range((Excluded(lo), Excluded(hi)))\<close> of a map.\<close>

definition bm_range_ei :: "'k::linorder \<Rightarrow> 'k \<Rightarrow> ('k, 'v) btree_map \<Rightarrow> ('k \<times> 'v) list option" where
  "bm_range_ei lo hi m = (if lo > hi then None else Some (filter (\<lambda>(k, _). lo < k \<and> k \<le> hi) (bm_entries m)))"

definition bm_range_ee :: "'k::linorder \<Rightarrow> 'k \<Rightarrow> ('k, 'v) btree_map \<Rightarrow> ('k \<times> 'v) list option" where
  "bm_range_ee lo hi m = (if lo \<ge> hi then None else Some (filter (\<lambda>(k, _). lo < k \<and> k < hi) (bm_entries m)))"

section \<open>Topic caches\<close>

record topic_cache =
  tc_topic_name :: string
  topic_data_type :: string
  topic_qos :: qos_policies
  min_keep_samples :: history
  max_keep_samples :: int
  tc_changes :: "(timestamp, cache_change) btree_map"
  changes_reallocated_up_to :: timestamp
  tc_sequence_numbers :: "(guid, (seqnum, timestamp) btree_map) btree_map"
  received_reliably_before :: "(guid, seqnum) btree_map"

definition update_keep_limits :: "qos_policies \<Rightarrow> topic_cache \<Rightarrow> topic_cache" where
  "update_keep_limits qos tc =
     (let mink = (case history qos of Some h \<Rightarrow> h | None \<Rightarrow> KeepLast 1);
          maxk = (case resource_limits qos of Some r \<Rightarrow> max_samples r | None \<Rightarrow> 64);
          maxk' = (case mink of KeepLast n \<Rightarrow> if n > maxk then n else maxk | KeepAll \<Rightarrow> maxk)
      in tc\<lparr>min_keep_samples := max mink (min_keep_samples tc), max_keep_samples := max maxk' (max_keep_samples tc)\<rparr>)"

definition tc_new :: "string \<Rightarrow> string \<Rightarrow> qos_policies \<Rightarrow> topic_cache" where
  "tc_new name dtype qos = update_keep_limits qos \<lparr>
     tc_topic_name = name, topic_data_type = dtype, topic_qos = qos, min_keep_samples = KeepLast 1, max_keep_samples = 1,
     tc_changes = bm_empty, changes_reallocated_up_to = Timestamp_ZERO, tc_sequence_numbers = bm_empty,
     received_reliably_before = bm_empty\<rparr>"

definition mark_reliably_received_before :: "guid \<Rightarrow> seqnum \<Rightarrow> topic_cache \<Rightarrow> bool \<times> topic_cache" where
  "mark_reliably_received_before g sn tc =
     (let prev_sn = bm_get (received_reliably_before tc) g
      in ((case prev_sn of Some p \<Rightarrow> p | None \<Rightarrow> sn_new 1) < sn,
          tc\<lparr>received_reliably_before := bm_insert g sn (received_reliably_before tc)\<rparr>))"

definition tc_get_change :: "topic_cache \<Rightarrow> timestamp \<Rightarrow> cache_change option" where
  "tc_get_change tc ts = bm_get (tc_changes tc) ts"

definition find_by_sn :: "topic_cache \<Rightarrow> cache_change \<Rightarrow> timestamp option" where
  "find_by_sn tc cc =
     (case bm_get (tc_sequence_numbers tc) (writer_guid cc) of
        None \<Rightarrow> None | Some snm \<Rightarrow> bm_get snm (sequence_number cc))"

definition insert_sn :: "timestamp \<Rightarrow> cache_change \<Rightarrow> topic_cache \<Rightarrow> topic_cache" where
  "insert_sn ts cc tc =
     (let snm = (case bm_get (tc_sequence_numbers tc) (writer_guid cc) of None \<Rightarrow> bm_empty | Some snm \<Rightarrow> snm)
      in tc\<lparr>tc_sequence_numbers := bm_insert (writer_guid cc) (bm_insert (sequence_number cc) ts snm) (tc_sequence_numbers tc)\<rparr>)"

definition remove_sn :: "cache_change \<Rightarrow> topic_cache \<Rightarrow> topic_cache" where
  "remove_sn cc tc =
     (case bm_get (tc_sequence_numbers tc) (writer_guid cc) of
        None \<Rightarrow> tc
      | Some snm \<Rightarrow>
          let snm' = bm_remove (sequence_number cc) snm
          in tc\<lparr>tc_sequence_numbers :=
               (if bm_is_empty snm' then bm_remove (writer_guid cc) (tc_sequence_numbers tc)
                else bm_insert (writer_guid cc) snm' (tc_sequence_numbers tc))\<rparr>)"

text \<open>\<open>as usize\<close> of a signed number, and \<open>saturating_sub\<close> of the natural numbers (truncated by HOL).\<close>

definition as_usize :: "int \<Rightarrow> nat" where
  "as_usize n = nat (n mod 2 ^ 64)"

text \<open>The first key that \<open>skip_while\<close> does not skip; \<open>i\<close> is the number of the first key.\<close>

fun first_retained :: "nat \<Rightarrow> nat \<Rightarrow> timestamp \<Rightarrow> nat \<Rightarrow> timestamp list \<Rightarrow> timestamp option" where
  "first_retained must may rb i [] = None"
| "first_retained must may rb i (ts # tss) =
     (if i < must \<or> (ts < rb \<and> i < may) then first_retained must may rb (i + 1) tss else Some ts)"

definition must_remove_count :: "topic_cache \<Rightarrow> nat" where
  "must_remove_count tc = bm_len (tc_changes tc) - as_usize (max_keep_samples tc)"

definition may_remove_count :: "topic_cache \<Rightarrow> nat" where
  "may_remove_count tc =
     (case min_keep_samples tc of
        KeepAll \<Rightarrow> must_remove_count tc
      | KeepLast d \<Rightarrow> max (bm_len (tc_changes tc) - as_usize d) (must_remove_count tc))"

definition tc_remove_changes_before :: "timestamp \<Rightarrow> timestamp \<Rightarrow> topic_cache \<Rightarrow> topic_cache option" where
  "tc_remove_changes_before now remove_before tc =
     (let (to_remove, to_retain) =
            (case first_retained (must_remove_count tc) (may_remove_count tc) remove_before 0 (bm_keys (tc_changes tc)) of
               Some split_key \<Rightarrow> bm_split_off split_key (tc_changes tc)
             | None \<Rightarrow> (tc_changes tc, bm_empty));
          tc1 = fold remove_sn (bm_values to_remove) (tc\<lparr>tc_changes := to_retain\<rparr>);
          reallocate_limit = ts_sub_dur now (dur_from_secs 5)
      in map_option (\<lambda>_. tc1\<lparr>changes_reallocated_up_to := reallocate_limit\<rparr>)
           (bm_range_ei (changes_reallocated_up_to tc1) reallocate_limit (tc_changes tc1)))"

text \<open>\<open>add_change_internal\<close>, with the change that is given back; \<open>now\<close> is the clock of the collection.\<close>

definition add_change_internal ::
    "timestamp \<Rightarrow> timestamp \<Rightarrow> cache_change \<Rightarrow> topic_cache \<Rightarrow> (cache_change option \<times> topic_cache) option" where
  "add_change_internal now instant cc tc =
     do { tc1 \<leftarrow> (if as_usize (sequence_number cc) mod 64 = 0
                  then tc_remove_changes_before now Timestamp_ZERO tc else Some tc);
          (case find_by_sn tc1 cc of
             Some _ \<Rightarrow> Some (None, tc1)
           | None \<Rightarrow>
               let tc2 = insert_sn instant cc tc1;
                   old = bm_get (tc_changes tc2) instant;
                   tc3 = tc2\<lparr>tc_changes := bm_insert instant cc (tc_changes tc2)\<rparr>
               in Some (old, case old of None \<Rightarrow> tc3 | Some old_cc \<Rightarrow> remove_sn old_cc tc3)) }"

definition tc_add_change :: "timestamp \<Rightarrow> timestamp \<Rightarrow> cache_change \<Rightarrow> topic_cache \<Rightarrow> topic_cache option" where
  "tc_add_change now instant cc tc = map_option snd (add_change_internal now instant cc tc)"

definition get_changes_in_range_best_effort ::
    "topic_cache \<Rightarrow> timestamp \<Rightarrow> timestamp \<Rightarrow> (timestamp \<times> cache_change) list option" where
  "get_changes_in_range_best_effort tc start_instant end_instant = bm_range_ei start_instant end_instant (tc_changes tc)"

definition reliable_before :: "topic_cache \<Rightarrow> guid \<Rightarrow> seqnum" where
  "reliable_before tc g = (case bm_get (received_reliably_before tc) g of Some sn \<Rightarrow> sn | None \<Rightarrow> sn_default)"

text \<open>The index entries of one writer that a reliable reader may read, and those of all writers.\<close>

definition reliable_range ::
    "topic_cache \<Rightarrow> (guid, seqnum) btree_map \<Rightarrow> guid \<Rightarrow> (seqnum, timestamp) btree_map \<Rightarrow> (seqnum \<times> timestamp) list option" where
  "reliable_range tc last_read_sn g snm =
     (let lo = (case bm_get last_read_sn g of Some sn \<Rightarrow> sn | None \<Rightarrow> sn_zero)
      in bm_range_ee lo (max (reliable_before tc g) (plus_1 lo)) snm)"

fun flat_map_opt :: "('a \<Rightarrow> 'b list option) \<Rightarrow> 'a list \<Rightarrow> 'b list option" where
  "flat_map_opt f [] = Some []"
| "flat_map_opt f (a # as') = do { bs \<leftarrow> f a; cs \<leftarrow> flat_map_opt f as'; Some (bs @ cs) }"

definition get_changes_in_range_reliable ::
    "topic_cache \<Rightarrow> (guid, seqnum) btree_map \<Rightarrow> (timestamp \<times> cache_change) list option" where
  "get_changes_in_range_reliable tc last_read_sn =
     map_option (List.map_filter (\<lambda>(_, ts). map_option (Pair ts) (tc_get_change tc ts)))
       (flat_map_opt (\<lambda>(g, snm). reliable_range tc last_read_sn g snm) (bm_entries (tc_sequence_numbers tc)))"

section \<open>The cache of a participant\<close>

type_synonym dds_cache = "(string \<times> topic_cache) list"

definition add_new_topic :: "string \<Rightarrow> string \<Rightarrow> qos_policies \<Rightarrow> dds_cache \<Rightarrow> dds_cache" where
  "add_new_topic name dtype qos c =
     (case map_of c name of
        Some tc \<Rightarrow> AList.update name (update_keep_limits qos tc) c
      | None \<Rightarrow> AList.update name (tc_new name dtype qos) c)"

definition get_existing_topic_cache :: "string \<Rightarrow> dds_cache \<Rightarrow> topic_cache option" where
  "get_existing_topic_cache name c = map_of c name"

definition remove_topic :: "string \<Rightarrow> dds_cache \<Rightarrow> dds_cache" where
  "remove_topic name c = (if map_of c name \<noteq> None then AList.delete name c else c)"

fun dc_garbage_collect :: "timestamp \<Rightarrow> dds_cache \<Rightarrow> dds_cache option" where
  "dc_garbage_collect now [] = Some []"
| "dc_garbage_collect now ((name, tc) # c) =
     do { tc' \<leftarrow> (case bm_last (tc_changes tc) of
                   Some (last_timestamp, _) \<Rightarrow>
                     if last_timestamp > changes_reallocated_up_to tc
                     then tc_remove_changes_before now Timestamp_ZERO tc else Some tc
                 | None \<Rightarrow> Some tc);
          c' \<leftarrow> dc_garbage_collect now c;
          Some ((name, tc') # c') }"

section \<open>The index and the changes agree\<close>

definition tc_index :: "topic_cache \<Rightarrow> guid \<Rightarrow> seqnum \<Rightarrow> timestamp option" where
  "tc_index tc g sn = (case bm_get (tc_sequence_numbers tc) g of None \<Rightarrow> None | Some snm \<Rightarrow> bm_get snm sn)"

definition tc_inv :: "topic_cache \<Rightarrow> bool" where
  "tc_inv tc \<longleftrightarrow>
     (\<forall>g sn ts. tc_index tc g sn = Some ts \<longrightarrow>
        (\<exists>cc. tc_get_change tc ts = Some cc \<and> writer_guid cc = g \<and> sequence_number cc = sn))
     \<and> (\<forall>ts cc. tc_get_change tc ts = Some cc \<longrightarrow> tc_index tc (writer_guid cc) (sequence_number cc) = Some ts)"

lemma tc_invD:
  assumes "tc_inv tc"
  shows "tc_index tc g sn = Some ts \<Longrightarrow> \<exists>cc. tc_get_change tc ts = Some cc \<and> writer_guid cc = g \<and> sequence_number cc = sn"
    and "tc_get_change tc ts = Some cc \<Longrightarrow> tc_index tc (writer_guid cc) (sequence_number cc) = Some ts"
  using assms unfolding tc_inv_def by blast+

lemma find_by_sn_index: "find_by_sn tc cc = tc_index tc (writer_guid cc) (sequence_number cc)"
  by (simp add: find_by_sn_def tc_index_def)

lemma index_insert_sn [simp]:
  "tc_index (insert_sn ts cc tc) g sn = (if g = writer_guid cc \<and> sn = sequence_number cc then Some ts else tc_index tc g sn)"
  by (auto simp: tc_index_def insert_sn_def Let_def split: option.splits)

lemma index_remove_sn [simp]:
  "tc_index (remove_sn cc tc) g sn = (if g = writer_guid cc \<and> sn = sequence_number cc then None else tc_index tc g sn)"
proof (cases "bm_get (tc_sequence_numbers tc) (writer_guid cc)")
  case (Some snm)
  have "bm_is_empty (bm_remove (sequence_number cc) snm) \<Longrightarrow> sn \<noteq> sequence_number cc \<Longrightarrow> bm_get snm sn = None"
    using is_empty_iff [of "bm_remove (sequence_number cc) snm"] by (auto simp: bm_contains_def split: if_splits)
  then show ?thesis
    using Some by (auto simp: tc_index_def remove_sn_def Let_def split: option.splits)
qed (auto simp: tc_index_def remove_sn_def)

lemma changes_index_ops [simp]:
  "tc_changes (insert_sn ts cc tc) = tc_changes tc" "tc_changes (remove_sn cc tc) = tc_changes tc"
  "tc_get_change (insert_sn ts cc tc) = tc_get_change tc" "tc_get_change (remove_sn cc tc) = tc_get_change tc"
  "changes_reallocated_up_to (remove_sn cc tc) = changes_reallocated_up_to tc"
  "received_reliably_before (remove_sn cc tc) = received_reliably_before tc"
  by (auto simp: insert_sn_def remove_sn_def tc_get_change_def fun_eq_iff Let_def split: option.splits)

lemma fold_remove_sn [simp]:
  "tc_changes (fold remove_sn ccs tc) = tc_changes tc"
  "changes_reallocated_up_to (fold remove_sn ccs tc) = changes_reallocated_up_to tc"
  "received_reliably_before (fold remove_sn ccs tc) = received_reliably_before tc"
  by (induction ccs arbitrary: tc) simp_all

lemma index_fold_remove_sn:
  "tc_index (fold remove_sn ccs tc) g sn =
     (if \<exists>cc \<in> set ccs. writer_guid cc = g \<and> sequence_number cc = sn then None else tc_index tc g sn)"
  by (induction ccs arbitrary: tc) auto

lemma tc_index_update [simp]:
  "tc_index (tc\<lparr>tc_changes := m\<rparr>) = tc_index tc" "tc_index (tc\<lparr>changes_reallocated_up_to := t\<rparr>) = tc_index tc"
  "tc_index (tc\<lparr>received_reliably_before := r\<rparr>) = tc_index tc"
  "tc_index (tc\<lparr>min_keep_samples := h, max_keep_samples := n\<rparr>) = tc_index tc"
  by (simp_all add: tc_index_def fun_eq_iff)

text \<open>The changes that a collection leaves, and the index that goes with them.\<close>

definition gc_retained :: "timestamp \<Rightarrow> topic_cache \<Rightarrow> (timestamp, cache_change) btree_map" where
  "gc_retained rb tc =
     (case first_retained (must_remove_count tc) (may_remove_count tc) rb 0 (bm_keys (tc_changes tc)) of
        Some k \<Rightarrow> snd (bm_split_off k (tc_changes tc)) | None \<Rightarrow> bm_empty)"

lemma gc_retained_get: "bm_get (gc_retained rb tc) ts = Some cc \<Longrightarrow> tc_get_change tc ts = Some cc"
  by (auto simp: gc_retained_def tc_get_change_def split: option.splits if_splits)

lemma gc_removed_values:
  assumes "(case first_retained (must_remove_count tc) (may_remove_count tc) rb 0 (bm_keys (tc_changes tc)) of
      Some split_key \<Rightarrow> bm_split_off split_key (tc_changes tc) | None \<Rightarrow> (tc_changes tc, bm_empty)) = (rem, ret)"
  shows "ret = gc_retained rb tc"
    and "cc \<in> set (bm_values rem) \<longleftrightarrow> (\<exists>ts. tc_get_change tc ts = Some cc \<and> bm_get (gc_retained rb tc) ts = None)"
proof -
  show "ret = gc_retained rb tc"
    using assms by (auto simp: gc_retained_def split: option.splits)
  have "bm_get rem ts = Some cc \<longleftrightarrow> tc_get_change tc ts = Some cc \<and> bm_get (gc_retained rb tc) ts = None" for ts
  proof (cases "first_retained (must_remove_count tc) (may_remove_count tc) rb 0 (bm_keys (tc_changes tc))")
    case None
    then show ?thesis using assms by (auto simp: gc_retained_def tc_get_change_def)
  next
    case (Some k)
    then have "rem = fst (bm_split_off k (tc_changes tc))" using assms by (metis fst_conv option.simps(5))
    then show ?thesis using Some by (auto simp: gc_retained_def tc_get_change_def)
  qed
  then show "cc \<in> set (bm_values rem) \<longleftrightarrow> (\<exists>ts. tc_get_change tc ts = Some cc \<and> bm_get (gc_retained rb tc) ts = None)"
    by (simp add: values_get)
qed

text \<open>The clock has not gone back since the last collection.\<close>

definition gc_clock_ok :: "timestamp \<Rightarrow> topic_cache \<Rightarrow> bool" where
  "gc_clock_ok now tc \<longleftrightarrow> changes_reallocated_up_to tc \<le> ts_sub_dur now (dur_from_secs 5)"

lemma gc_spec:
  assumes "tc_inv tc"
  shows "tc_remove_changes_before now rb tc = None \<longleftrightarrow> \<not> gc_clock_ok now tc"
    and "tc_remove_changes_before now rb tc = Some tc' \<Longrightarrow> tc_inv tc'"
    and "tc_remove_changes_before now rb tc = Some tc' \<Longrightarrow> tc_changes tc' = gc_retained rb tc"
    and "tc_remove_changes_before now rb tc = Some tc' \<Longrightarrow> received_reliably_before tc' = received_reliably_before tc"
    and "tc_remove_changes_before now rb tc = Some tc' \<Longrightarrow> changes_reallocated_up_to tc' = ts_sub_dur now (dur_from_secs 5)"
proof -
  obtain rem ret where rr: "(case first_retained (must_remove_count tc) (may_remove_count tc) rb 0 (bm_keys (tc_changes tc)) of
      Some split_key \<Rightarrow> bm_split_off split_key (tc_changes tc) | None \<Rightarrow> (tc_changes tc, bm_empty)) = (rem, ret)"
    by (metis surj_pair)
  note ret = gc_removed_values(1) [OF rr] and rem = gc_removed_values(2) [OF rr]
  let ?tc = "(fold remove_sn (bm_values rem) (tc\<lparr>tc_changes := gc_retained rb tc\<rparr>))\<lparr>changes_reallocated_up_to := ts_sub_dur now (dur_from_secs 5)\<rparr>"
  have eq: "tc_remove_changes_before now rb tc = (if gc_clock_ok now tc then Some ?tc else None)"
    unfolding tc_remove_changes_before_def rr by (auto simp: ret bm_range_ei_def gc_clock_ok_def Let_def)
  show "tc_remove_changes_before now rb tc = None \<longleftrightarrow> \<not> gc_clock_ok now tc" by (simp add: eq)
  have get: "tc_get_change ?tc ts = bm_get (gc_retained rb tc) ts" for ts
    by (simp add: tc_get_change_def)
  have idx: "tc_index ?tc g sn = (case tc_index tc g sn of None \<Rightarrow> None
      | Some ts \<Rightarrow> if bm_get (gc_retained rb tc) ts = None then None else Some ts)" for g sn
    using tc_invD [OF assms] by (force simp: index_fold_remove_sn rem split: option.splits)
  have "tc_inv ?tc"
    unfolding tc_inv_def get idx
    using tc_invD [OF assms] gc_retained_get [of rb tc]
    by (fastforce split: option.splits if_splits)
  then show "tc_remove_changes_before now rb tc = Some tc' \<Longrightarrow> tc_inv tc'"
    by (simp add: eq split: if_splits)
  show "tc_remove_changes_before now rb tc = Some tc' \<Longrightarrow> tc_changes tc' = gc_retained rb tc"
    "tc_remove_changes_before now rb tc = Some tc' \<Longrightarrow> received_reliably_before tc' = received_reliably_before tc"
    "tc_remove_changes_before now rb tc = Some tc' \<Longrightarrow> changes_reallocated_up_to tc' = ts_sub_dur now (dur_from_secs 5)"
    by (auto simp: eq split: if_splits)
qed

lemma tc_invI:
  assumes "\<And>g sn ts. tc_index tc g sn = Some ts \<Longrightarrow>
      \<exists>cc. tc_get_change tc ts = Some cc \<and> writer_guid cc = g \<and> sequence_number cc = sn"
    and "\<And>ts cc. tc_get_change tc ts = Some cc \<Longrightarrow> tc_index tc (writer_guid cc) (sequence_number cc) = Some ts"
  shows "tc_inv tc"
  using assms by (simp add: tc_inv_def)

lemma add_new_inv:
  fixes tc cc instant
  defines "tc' \<equiv> (case bm_get (tc_changes tc) instant of
      None \<Rightarrow> (insert_sn instant cc tc)\<lparr>tc_changes := bm_insert instant cc (tc_changes tc)\<rparr>
    | Some old_cc \<Rightarrow> remove_sn old_cc ((insert_sn instant cc tc)\<lparr>tc_changes := bm_insert instant cc (tc_changes tc)\<rparr>))"
  assumes inv: "tc_inv tc" and new: "find_by_sn tc cc = None"
  shows "tc_inv tc'" and "tc_get_change tc' ts = (if ts = instant then Some cc else tc_get_change tc ts)"
proof -
  have get: "tc_get_change tc' ts = (if ts = instant then Some cc else tc_get_change tc ts)" for ts
    by (simp add: tc'_def tc_get_change_def split: option.splits)
  then show "tc_get_change tc' ts = (if ts = instant then Some cc else tc_get_change tc ts)" .
  have idx: "tc_index tc' g sn =
      (if \<exists>old. tc_get_change tc instant = Some old \<and> g = writer_guid old \<and> sn = sequence_number old then None
       else if g = writer_guid cc \<and> sn = sequence_number cc then Some instant else tc_index tc g sn)" for g sn
    by (simp add: tc'_def tc_get_change_def split: option.splits)
  note D = tc_invD [OF inv]
  show "tc_inv tc'"
  proof (rule tc_invI)
    fix g sn ts assume some: "tc_index tc' g sn = Some ts"
    then have keep: "\<nexists>old. tc_get_change tc instant = Some old \<and> g = writer_guid old \<and> sn = sequence_number old"
      unfolding idx by (metis option.distinct(1))
    show "\<exists>c. tc_get_change tc' ts = Some c \<and> writer_guid c = g \<and> sequence_number c = sn"
    proof (cases "g = writer_guid cc \<and> sn = sequence_number cc")
      case True
      then have "ts = instant" using some keep unfolding idx by (simp only: if_False if_True option.inject simp_thms)
      then show ?thesis using True by (simp add: get)
    next
      case False
      then have "tc_index tc g sn = Some ts" using some keep unfolding idx by (simp only: if_False)
      then obtain c where "tc_get_change tc ts = Some c" "writer_guid c = g" "sequence_number c = sn"
        using D(1) by blast
      then show ?thesis using keep by (auto simp: get)
    qed
  next
    fix ts c assume c: "tc_get_change tc' ts = Some c"
    show "tc_index tc' (writer_guid c) (sequence_number c) = Some ts"
    proof (cases "ts = instant")
      case True
      then show ?thesis using c new D(2) by (auto simp: get idx find_by_sn_index)
    next
      case False
      then have "tc_index tc (writer_guid c) (sequence_number c) = Some ts"
        using c D(2) by (simp add: get)
      then show ?thesis using False new D(2) [of instant] by (auto simp: idx find_by_sn_index)
    qed
  qed
qed

section \<open>Garbage collection\<close>

lemma first_retained_spec:
  "\<exists>r. first_retained must may rb i tss = (case drop r tss of [] \<Rightarrow> None | t # _ \<Rightarrow> Some t) \<and> r \<le> length tss
    \<and> (\<forall>j < r. i + j < must \<or> (tss ! j < rb \<and> i + j < may))
    \<and> (r < length tss \<longrightarrow> must \<le> i + r \<and> \<not> (tss ! r < rb \<and> i + r < may))"
proof (induction must may rb i tss rule: first_retained.induct)
  case (2 must may rb i ts tss)
  show ?case
  proof (cases "i < must \<or> (ts < rb \<and> i < may)")
    case True
    then obtain r where r: "first_retained must may rb (i + 1) tss = (case drop r tss of [] \<Rightarrow> None | t # _ \<Rightarrow> Some t)"
        "r \<le> length tss" "\<forall>j < r. i + 1 + j < must \<or> (tss ! j < rb \<and> i + 1 + j < may)"
        "r < length tss \<longrightarrow> must \<le> i + 1 + r \<and> \<not> (tss ! r < rb \<and> i + 1 + r < may)"
      using "2.IH" by blast
    have "\<forall>j < Suc r. i + j < must \<or> ((ts # tss) ! j < rb \<and> i + j < may)"
    proof (intro allI impI)
      fix j assume "j < Suc r"
      then show "i + j < must \<or> ((ts # tss) ! j < rb \<and> i + j < may)"
        using True r(3) by (cases j) auto
    qed
    then show ?thesis
      using True r by (intro exI [of _ "Suc r"]) auto
  qed (intro exI [of _ 0], auto)
qed simp

lemma split_off_entries:
  assumes "drop r (bm_entries m) = (k, v) # es"
  shows "bm_entries (snd (bm_split_off k m)) = drop r (bm_entries m)"
proof -
  have split: "bm_entries m = take r (bm_entries m) @ (k, v) # es"
    using assms by (metis append_take_drop_id)
  have "sorted_wrt (<) (map fst (take r (bm_entries m)) @ k # map fst es)"
    using keys_sorted [of m] by (subst (asm) bm_keys_def, subst (asm) split) simp
  then have "\<forall>e \<in> set (take r (bm_entries m)). fst e < k" "\<forall>e \<in> set es. k < fst e"
    by (auto simp: sorted_wrt_append)
  then have "filter (\<lambda>(k', v). k \<le> k') (take r (bm_entries m)) = []" "filter (\<lambda>(k', v). k \<le> k') es = es"
    by (auto simp: filter_empty_conv filter_id_conv)
  then show ?thesis
    unfolding bm_split_off_def snd_conv entries_retain by (subst split) (simp add: assms)
qed

lemma gc_drops:
  assumes "tc_inv tc" "tc_remove_changes_before now rb tc = Some tc'"
  obtains r where "bm_entries (tc_changes tc') = drop r (bm_entries (tc_changes tc))"
    "must_remove_count tc \<le> r" "r \<le> may_remove_count tc"
    "\<forall>j < r. j < must_remove_count tc \<or> bm_keys (tc_changes tc) ! j < rb"
    "r < may_remove_count tc \<longrightarrow> rb \<le> bm_keys (tc_changes tc) ! r"
proof -
  let ?m = "tc_changes tc"
  have may: "must_remove_count tc \<le> may_remove_count tc" "may_remove_count tc \<le> bm_len ?m"
    by (auto simp: may_remove_count_def must_remove_count_def split: history.splits)
  obtain r where r: "first_retained (must_remove_count tc) (may_remove_count tc) rb 0 (bm_keys ?m)
        = (case drop r (bm_keys ?m) of [] \<Rightarrow> None | t # _ \<Rightarrow> Some t)"
      "r \<le> length (bm_keys ?m)" "\<forall>j < r. j < must_remove_count tc \<or> (bm_keys ?m ! j < rb \<and> j < may_remove_count tc)"
      "r < length (bm_keys ?m) \<longrightarrow> must_remove_count tc \<le> r \<and> \<not> (bm_keys ?m ! r < rb \<and> r < may_remove_count tc)"
    using first_retained_spec [of "must_remove_count tc" "may_remove_count tc" rb 0 "bm_keys ?m"] by auto
  have len: "length (bm_keys ?m) = bm_len ?m" by (simp add: bm_keys_def bm_len_def)
  have "bm_entries (gc_retained rb tc) = drop r (bm_entries ?m)"
  proof (cases "drop r (bm_entries ?m)")
    case Nil
    then show ?thesis using r(1) by (simp add: gc_retained_def bm_keys_def drop_map)
  next
    case (Cons e es)
    then show ?thesis
      using r(1) split_off_entries [of r ?m "fst e" "snd e" es] by (simp add: gc_retained_def bm_keys_def drop_map)
  qed
  then have "bm_entries (tc_changes tc') = drop r (bm_entries ?m)"
    by (simp add: gc_spec(3) [OF assms])
  moreover have "must_remove_count tc \<le> r"
    using r(2,4) len may by (cases "r < length (bm_keys ?m)") auto
  moreover have "r \<le> may_remove_count tc"
  proof (rule ccontr)
    assume "\<not> r \<le> may_remove_count tc"
    then show False using r(3) [rule_format, of "may_remove_count tc"] may(1) by simp
  qed
  moreover have "r < may_remove_count tc \<longrightarrow> rb \<le> bm_keys ?m ! r"
    using r(4) may(2) len by (auto simp: not_less)
  ultimately show thesis using that r(3) by blast
qed

text \<open>C34: Garbage collection drops the oldest changes of a topic and nothing else. It drops at least as
  many as there are beyond the maximum, so that the maximum holds afterwards; beyond that it drops
  only changes before the given time, and never so many that fewer than the kept depth remain; and it
  stops at the first change that it need not or may not drop.\<close>

theorem garbage_collection_limits:
  assumes "tc_inv tc" "tc_remove_changes_before now rb tc = Some tc'"
  shows "\<exists>r. bm_entries (tc_changes tc') = drop r (bm_entries (tc_changes tc))
    \<and> bm_len (tc_changes tc') \<le> as_usize (max_keep_samples tc)
    \<and> (case min_keep_samples tc of
         KeepAll \<Rightarrow> r \<le> must_remove_count tc
       | KeepLast d \<Rightarrow> must_remove_count tc < r \<longrightarrow> as_usize d \<le> bm_len (tc_changes tc'))
    \<and> (\<forall>j. must_remove_count tc \<le> j \<longrightarrow> j < r \<longrightarrow> bm_keys (tc_changes tc) ! j < rb)
    \<and> (r < may_remove_count tc \<longrightarrow> rb \<le> bm_keys (tc_changes tc) ! r)"
proof -
  obtain r where r: "bm_entries (tc_changes tc') = drop r (bm_entries (tc_changes tc))"
    "must_remove_count tc \<le> r" "r \<le> may_remove_count tc"
    "\<forall>j < r. j < must_remove_count tc \<or> bm_keys (tc_changes tc) ! j < rb"
    "r < may_remove_count tc \<longrightarrow> rb \<le> bm_keys (tc_changes tc) ! r"
    by (rule gc_drops [OF assms])
  have len: "bm_len (tc_changes tc') = bm_len (tc_changes tc) - r"
    using r(1) by (simp add: bm_len_def)
  then have "bm_len (tc_changes tc') \<le> as_usize (max_keep_samples tc)"
    using r(2) by (simp add: must_remove_count_def)
  moreover have "case min_keep_samples tc of
         KeepAll \<Rightarrow> r \<le> must_remove_count tc
       | KeepLast d \<Rightarrow> must_remove_count tc < r \<longrightarrow> as_usize d \<le> bm_len (tc_changes tc')"
    using r(2,3) len by (auto simp: may_remove_count_def must_remove_count_def max_def split: history.splits if_splits)
  ultimately show ?thesis
    using r by (intro exI [of _ r]) (auto simp: not_le)
qed

lemma tc_inv_new: "tc_inv (tc_new name dtype qos)"
  by (simp add: tc_inv_def tc_index_def tc_get_change_def tc_new_def update_keep_limits_def Let_def)

text \<open>A cache of one topic with two samples of one writer, for the instances below.\<close>

definition sample_cc :: "seqnum \<Rightarrow> cache_change" where
  "sample_cc sn = cc_new GUID_UNKNOWN sn \<lparr>related_sample_identity = None, source_timestamp = None, to_single_reader = None\<rparr>
     (Data_Payload \<lparr>representation_identifier = CDR_LE, representation_options = (0, 0), sp_value = [1, 2]\<rparr>)"

definition sample_cache :: topic_cache where
  "sample_cache =
     (tc_new ''square'' ''Shape'' qos_none)
       \<lparr>tc_sequence_numbers :=
          bm_insert GUID_UNKNOWN (bm_insert 2 (Timestamp 11 0) (bm_insert 1 (Timestamp 10 0) bm_empty)) bm_empty,
        tc_changes := bm_insert (Timestamp 11 0) (sample_cc 2) (bm_insert (Timestamp 10 0) (sample_cc 1) bm_empty),
        max_keep_samples := 1\<rparr>"

lemma sample_cc_sel [simp]: "writer_guid (sample_cc sn) = GUID_UNKNOWN" "sequence_number (sample_cc sn) = sn"
  by (simp_all add: sample_cc_def cc_new_def)

lemma sample_cache_eqs:
  "tc_changes sample_cache = bm_insert (Timestamp 11 0) (sample_cc 2) (bm_insert (Timestamp 10 0) (sample_cc 1) bm_empty)"
  "max_keep_samples sample_cache = 1" "min_keep_samples sample_cache = KeepLast 1"
  "changes_reallocated_up_to sample_cache = Timestamp 0 0" "received_reliably_before sample_cache = bm_empty"
  "tc_sequence_numbers sample_cache =
     bm_insert GUID_UNKNOWN (bm_insert 2 (Timestamp 11 0) (bm_insert 1 (Timestamp 10 0) bm_empty)) bm_empty"
  by (simp_all add: sample_cache_def tc_new_def update_keep_limits_def Timestamp_ZERO_def qos_none_def Let_def)

lemma sample_cache_inv: "tc_inv sample_cache"
  by (auto simp: tc_inv_def tc_index_def tc_get_change_def sample_cache_eqs split: if_splits)

theorem garbage_collection_limits_witness:
  "\<exists>tc'. tc_remove_changes_before (Timestamp 100 0) Timestamp_ZERO sample_cache = Some tc'
     \<and> bm_entries (tc_changes tc') = [(Timestamp 11 0, sample_cc 2)]"
proof -
  have "gc_clock_ok (Timestamp 100 0) sample_cache"
    unfolding gc_clock_ok_def sample_cache_eqs by code_simp
  then obtain tc' where tc': "tc_remove_changes_before (Timestamp 100 0) Timestamp_ZERO sample_cache = Some tc'"
    using gc_spec(1) [OF sample_cache_inv] by blast
  have ent: "bm_entries (tc_changes sample_cache) = [(Timestamp 10 0, sample_cc 1), (Timestamp 11 0, sample_cc 2)]"
    by (simp add: sample_cache_eqs less_timestamp_def)
  have "must_remove_count sample_cache = 1" "may_remove_count sample_cache = 1"
    by (simp_all add: must_remove_count_def may_remove_count_def sample_cache_eqs(2,3) bm_len_def ent as_usize_def)
  with garbage_collection_limits [OF sample_cache_inv tc'] obtain r where
    "bm_entries (tc_changes tc') = drop r (bm_entries (tc_changes sample_cache))" "bm_len (tc_changes tc') \<le> 1" "r \<le> 1 \<or> 1 \<le> bm_len (tc_changes tc')"
    by (auto simp: sample_cache_eqs(2,3) as_usize_def)
  then have "bm_entries (tc_changes tc') = [(Timestamp 11 0, sample_cc 2)]"
    by (cases r; cases "r - 1") (auto simp: ent bm_len_def drop_Cons')
  then show ?thesis using tc' by blast
qed

text \<open>Collecting with a clock that has gone back panics. When the clock, less the reallocation
  delay, is before the time up to which buffers were reallocated, the range query of the collection
  has a start beyond its end.\<close>

theorem clock_step_back_panics:
  assumes "tc_inv tc0" "tc_remove_changes_before now1 rb1 tc0 = Some tc"
    and "ts_sub_dur now2 (dur_from_secs 5) < ts_sub_dur now1 (dur_from_secs 5)"
  shows "tc_remove_changes_before now2 rb2 tc = None"
  using gc_spec(1) [OF gc_spec(2) [OF assms(1,2)], of now2 rb2] gc_spec(5) [OF assms(1,2)] assms(3)
  by (simp add: gc_clock_ok_def)

theorem clock_step_back_panics_witness:
  "\<exists>tc. tc_remove_changes_before (Timestamp 100 0) Timestamp_ZERO sample_cache = Some tc
     \<and> tc_remove_changes_before (Timestamp 99 0) Timestamp_ZERO tc = None"
proof -
  have "gc_clock_ok (Timestamp 100 0) sample_cache"
    unfolding gc_clock_ok_def sample_cache_eqs by code_simp
  then obtain tc where tc: "tc_remove_changes_before (Timestamp 100 0) Timestamp_ZERO sample_cache = Some tc"
    using gc_spec(1) [OF sample_cache_inv] by blast
  have "ts_sub_dur (Timestamp 99 0) (dur_from_secs 5) < ts_sub_dur (Timestamp 100 0) (dur_from_secs 5)"
    by code_simp
  from clock_step_back_panics [OF sample_cache_inv tc this] tc show ?thesis by blast
qed

text \<open>Unlimited resources keep one sample. The limit \<open>-1\<close> (no limit) is compared as a number with the
  initial value \<open>1\<close> and loses, so that a topic with history \<open>KeepAll\<close> and no resource limit is
  cut down to a single change by every collection.\<close>

theorem unlimited_samples_keep_one:
  assumes "history qos = Some KeepAll" "resource_limits qos = Some r" "max_samples r = -1"
    and "tc_inv tc" "max_keep_samples tc = max_keep_samples (tc_new name dtype qos)"
    and "tc_remove_changes_before now rb tc = Some tc'"
  shows "max_keep_samples tc = 1 \<and> bm_len (tc_changes tc') \<le> 1"
proof -
  have "max_keep_samples tc = 1"
    using assms(1-3,5) by (simp add: tc_new_def update_keep_limits_def Let_def)
  moreover obtain k where "must_remove_count tc \<le> k" "bm_entries (tc_changes tc') = drop k (bm_entries (tc_changes tc))"
    by (rule gc_drops [OF assms(4,6)])
  ultimately show ?thesis by (simp add: bm_len_def must_remove_count_def as_usize_def)
qed

theorem unlimited_samples_keep_one_witness:
  "\<exists>tc'. tc_remove_changes_before (Timestamp 100 0) Timestamp_ZERO sample_cache = Some tc'
     \<and> max_keep_samples sample_cache = max_keep_samples (tc_new ''square'' ''Shape'' (qos_none\<lparr>history := Some KeepAll,
          resource_limits := Some \<lparr>max_samples = -1, max_instances = -1, max_samples_per_instance = -1\<rparr>\<rparr>))
     \<and> bm_len (tc_changes tc') \<le> 1"
proof -
  let ?q = "qos_none\<lparr>history := Some KeepAll,
     resource_limits := Some \<lparr>max_samples = -1, max_instances = -1, max_samples_per_instance = -1\<rparr>\<rparr>"
  have "gc_clock_ok (Timestamp 100 0) sample_cache"
    unfolding gc_clock_ok_def sample_cache_eqs by code_simp
  then obtain tc' where tc': "tc_remove_changes_before (Timestamp 100 0) Timestamp_ZERO sample_cache = Some tc'"
    using gc_spec(1) [OF sample_cache_inv] by blast
  have eq: "max_keep_samples sample_cache = max_keep_samples (tc_new ''square'' ''Shape'' ?q)"
    by (simp add: sample_cache_eqs(2) tc_new_def update_keep_limits_def Let_def)
  from unlimited_samples_keep_one [of ?q, OF _ _ _ sample_cache_inv eq tc'] eq tc' show ?thesis by simp
qed

section \<open>Reading reliably\<close>

definition last_read :: "(guid, seqnum) btree_map \<Rightarrow> guid \<Rightarrow> seqnum" where
  "last_read lr g = (case bm_get lr g of Some sn \<Rightarrow> sn | None \<Rightarrow> sn_zero)"

lemma flat_map_opt_Some: "(\<And>a. a \<in> set as' \<Longrightarrow> f a = Some (h a)) \<Longrightarrow> flat_map_opt f as' = Some (concat (map h as'))"
  by (induction as') simp_all

lemma reliable_range_eq:
  assumes "in_i64 (last_read lr g)" "last_read lr g < i64_max"
  shows "reliable_range tc lr g snm =
    Some (filter (\<lambda>(sn, _). last_read lr g < sn \<and> sn < reliable_before tc g) (bm_entries snm))"
proof -
  have p: "plus_1 (last_read lr g) = last_read lr g + 1"
    using assms by (rule plus_1_exact)
  have "(\<lambda>(sn, _). last_read lr g < sn \<and> sn < max (reliable_before tc g) (last_read lr g + 1)) =
      (\<lambda>(sn, _ :: timestamp). last_read lr g < sn \<and> sn < reliable_before tc g)"
    by (auto simp: fun_eq_iff)
  then show ?thesis
    unfolding reliable_range_def Let_def last_read_def [symmetric] p bm_range_ee_def by auto
qed

text \<open>The order in which changes are handed to a reliable reader.\<close>

definition sn_ordered :: "cache_change \<Rightarrow> cache_change \<Rightarrow> bool" where
  "sn_ordered a b \<longleftrightarrow> writer_guid a < writer_guid b
     \<or> writer_guid a = writer_guid b \<and> sequence_number a < sequence_number b"

abbreviation with_change :: "topic_cache \<Rightarrow> seqnum \<times> timestamp \<Rightarrow> (timestamp \<times> cache_change) option" where
  "with_change tc \<equiv> (\<lambda>(_, ts). map_option (Pair ts) (tc_get_change tc ts))"

lemma set_map_filter_change:
  "(ts, cc) \<in> set (List.map_filter (with_change tc) es) \<longleftrightarrow> (\<exists>sn. (sn, ts) \<in> set es) \<and> tc_get_change tc ts = Some cc"
  by (force simp: List.map_filter_def)

lemma map_filter_append: "List.map_filter f (xs @ ys) = List.map_filter f xs @ List.map_filter f ys"
  by (simp add: List.map_filter_def)

lemma sorted_one_writer:
  assumes "sorted_wrt (<) (map fst es)"
    and "\<forall>(sn, ts) \<in> set es. \<forall>cc. tc_get_change tc ts = Some cc \<longrightarrow> writer_guid cc = g \<and> sequence_number cc = sn"
  shows "sorted_wrt (\<lambda>a b. sn_ordered (snd a) (snd b)) (List.map_filter (with_change tc) es)"
  using assms
proof (induction es)
  case (Cons e es)
  obtain sn ts where e: "e = (sn, ts)" by (cases e)
  have IH: "sorted_wrt (\<lambda>a b. sn_ordered (snd a) (snd b)) (List.map_filter (with_change tc) es)"
    using Cons by simp
  have "sn_ordered cc cc'" if "tc_get_change tc ts = Some cc" and rest: "(ts', cc') \<in> set (List.map_filter (with_change tc) es)" for cc cc' ts'
  proof -
    obtain sn' where sn': "(sn', ts') \<in> set es" "tc_get_change tc ts' = Some cc'"
      using rest by (auto simp: set_map_filter_change)
    have "sn < sn'"
      using Cons.prems(1) sn'(1) by (auto simp: e)
    moreover have "writer_guid cc = g \<and> sequence_number cc = sn"
      using Cons.prems(2) that(1) by (simp add: e)
    moreover have "writer_guid cc' = g \<and> sequence_number cc' = sn'"
      using Cons.prems(2) sn' by auto
    ultimately show ?thesis by (simp add: sn_ordered_def)
  qed
  then show ?case
    using IH by (cases "tc_get_change tc ts") (auto simp: e List.map_filter_simps)
qed (simp add: List.map_filter_simps)

lemma sorted_all_writers:
  assumes "sorted_wrt (<) (map fst es)"
    and "\<forall>e \<in> set es. sorted_wrt (<) (map fst (h e)) \<and> (\<forall>(sn, ts) \<in> set (h e). \<forall>cc.
        tc_get_change tc ts = Some cc \<longrightarrow> writer_guid cc = fst e \<and> sequence_number cc = sn)"
  shows "sorted_wrt (\<lambda>a b. sn_ordered (snd a) (snd b)) (List.map_filter (with_change tc) (concat (map h es)))"
  using assms
proof (induction es)
  case (Cons e es)
  have head: "sorted_wrt (\<lambda>a b. sn_ordered (snd a) (snd b)) (List.map_filter (with_change tc) (h e))"
    using Cons.prems(2) by (intro sorted_one_writer [of _ _ "fst e"]) simp_all
  have rest: "sorted_wrt (\<lambda>a b. sn_ordered (snd a) (snd b)) (List.map_filter (with_change tc) (concat (map h es)))"
    using Cons.prems by (intro Cons.IH) simp_all
  have "sn_ordered a b" if a: "(t, a) \<in> set (List.map_filter (with_change tc) (h e))"
      and b: "(t', b) \<in> set (List.map_filter (with_change tc) (concat (map h es)))" for a b t t'
  proof -
    obtain sn where "(sn, t) \<in> set (h e)" "tc_get_change tc t = Some a"
      using a by (auto simp: set_map_filter_change)
    then have "writer_guid a = fst e"
      using Cons.prems(2) by auto
    moreover obtain e' sn' where e': "e' \<in> set es" "(sn', t') \<in> set (h e')" "tc_get_change tc t' = Some b"
      using b by (auto simp: set_map_filter_change)
    then have "writer_guid b = fst e'"
      using Cons.prems(2) by fastforce
    moreover have "fst e < fst e'"
      using Cons.prems(1) e'(1) by simp
    ultimately show ?thesis by (simp add: sn_ordered_def)
  qed
  then show ?case
    using head rest by (auto simp: map_filter_append sorted_wrt_append)
qed (simp add: List.map_filter_simps)

lemma reliable_read_spec:
  assumes inv: "tc_inv tc" and range: "\<forall>g. in_i64 (last_read lr g) \<and> last_read lr g < i64_max"
  shows "\<exists>rs. get_changes_in_range_reliable tc lr = Some rs
    \<and> (\<forall>ts cc. (ts, cc) \<in> set rs \<longleftrightarrow> tc_get_change tc ts = Some cc
         \<and> last_read lr (writer_guid cc) < sequence_number cc \<and> sequence_number cc < reliable_before tc (writer_guid cc))
    \<and> sorted_wrt (\<lambda>a b. sn_ordered (snd a) (snd b)) rs"
proof -
  define h where "h = (\<lambda>(g, snm). filter (\<lambda>(sn, _ :: timestamp). last_read lr g < sn \<and> sn < reliable_before tc g) (bm_entries snm))"
  let ?es = "bm_entries (tc_sequence_numbers tc)"
  let ?rs = "List.map_filter (with_change tc) (concat (map h ?es))"
  have eq: "get_changes_in_range_reliable tc lr = Some ?rs"
    unfolding get_changes_in_range_reliable_def
    by (subst flat_map_opt_Some [where h = h]) (auto simp: h_def reliable_range_eq range)
  have h: "(sn, ts) \<in> set (h (g, snm)) \<longleftrightarrow> bm_get snm sn = Some ts \<and> last_read lr g < sn \<and> sn < reliable_before tc g" for sn ts g snm
    by (auto simp: h_def in_entries)
  have idx: "tc_index tc g sn = Some ts \<longleftrightarrow> (\<exists>snm. (g, snm) \<in> set ?es \<and> bm_get snm sn = Some ts)" for g sn ts
    by (auto simp: tc_index_def in_entries split: option.splits)
  have own: "writer_guid cc = g \<and> sequence_number cc = sn"
    if "(g, snm) \<in> set ?es" "(sn, ts) \<in> set (h (g, snm))" "tc_get_change tc ts = Some cc" for g snm sn ts cc
    using tc_invD(1) [OF inv, of g sn ts] that idx [of g sn ts] by (auto simp: h)
  have "(ts, cc) \<in> set ?rs \<longleftrightarrow> tc_get_change tc ts = Some cc
      \<and> last_read lr (writer_guid cc) < sequence_number cc \<and> sequence_number cc < reliable_before tc (writer_guid cc)" for ts cc
  proof
    assume "(ts, cc) \<in> set ?rs"
    then obtain g snm sn where "(g, snm) \<in> set ?es" "(sn, ts) \<in> set (h (g, snm))" "tc_get_change tc ts = Some cc"
      by (auto simp: set_map_filter_change)
    then show "tc_get_change tc ts = Some cc
        \<and> last_read lr (writer_guid cc) < sequence_number cc \<and> sequence_number cc < reliable_before tc (writer_guid cc)"
      using own [of g snm sn ts cc] by (simp add: h)
  next
    assume a: "tc_get_change tc ts = Some cc
        \<and> last_read lr (writer_guid cc) < sequence_number cc \<and> sequence_number cc < reliable_before tc (writer_guid cc)"
    then obtain snm where "(writer_guid cc, snm) \<in> set ?es" "bm_get snm (sequence_number cc) = Some ts"
      using tc_invD(2) [OF inv] idx by blast
    then show "(ts, cc) \<in> set ?rs"
      using a h [of "sequence_number cc" ts "writer_guid cc" snm] by (auto simp: set_map_filter_change intro!: bexI)
  qed
  moreover have "sorted_wrt (\<lambda>a b. sn_ordered (snd a) (snd b)) ?rs"
  proof (rule sorted_all_writers)
    show "sorted_wrt (<) (map fst ?es)"
      using keys_sorted [of "tc_sequence_numbers tc"] by (simp add: bm_keys_def)
    have "sorted_wrt (<) (map fst (h (g, snm)))" for g snm
      using keys_sorted [of snm] by (simp add: h_def bm_keys_def sorted_wrt_map sorted_wrt_filter)
    then show "\<forall>e \<in> set ?es. sorted_wrt (<) (map fst (h e)) \<and> (\<forall>(sn, ts) \<in> set (h e). \<forall>cc.
        tc_get_change tc ts = Some cc \<longrightarrow> writer_guid cc = fst e \<and> sequence_number cc = sn)"
      using own by fastforce
  qed
  ultimately show ?thesis using eq by blast
qed

text \<open>C21: What a reliable reader gets. The query for unread changes returns exactly the stored changes
  whose number is above the last one read from their writer and below the reliable marker of that
  writer; per writer they come in the order of their numbers.\<close>

theorem reliable_read_exact:
  assumes inv: "tc_inv tc" and range: "\<forall>g. in_i64 (last_read lr g) \<and> last_read lr g < i64_max"
  shows "\<exists>rs. get_changes_in_range_reliable tc lr = Some rs
    \<and> (\<forall>ts cc. (ts, cc) \<in> set rs \<longleftrightarrow> tc_get_change tc ts = Some cc
         \<and> last_read lr (writer_guid cc) < sequence_number cc \<and> sequence_number cc < reliable_before tc (writer_guid cc))
    \<and> sorted_wrt (\<lambda>a b. sn_ordered (snd a) (snd b)) rs"
  by (rule reliable_read_spec [OF assms])

theorem reliable_read_exact_witness:
  "\<exists>rs. get_changes_in_range_reliable (snd (mark_reliably_received_before GUID_UNKNOWN 2 sample_cache)) bm_empty = Some rs
     \<and> (\<forall>ts cc. (ts, cc) \<in> set rs \<longleftrightarrow> ts = Timestamp 10 0 \<and> cc = sample_cc 1)"
proof -
  let ?tc = "snd (mark_reliably_received_before GUID_UNKNOWN 2 sample_cache)"
  have eqs: "tc_get_change ?tc = tc_get_change sample_cache" "tc_index ?tc = tc_index sample_cache"
    by (auto simp: mark_reliably_received_before_def tc_get_change_def Let_def fun_eq_iff)
  have "tc_inv ?tc"
    using sample_cache_inv by (simp add: tc_inv_def eqs)
  moreover have "\<forall>g. in_i64 (last_read bm_empty g) \<and> last_read bm_empty g < i64_max"
    by (simp add: last_read_def sn_zero_def in_i64_def i64_min_def i64_max_def)
  ultimately obtain rs where "get_changes_in_range_reliable ?tc bm_empty = Some rs"
      "\<forall>ts cc. (ts, cc) \<in> set rs \<longleftrightarrow> tc_get_change ?tc ts = Some cc
         \<and> last_read bm_empty (writer_guid cc) < sequence_number cc \<and> sequence_number cc < reliable_before ?tc (writer_guid cc)"
    using reliable_read_exact [of ?tc bm_empty] by blast
  then show ?thesis
    by (intro exI [of _ rs])
      (auto simp: eqs tc_get_change_def sample_cache_eqs last_read_def sn_zero_def reliable_before_def
        mark_reliably_received_before_def Let_def split: if_splits)
qed

section \<open>Adding changes\<close>

text \<open>What the reader relies on when it stores a sample.\<close>

lemma tc_add_change_spec:
  assumes inv: "tc_inv tc" and clock: "gc_clock_ok now tc"
  obtains tc' where "tc_add_change now instant cc tc = Some tc'" "tc_inv tc'"
    "received_reliably_before tc' = received_reliably_before tc"
    "tc_index tc' (writer_guid cc) (sequence_number cc) \<noteq> None"
    "changes_reallocated_up_to tc' = changes_reallocated_up_to tc \<or> changes_reallocated_up_to tc' = ts_sub_dur now (dur_from_secs 5)"
proof -
  obtain tc1 where tc1: "(if as_usize (sequence_number cc) mod 64 = 0
      then tc_remove_changes_before now Timestamp_ZERO tc else Some tc) = Some tc1" "tc_inv tc1"
      "received_reliably_before tc1 = received_reliably_before tc"
      "changes_reallocated_up_to tc1 = changes_reallocated_up_to tc \<or> changes_reallocated_up_to tc1 = ts_sub_dur now (dur_from_secs 5)"
  proof (cases "as_usize (sequence_number cc) mod 64 = 0")
    case True
    obtain tc1 where tc1: "tc_remove_changes_before now Timestamp_ZERO tc = Some tc1"
      using gc_spec(1) [OF inv, of now Timestamp_ZERO] clock by blast
    show thesis
      using True tc1 gc_spec(2,4,5) [OF inv tc1] by (intro that [of tc1]) simp_all
  qed (use inv that in simp)
  show thesis
  proof (cases "find_by_sn tc1 cc")
    case (Some ts)
    then show thesis
      using that [of tc1] tc1 by (simp add: tc_add_change_def add_change_internal_def find_by_sn_index)
  next
    case None
    let ?tc = "case bm_get (tc_changes tc1) instant of
        None \<Rightarrow> (insert_sn instant cc tc1)\<lparr>tc_changes := bm_insert instant cc (tc_changes tc1)\<rparr>
      | Some old_cc \<Rightarrow> remove_sn old_cc ((insert_sn instant cc tc1)\<lparr>tc_changes := bm_insert instant cc (tc_changes tc1)\<rparr>)"
    have "tc_add_change now instant cc tc = Some ?tc"
      using None by (simp add: tc_add_change_def add_change_internal_def tc1(1) Let_def cong: option.case_cong)
    moreover have "tc_inv ?tc" and get: "tc_get_change ?tc instant = Some cc"
      using add_new_inv [OF tc1(2) None, of instant] by simp_all
    moreover have "tc_index ?tc (writer_guid cc) (sequence_number cc) \<noteq> None"
      using tc_invD(2) [OF \<open>tc_inv ?tc\<close> get] by simp
    moreover have "received_reliably_before ?tc = received_reliably_before tc1"
        "changes_reallocated_up_to ?tc = changes_reallocated_up_to tc1"
      by (auto simp: insert_sn_def Let_def split: option.splits)
    ultimately show thesis using that [of ?tc] tc1(3,4) by metis
  qed
qed

lemma tc_add_change_new:
  assumes inv: "tc_inv tc" and clock: "gc_clock_ok now tc" and new: "tc_index tc (writer_guid cc) (sequence_number cc) = None"
  obtains tc' where "tc_add_change now instant cc tc = Some tc'" "tc_inv tc'" "gc_clock_ok now tc'"
    "tc_get_change tc' instant = Some cc" "\<forall>ts c. ts \<noteq> instant \<and> tc_get_change tc' ts = Some c \<longrightarrow> tc_get_change tc ts = Some c"
proof -
  obtain tc0 where tc0: "tc_add_change now instant cc tc = Some tc0" "tc_inv tc0"
      "changes_reallocated_up_to tc0 = changes_reallocated_up_to tc \<or> changes_reallocated_up_to tc0 = ts_sub_dur now (dur_from_secs 5)"
    using tc_add_change_spec [OF inv clock] by metis
  obtain tc1 where tc1: "(if as_usize (sequence_number cc) mod 64 = 0
      then tc_remove_changes_before now Timestamp_ZERO tc else Some tc) = Some tc1"
    using tc0(1) unfolding tc_add_change_def add_change_internal_def
    by (cases "if as_usize (sequence_number cc) mod 64 = 0 then tc_remove_changes_before now Timestamp_ZERO tc else Some tc") auto
  have inv1: "tc_inv tc1" and sub: "\<And>ts c. tc_get_change tc1 ts = Some c \<Longrightarrow> tc_get_change tc ts = Some c"
    using tc1 inv gc_spec(2,3) [OF inv, of now Timestamp_ZERO tc1] gc_retained_get [of Timestamp_ZERO tc]
    by (auto simp: tc_get_change_def split: if_splits)
  have "find_by_sn tc1 cc = None"
  proof (rule ccontr)
    assume "find_by_sn tc1 cc \<noteq> None"
    then obtain ts where "tc_index tc1 (writer_guid cc) (sequence_number cc) = Some ts"
      by (auto simp: find_by_sn_index)
    from tc_invD(1) [OF inv1 this] obtain c where
      "tc_get_change tc1 ts = Some c" "writer_guid c = writer_guid cc" "sequence_number c = sequence_number cc"
      by blast
    then show False
      using tc_invD(2) [OF inv sub] new by fastforce
  qed
  then have eq: "tc_add_change now instant cc tc = Some (case bm_get (tc_changes tc1) instant of
        None \<Rightarrow> (insert_sn instant cc tc1)\<lparr>tc_changes := bm_insert instant cc (tc_changes tc1)\<rparr>
      | Some old_cc \<Rightarrow> remove_sn old_cc ((insert_sn instant cc tc1)\<lparr>tc_changes := bm_insert instant cc (tc_changes tc1)\<rparr>))"
    by (simp add: tc_add_change_def add_change_internal_def tc1 Let_def cong: option.case_cong)
  then have "tc_get_change tc0 ts = (if ts = instant then Some cc else tc_get_change tc1 ts)" for ts
    using add_new_inv(2) [OF inv1 \<open>find_by_sn tc1 cc = None\<close>] tc0(1) by simp
  then show thesis
    using tc0 sub clock by (intro that [of tc0]) (auto simp: gc_clock_ok_def)
qed

text \<open>No other number comes into the index; the number of the change that was at the instant leaves it.\<close>

lemma add_change_index:
  assumes inv: "tc_inv tc" "tc_inv tc'" and at: "tc_get_change tc' instant = Some cc"
    and others: "\<forall>ts c. ts \<noteq> instant \<and> tc_get_change tc' ts = Some c \<longrightarrow> tc_get_change tc ts = Some c"
    and number: "(g, sn) \<noteq> (writer_guid cc, sequence_number cc)" "tc_index tc g sn = None \<or> tc_index tc g sn = Some instant"
  shows "tc_index tc' g sn = None"
proof (rule ccontr)
  assume "tc_index tc' g sn \<noteq> None"
  then obtain ts where "tc_index tc' g sn = Some ts" by auto
  from tc_invD(1) [OF inv(2) this] obtain c where c: "tc_get_change tc' ts = Some c" "writer_guid c = g" "sequence_number c = sn"
    by blast
  then have ts: "ts \<noteq> instant" using at number(1) by auto
  then have "tc_get_change tc ts = Some c" using others c(1) by blast
  from tc_invD(2) [OF inv(1) this] c number(2) ts show False by auto
qed

end
