(* ===== verification/Reader.thy ===== *)
theory Reader
  imports Writer_Proxy Fragment_Assembler Status_Events Dds_Cache
begin

text \<open>
  The RTPS reader (src/src/rtps/reader.rs). The state is a record of the reader's fields; the topic
  cache, which the reader shares with other readers of the topic and with the data readers, is passed
  along and returned. Packets, notifications, status events and timers are returned as a list of
  effects in the order of the code. \<^const>\<open>None\<close> is a panic or a loop that does not end. A handler
  reads the clock once.
\<close>

record message_receiver_state =
  mrs_source_guid_prefix :: guid_prefix
  mrs_unicast_reply_locator_list :: "locator list"
  mrs_multicast_reply_locator_list :: "locator list"
  mrs_source_timestamp :: "timestamp option"

record rtps_reader =
  r_like_stateless :: bool
  r_reliability :: reliability
  r_topic_name :: string
  r_qos_policy :: qos_policies
  r_my_guid :: guid
  heartbeat_response_delay :: int
  heartbeat_suppression_duration :: int
  r_received_heartbeat_count :: int
  fragment_assemblers :: "(guid, fragment_assembler) btree_map"
  last_fragment_garbage_collect :: timestamp
  matched_writers :: "(guid, rtps_writer_proxy) btree_map"
  writer_match_count_total :: int
  requested_deadline_missed_count :: int
  offered_incompatible_qos_count :: int

datatype reader_effect =
    RE_Send bytes "locator list"
  | RE_Notify
  | RE_Status data_reader_status
  | RE_ParticipantStatus participant_status_event
  | RE_SetTimeout int

type_synonym reader_result = "(rtps_reader \<times> topic_cache \<times> reader_effect list) option"

abbreviation r_entity_id :: "rtps_reader \<Rightarrow> entity_id" where
  "r_entity_id r \<equiv> guid_entity_id (r_my_guid r)"

definition FRAGMENT_ASSEMBLY_TIMEOUT :: duration where
  "FRAGMENT_ASSEMBLY_TIMEOUT = dur_from_secs 10"

definition MIN_FRAGMENT_GC_INTERVAL :: duration where
  "MIN_FRAGMENT_GC_INTERVAL = dur_from_secs 2"

definition reader_new ::
    "timestamp \<Rightarrow> guid \<Rightarrow> string \<Rightarrow> topic_cache \<Rightarrow> bool \<Rightarrow> qos_policies \<Rightarrow> rtps_reader option" where
  "reader_new now g topic tc stateless qos =
     (if topic \<noteq> tc_topic_name tc then None
      else if stateless \<and> is_reliable qos then None
      else Some \<lparr>r_like_stateless = stateless,
        r_reliability = (case reliability qos of Some r \<Rightarrow> r | None \<Rightarrow> BestEffort),
        r_topic_name = topic, r_qos_policy = qos, r_my_guid = g,
        heartbeat_response_delay = 500000000, heartbeat_suppression_duration = 0, r_received_heartbeat_count = 0,
        fragment_assemblers = bm_empty, last_fragment_garbage_collect = now, matched_writers = bm_empty,
        writer_match_count_total = 0, requested_deadline_missed_count = 0, offered_incompatible_qos_count = 0\<rparr>)"

section \<open>Deadlines and commands\<close>

definition set_requested_deadline_check_timer :: "rtps_reader \<Rightarrow> reader_effect list" where
  "set_requested_deadline_check_timer r =
     (case deadline (r_qos_policy r) of
        Some dl \<Rightarrow> [RE_SetTimeout (to_std (deadline_period dl))]
      | None \<Rightarrow> [])"

text \<open>The loop over the matched writers: the count of missed deadlines, and the statuses.\<close>

fun deadline_loop :: "timestamp \<Rightarrow> duration \<Rightarrow> rtps_writer_proxy list \<Rightarrow> int \<Rightarrow> int \<times> data_reader_status list" where
  "deadline_loop now dl [] n = (n, [])"
| "deadline_loop now dl (wp # wps) n =
     (let missed = (case last_change_timestamp wp of
                      Some last_change \<Rightarrow> duration_since now last_change > dl
                    | None \<Rightarrow> True)
      in if missed then
           let n' = wrap_i32 (n + 1); (n2, sts) = deadline_loop now dl wps n'
           in (n2, RequestedDeadlineMissed (cwc_start_from n' 1) # sts)
         else deadline_loop now dl wps n)"

definition calculate_if_requested_deadline_is_missed :: "timestamp \<Rightarrow> rtps_reader \<Rightarrow> rtps_reader \<times> data_reader_status list" where
  "calculate_if_requested_deadline_is_missed now r =
     (case deadline (r_qos_policy r) of
        None \<Rightarrow> (r, [])
      | Some dl \<Rightarrow>
          let (n, sts) = deadline_loop now (deadline_period dl) (bm_values (matched_writers r)) (requested_deadline_missed_count r)
          in (r\<lparr>requested_deadline_missed_count := n\<rparr>, sts))"

definition reader_handle_timed_event :: "timestamp \<Rightarrow> rtps_reader \<Rightarrow> rtps_reader \<times> reader_effect list" where
  "reader_handle_timed_event now r =
     (let (r1, sts) = calculate_if_requested_deadline_is_missed now r
      in (r1, map RE_Status sts @ set_requested_deadline_check_timer r1))"

section \<open>Matching writers\<close>

definition matched_writer_update :: "rtps_writer_proxy \<Rightarrow> rtps_reader \<Rightarrow> int \<times> rtps_reader" where
  "matched_writer_update proxy r =
     (case bm_get (matched_writers r) (remote_writer_guid proxy) of
        Some op \<Rightarrow> (0, r\<lparr>matched_writers := bm_insert (remote_writer_guid proxy) (wp_update_contents op proxy) (matched_writers r)\<rparr>)
      | None \<Rightarrow> (1, r\<lparr>matched_writers := bm_insert (remote_writer_guid proxy) proxy (matched_writers r)\<rparr>))"

definition update_writer_proxy :: "rtps_writer_proxy \<Rightarrow> qos_policies \<Rightarrow> rtps_reader \<Rightarrow> rtps_reader \<times> reader_effect list" where
  "update_writer_proxy proxy offered_qos r =
     (if r_like_stateless r then (r, [])
      else
        let w = remote_writer_guid proxy
        in case compliance_failure_wrt offered_qos (r_qos_policy r) of
             None \<Rightarrow>
               let (count_change, r1) = matched_writer_update proxy r
               in if count_change > 0 then
                    let r2 = r1\<lparr>writer_match_count_total := wrap_i32 (writer_match_count_total r1 + count_change)\<rparr>
                    in (r2,
                        [RE_Status (SubscriptionMatched (cwc_new (writer_match_count_total r2) count_change)
                           (cwc_new (wrap_i32 (int (bm_len (matched_writers r2)))) count_change) w),
                         RE_ParticipantStatus (RemoteWriterMatched (r_my_guid r2) w)])
                  else (r1, [])
           | Some bad_policy_id \<Rightarrow>
               let r1 = r\<lparr>offered_incompatible_qos_count := wrap_i32 (offered_incompatible_qos_count r + 1)\<rparr>
               in (r1,
                   [RE_Status (RequestedIncompatibleQos (cwc_new (offered_incompatible_qos_count r1) 1) bad_policy_id w
                      (r_qos_policy r1) offered_qos),
                    RE_ParticipantStatus (RemoteWriterQosIncompatible (r_my_guid r1) w (r_qos_policy r1) offered_qos)]))"

definition remove_writer_proxy :: "guid \<Rightarrow> rtps_reader \<Rightarrow> rtps_reader \<times> reader_effect list" where
  "remove_writer_proxy g r =
     (if bm_contains (matched_writers r) g then
        let r1 = r\<lparr>matched_writers := bm_remove g (matched_writers r)\<rparr>
        in (r1, [RE_Status (SubscriptionMatched (cwc_new (writer_match_count_total r1) 0)
                   (cwc_new (wrap_i32 (int (bm_len (matched_writers r1)))) (-1)) g)])
      else (r, []))"

definition reader_participant_lost :: "guid_prefix \<Rightarrow> rtps_reader \<Rightarrow> rtps_reader \<times> reader_effect list" where
  "reader_participant_lost p r =
     fold (\<lambda>g (r, es). case remove_writer_proxy g r of (r', es') \<Rightarrow> (r', es @ es'))
       (filter (in_guid_range (guid_prefix_range p)) (bm_keys (matched_writers r))) (r, [])"

definition contains_writer :: "rtps_reader \<Rightarrow> entity_id \<Rightarrow> bool" where
  "contains_writer r e \<longleftrightarrow>
     (if \<not> r_like_stateless r then \<exists>g \<in> set (bm_keys (matched_writers r)). guid_entity_id g = e else False)"

section \<open>Received data\<close>

text \<open>\<open>cdr_representation_identifier\<close> of the submessage flags.\<close>

definition cdr_representation_identifier :: "ext \<Rightarrow> u8 \<Rightarrow> representation_identifier" where
  "cdr_representation_identifier x flags = (if flags_contains x flags Flag_Endianness then CDR_LE else CDR_BE)"

definition received_write_options ::
    "ext \<Rightarrow> timestamp option \<Rightarrow> parameter_list option \<Rightarrow> representation_identifier \<Rightarrow> write_options" where
  "received_write_options x src_ts inline_qos rep_id =
     \<lparr>related_sample_identity =
        (case inline_qos of
           None \<Rightarrow> None
         | Some ps \<Rightarrow> (case iq_related_sample_identity x ps rep_id of Some rsi \<Rightarrow> rsi | None \<Rightarrow> None)),
      source_timestamp = src_ts, to_single_reader = None\<rparr>"

definition deduce_change_kind :: "ext \<Rightarrow> parameter_list option \<Rightarrow> bool \<Rightarrow> representation_identifier \<Rightarrow> change_kind" where
  "deduce_change_kind x inline_qos no_writers rep_id =
     (case (case inline_qos of None \<Rightarrow> None | Some ps \<Rightarrow> iq_status_info x ps rep_id) of
        Some si \<Rightarrow> status_change_kind x si
      | None \<Rightarrow> if no_writers then NotAliveUnregistered else NotAliveDisposed)"

text \<open>\<^const>\<open>None\<close> is an \<open>Err\<close>: the submessage is discarded.\<close>

definition data_to_dds_data :: "ext \<Rightarrow> data_sm \<Rightarrow> u8 \<Rightarrow> dds_data option" where
  "data_to_dds_data x d flags =
     (let rep_id = cdr_representation_identifier x flags
      in case (d_serialized_payload d, flags_contains x flags DATA_Data, flags_contains x flags DATA_Key) of
           (Some p, True, False) \<Rightarrow> map_option Data_Payload (sp_from_bytes p)
         | (Some p, False, True) \<Rightarrow>
             map_option (DisposeByKey (deduce_change_kind x (d_inline_qos d) False rep_id)) (sp_from_bytes p)
         | (None, False, False) \<Rightarrow>
             (case (case d_inline_qos d of
                      None \<Rightarrow> None
                    | Some ps \<Rightarrow> (case iq_key_hash ps of Some kh \<Rightarrow> kh | None \<Rightarrow> None)) of
                Some kh \<Rightarrow> Some (DisposeByKeyHash (deduce_change_kind x (d_inline_qos d) False rep_id) kh)
              | None \<Rightarrow> None)
         | _ \<Rightarrow> None)"

definition make_cache_change ::
    "timestamp \<Rightarrow> dds_data \<Rightarrow> write_options \<Rightarrow> guid \<Rightarrow> seqnum \<Rightarrow> rtps_reader \<Rightarrow> topic_cache \<Rightarrow> topic_cache option" where
  "make_cache_change now dv wo g sn r tc =
     do { tc1 \<leftarrow> tc_add_change now now (cc_new g sn wo dv) tc;
          Some (if \<not> r_like_stateless r then
                  (case bm_get (matched_writers r) g of
                     Some wp \<Rightarrow> snd (mark_reliably_received_before g (all_ackable_before wp) tc1)
                   | None \<Rightarrow> tc1)
                else tc1) }"

definition store_and_notify ::
    "timestamp \<Rightarrow> dds_data \<Rightarrow> write_options \<Rightarrow> guid \<Rightarrow> seqnum \<Rightarrow> rtps_reader \<Rightarrow> topic_cache \<Rightarrow> reader_result" where
  "store_and_notify now dv wo g sn r tc =
     map_option (\<lambda>tc'. (r, tc', [RE_Notify])) (make_cache_change now dv wo g sn r tc)"

definition process_received_data ::
    "timestamp \<Rightarrow> dds_data \<Rightarrow> write_options \<Rightarrow> guid \<Rightarrow> seqnum \<Rightarrow> rtps_reader \<Rightarrow> topic_cache \<Rightarrow> reader_result" where
  "process_received_data now dv wo g sn r tc =
     (if \<not> r_like_stateless r then
        (case bm_get (matched_writers r) g of
           Some wp \<Rightarrow>
             if should_ignore_change wp sn \<and> r_entity_id r \<noteq> SPDP_BUILTIN_PARTICIPANT_READER then Some (r, tc, [])
             else store_and_notify now dv wo g sn
                    (r\<lparr>matched_writers := bm_insert g (received_changes_add wp sn now) (matched_writers r)\<rparr>) tc
         | None \<Rightarrow>
             if is_user_defined (entity_kind (guid_entity_id g)) then Some (r, tc, [])
             else store_and_notify now dv wo g sn r tc)
      else store_and_notify now dv wo g sn r tc)"

definition handle_data_msg ::
    "ext \<Rightarrow> timestamp \<Rightarrow> data_sm \<Rightarrow> u8 \<Rightarrow> message_receiver_state \<Rightarrow> rtps_reader \<Rightarrow> topic_cache \<Rightarrow> reader_result" where
  "handle_data_msg x now d flags mrs r tc =
     (let wo = received_write_options x (mrs_source_timestamp mrs) (d_inline_qos d) (cdr_representation_identifier x flags)
      in case data_to_dds_data x d flags of
           Some dv \<Rightarrow> process_received_data now dv wo (GUID (mrs_source_guid_prefix mrs) (d_writer_id d)) (d_writer_sn d) r tc
         | None \<Rightarrow> Some (r, tc, []))"

section \<open>Fragments\<close>

definition garbage_collect_fragments :: "timestamp \<Rightarrow> rtps_reader \<Rightarrow> rtps_reader" where
  "garbage_collect_fragments now r =
     (if ts_sub now (last_fragment_garbage_collect r) > MIN_FRAGMENT_GC_INTERVAL then
        let expire_before = ts_sub_dur now FRAGMENT_ASSEMBLY_TIMEOUT
        in r\<lparr>last_fragment_garbage_collect := now,
             fragment_assemblers := bm_map (\<lambda>_ fa. garbage_collect_before fa expire_before) (fragment_assemblers r)\<rparr>
      else r)"

definition fragment_assembler_mutable :: "rtps_reader \<Rightarrow> guid \<Rightarrow> u16 \<Rightarrow> fragment_assembler" where
  "fragment_assembler_mutable r g frag_size =
     (case bm_get (fragment_assemblers r) g of Some fa \<Rightarrow> fa | None \<Rightarrow> fa_new frag_size)"

definition lifespan_exceeded :: "timestamp \<Rightarrow> message_receiver_state \<Rightarrow> rtps_reader \<Rightarrow> bool" where
  "lifespan_exceeded now mrs r \<longleftrightarrow>
     (case (mrs_source_timestamp mrs, lifespan (r_qos_policy r)) of
        (Some ts, Some ls) \<Rightarrow> lifespan_duration ls < duration_since now ts
      | _ \<Rightarrow> False)"

definition handle_datafrag_msg ::
    "ext \<Rightarrow> timestamp \<Rightarrow> data_frag \<Rightarrow> u8 \<Rightarrow> message_receiver_state \<Rightarrow> rtps_reader \<Rightarrow> topic_cache \<Rightarrow> reader_result" where
  "handle_datafrag_msg x now d flags mrs r tc =
     (if lifespan_exceeded now mrs r then Some (r, tc, [])
      else
        let g = GUID (mrs_source_guid_prefix mrs) (df_writer_id d);
            wo = received_write_options x (mrs_source_timestamp mrs) (df_inline_qos d) (cdr_representation_identifier x flags)
        in do {
          (completed, fa) \<leftarrow> new_datafrag x now (fragment_assembler_mutable r g (fragment_size d)) d flags;
          let r1 = r\<lparr>fragment_assemblers := bm_insert g fa (fragment_assemblers r)\<rparr>
          in case completed of
               Some dv \<Rightarrow> process_received_data now dv wo g (df_writer_sn d) r1 tc
             | None \<Rightarrow> Some (garbage_collect_fragments now r1, tc, []) })"

definition reader_missing_frags_for :: "ext \<Rightarrow> rtps_reader \<Rightarrow> guid \<Rightarrow> seqnum \<Rightarrow> fragnum list" where
  "reader_missing_frags_for x r g sn =
     (case bm_get (fragment_assemblers r) g of None \<Rightarrow> [] | Some fa \<Rightarrow> missing_frags_for x fa sn)"

definition is_frag_partially_received :: "rtps_reader \<Rightarrow> guid \<Rightarrow> seqnum \<Rightarrow> bool" where
  "is_frag_partially_received r g sn =
     (case bm_get (fragment_assemblers r) g of None \<Rightarrow> False | Some fa \<Rightarrow> is_partially_received fa sn)"

section \<open>Replies\<close>

definition encode_and_send :: "ext \<Rightarrow> message \<Rightarrow> locator list \<Rightarrow> reader_effect" where
  "encode_and_send x m dst_locator_list = RE_Send (write_message x LittleEndian m) dst_locator_list"

definition send_acknack_to :: "ext \<Rightarrow> u8 \<Rightarrow> ack_nack \<Rightarrow> guid_prefix \<Rightarrow> locator list \<Rightarrow> rtps_reader \<Rightarrow> reader_effect" where
  "send_acknack_to x flags acknack info_dst dst r =
     (let m0 = message_new (header_new (guid_prefix (r_my_guid r)));
          m1 = add_submessage m0 (info_destination_create_submessage info_dst Flag_Endianness);
          m2 = add_submessage m1 (ack_nack_create_submessage acknack flags)
      in encode_and_send x m2 dst)"

definition send_nackfrags_to ::
    "ext \<Rightarrow> u8 \<Rightarrow> nack_frag list \<Rightarrow> guid_prefix \<Rightarrow> locator list \<Rightarrow> rtps_reader \<Rightarrow> reader_effect" where
  "send_nackfrags_to x flags nfs info_dst dst r =
     (let m0 = message_new (header_new (guid_prefix (r_my_guid r)));
          m1 = add_submessage m0 (info_destination_create_submessage info_dst Flag_Endianness);
          m2 = fold (\<lambda>nf m. add_submessage m (nack_frag_create_submessage nf flags)) nfs m1
      in encode_and_send x m2 dst)"

section \<open>Heartbeats\<close>

text \<open>The numbers of one ACKNACK window that are asked for whole, and those with some fragments.\<close>

definition acknack_window :: "seqnum list \<Rightarrow> seqnum list" where
  "acknack_window missing =
     (case missing of
        [] \<Rightarrow> []
      | first_missing # _ \<Rightarrow> takeWhile (\<lambda>sn. sn < sn_add first_missing (sn_new 256)) missing)"

definition acknack_state :: "rtps_reader \<Rightarrow> guid \<Rightarrow> seqnum list \<Rightarrow> rtps_writer_proxy \<Rightarrow> number_set option" where
  "acknack_state r g missing wp =
     (case missing of
        first_missing # _ \<Rightarrow>
          from_base_and_set SeqNum first_missing
            (bs_extend (filter (\<lambda>sn. \<not> is_frag_partially_received r g sn) (acknack_window missing)) bm_empty)
      | [] \<Rightarrow> Some (ns_new_empty (all_ackable_before wp)))"

text \<open>The loop over the partially received samples; each takes a count, also when nothing is missing.\<close>

fun nackfrags_loop ::
    "ext \<Rightarrow> rtps_reader \<Rightarrow> guid \<Rightarrow> seqnum list \<Rightarrow> rtps_writer_proxy \<Rightarrow> (nack_frag list \<times> rtps_writer_proxy) option" where
  "nackfrags_loop x r g [] wp = Some ([], wp)"
| "nackfrags_loop x r g (sn # sns) wp =
     (let (cnt, wp1) = next_ack_nack_sequence_number wp
      in case reader_missing_frags_for x r g sn of
           [] \<Rightarrow> nackfrags_loop x r g sns wp1
         | first # rest \<Rightarrow>
             do { st \<leftarrow> from_base_and_set FragNum first (bs_extend (first # rest) bm_empty);
                  (nfs, wp2) \<leftarrow> nackfrags_loop x r g sns wp1;
                  Some (\<lparr>nf_reader_id = r_entity_id r, nf_writer_id = guid_entity_id (remote_writer_guid wp1),
                         nf_writer_sn = sn, fragment_number_state = st, nf_count = cnt\<rparr> # nfs, wp2) })"

definition reply_locators :: "message_receiver_state \<Rightarrow> rtps_writer_proxy \<Rightarrow> locator list" where
  "reply_locators mrs wp =
     (if mrs_unicast_reply_locator_list mrs = [] \<or> mrs_unicast_reply_locator_list mrs = [Locator_Invalid]
      then wp_unicast_locator_list wp else mrs_unicast_reply_locator_list mrs)"

text \<open>The reply to a heartbeat: fragment requests first, then the ACKNACK.\<close>

definition send_heartbeat_reply ::
    "ext \<Rightarrow> heartbeat \<Rightarrow> guid \<Rightarrow> locator list \<Rightarrow> seqnum list \<Rightarrow> rtps_reader \<Rightarrow> rtps_writer_proxy
      \<Rightarrow> (rtps_writer_proxy \<times> reader_effect list) option" where
  "send_heartbeat_reply x hb g dst missing r wp =
     do { st \<leftarrow> acknack_state r g missing wp;
          let (cnt, wp1) = next_ack_nack_sequence_number wp;
              response = \<lparr>an_reader_id = r_entity_id r, an_writer_id = hb_writer_id hb, reader_sn_state = st, an_count = cnt\<rparr>
          in do {
            (nfs, wp2) \<leftarrow> nackfrags_loop x r g (filter (is_frag_partially_received r g) (acknack_window missing)) wp1;
            Some (wp2,
              (if nfs = [] then [] else [send_nackfrags_to x Flag_Endianness nfs (guid_prefix g) dst r])
              @ [send_acknack_to x (flags_union x Flag_Endianness ACKNACK_Final) response (guid_prefix g) dst r]) } }"

text \<open>The worker on the writer proxy, which has been taken out of the reader.\<close>

definition heartbeat_worker ::
    "ext \<Rightarrow> heartbeat \<Rightarrow> bool \<Rightarrow> guid \<Rightarrow> message_receiver_state \<Rightarrow> rtps_reader \<Rightarrow> topic_cache \<Rightarrow> rtps_writer_proxy
      \<Rightarrow> (bool \<times> rtps_writer_proxy \<times> topic_cache \<times> reader_effect list) option" where
  "heartbeat_worker x hb final g mrs r tc wp =
     (let dst = reply_locators mrs wp
      in if hb_count hb \<le> received_heartbeat_count wp then Some (False, wp, tc, [])
         else do {
           wp1 \<leftarrow> irrelevant_changes_up_to (wp\<lparr>received_heartbeat_count := hb_count hb\<rparr>) (first_sn hb);
           let (moved, tc1) = mark_reliably_received_before g (all_ackable_before wp1) tc;
               es1 = (if moved then [RE_Notify] else [])
           in do {
             missing \<leftarrow> missing_seqnums wp1 (first_sn hb) (last_sn hb);
             if missing \<noteq> [] \<or> \<not> final then
               do { (wp2, es2) \<leftarrow> send_heartbeat_reply x hb g dst missing r wp1;
                    Some (True, wp2, tc1, es1 @ es2) }
             else Some (False, wp1, tc1, es1) } })"

definition handle_heartbeat_msg ::
    "ext \<Rightarrow> heartbeat \<Rightarrow> bool \<Rightarrow> message_receiver_state \<Rightarrow> rtps_reader \<Rightarrow> topic_cache
      \<Rightarrow> (bool \<times> rtps_reader \<times> topic_cache \<times> reader_effect list) option" where
  "handle_heartbeat_msg x hb final mrs r tc =
     (let g = GUID (mrs_source_guid_prefix mrs) (hb_writer_id hb)
      in if r_reliability r = BestEffort \<or> r_like_stateless r then Some (False, r, tc, [])
         else case bm_get (matched_writers r) g of
                None \<Rightarrow> Some (False, r, tc, [])
              | Some wp \<Rightarrow>
                  let r0 = r\<lparr>matched_writers := bm_remove g (matched_writers r)\<rparr>
                  in do { (res, wp', tc', es) \<leftarrow> heartbeat_worker x hb final g mrs r0 tc wp;
                          Some (res, r0\<lparr>matched_writers := bm_insert g wp' (matched_writers r0)\<rparr>, tc', es) })"

section \<open>Gaps and pre-emptive acknowledgements\<close>

definition gap_proxy :: "gap \<Rightarrow> rtps_writer_proxy \<Rightarrow> rtps_writer_proxy option" where
  "gap_proxy gp wp =
     do { wp1 \<leftarrow> irrelevant_changes_range wp (gap_start gp) (bitmap_base (gap_list gp));
          sns \<leftarrow> ns_elems SeqNum (gap_list gp);
          Some (fold (\<lambda>sn w. set_irrelevant_change w sn) sns wp1) }"

definition handle_gap_msg :: "gap \<Rightarrow> message_receiver_state \<Rightarrow> rtps_reader \<Rightarrow> topic_cache \<Rightarrow> reader_result" where
  "handle_gap_msg gp mrs r tc =
     (let g = GUID (mrs_source_guid_prefix mrs) (gap_writer_id gp)
      in if r_like_stateless r then Some (r, tc, [])
         else case bm_get (matched_writers r) g of
                None \<Rightarrow> Some (r, tc, [])
              | Some wp \<Rightarrow>
                  if gap_start gp \<le> sn_new 0 \<or> bitmap_base (gap_list gp) \<le> sn_new 0 then Some (r, tc, [])
                  else do {
                    wp' \<leftarrow> gap_proxy gp wp;
                    let (moved, tc1) = mark_reliably_received_before g (all_ackable_before wp') tc
                    in Some (r\<lparr>matched_writers := bm_insert g wp' (matched_writers r)\<rparr>, tc1,
                             if moved then [RE_Notify] else []) })"

definition handle_heartbeatfrag_msg ::
    "heartbeat_frag \<Rightarrow> message_receiver_state \<Rightarrow> rtps_reader \<Rightarrow> topic_cache \<Rightarrow> reader_result" where
  "handle_heartbeatfrag_msg hbf mrs r tc = Some (r, tc, [])"

fun preemptive_loop ::
    "ext \<Rightarrow> rtps_reader \<Rightarrow> guid list \<Rightarrow> (guid, rtps_writer_proxy) btree_map
      \<Rightarrow> (guid, rtps_writer_proxy) btree_map \<times> reader_effect list" where
  "preemptive_loop x r [] m = (m, [])"
| "preemptive_loop x r (g # gs) m =
     (case bm_get m g of
        Some wp \<Rightarrow>
          if no_changes_received wp then
            let (cnt, wp1) = next_ack_nack_sequence_number wp;
                wg = remote_writer_guid wp1;
                e = send_acknack_to x Flag_Endianness
                      \<lparr>an_reader_id = r_entity_id r, an_writer_id = guid_entity_id wg,
                       reader_sn_state = ns_new_empty (sn_new 1), an_count = cnt\<rparr>
                      (guid_prefix wg) (wp_unicast_locator_list wp1) r;
                (m', es) = preemptive_loop x r gs (bm_insert g wp1 m)
            in (m', e # es)
          else preemptive_loop x r gs m
      | None \<Rightarrow> preemptive_loop x r gs m)"

definition send_preemptive_acknacks :: "ext \<Rightarrow> rtps_reader \<Rightarrow> rtps_reader \<times> reader_effect list" where
  "send_preemptive_acknacks x r =
     (if r_like_stateless r then (r, [])
      else let (m, es) = preemptive_loop x r (bm_keys (matched_writers r)) (matched_writers r)
           in (r\<lparr>matched_writers := m\<rparr>, es))"

end
