(* ===== verification/Reader_Correct.thy ===== *)
theory Reader_Correct
  imports Reader
begin

text \<open>
  Correctness of the RTPS reader. The invariant ties the reader, its topic cache and a ghost set
  \<open>told\<close>: the numbers of each writer that some submessage delivered or declared irrelevant. Every
  event a reader handles keeps it and never panics, as long as the clock does not step back,
  fragments are fragments of samples and numbers stay below the largest \<open>i64\<close>.

  Consequences: reliable delivery has no holes, the reply to a heartbeat acknowledges only what the
  reader knows and asks for exactly what it lacks. Limits that the code leaves open are shown, too.
\<close>

section \<open>The clock\<close>

lemma ts_sub_secs_mono:
  assumes "Timestamp 5 0 \<le> a" and "a \<le> b"
  shows "ts_sub_dur a (dur_from_secs 5) \<le> ts_sub_dur b (dur_from_secs 5)"
proof -
  have le_ticks: "s \<le> t \<longleftrightarrow> uint (ts_to_ticks s) \<le> uint (ts_to_ticks t)" for s t
    using ts_less_ticks [of t s] by (simp add: not_less [symmetric])
  have top: "t \<le> Timestamp_INVALID" for t
    unfolding le_ticks using word32_bounds [of "ts_seconds t"] word32_bounds [of "ts_fraction t"]
    by (simp add: uint_ts_to_ticks Timestamp_INVALID_def)
  have five: "uint (dur_to_ticks (dur_from_secs 5)) = 5 * 2 ^ 32" "uint (ts_to_ticks (Timestamp 5 0)) = 5 * 2 ^ 32"
    by code_simp+
  have sub: "uint (ts_to_ticks t - dur_to_ticks (dur_from_secs 5)) = uint (ts_to_ticks t) - 5 * 2 ^ 32" if "Timestamp 5 0 \<le> t" for t
    using that uint_sub_lem [of "dur_to_ticks (dur_from_secs 5)" "ts_to_ticks t"] unfolding le_ticks five by simp
  show ?thesis
  proof (cases "b = Timestamp_INVALID")
    case False
    then have "a \<noteq> Timestamp_INVALID"
      using top [of b] assms(2) by auto
    moreover have "Timestamp 5 0 \<le> b" using assms by simp
    ultimately show ?thesis
      using False assms by (simp add: ts_sub_dur_def le_ticks sub)
  qed (simp add: ts_sub_dur_def top)
qed

section \<open>The invariant\<close>

text \<open>
  A reader's knowledge of one writer is sound. When the topic cache has this \<open>sole\<close> reader, the marker
  of the cache is not behind the acknowledgement base.
\<close>

definition proxy_ok :: "bool \<Rightarrow> (guid \<times> seqnum) set \<Rightarrow> topic_cache \<Rightarrow> guid \<Rightarrow> rtps_writer_proxy \<Rightarrow> bool" where
  "proxy_ok sole told tc g wp \<longleftrightarrow> wp_inv wp \<and> 1 \<le> ack_base wp \<and> remote_writer_guid wp = g
     \<and> (sole \<longrightarrow> ack_base wp \<le> reliable_before tc g) \<and> (\<forall>y. 1 \<le> y \<and> wp_known wp y \<longrightarrow> (g, y) \<in> told)"

definition markers_ok :: "(guid \<times> seqnum) set \<Rightarrow> topic_cache \<Rightarrow> bool" where
  "markers_ok told tc \<longleftrightarrow> (\<forall>g. 1 \<le> reliable_before tc g \<and> (\<forall>y. 1 \<le> y \<and> y < reliable_before tc g \<longrightarrow> (g, y) \<in> told))"

text \<open>
  The samples that remote writers fragment: the fragment size of each writer and the bytes of each
  sample, short enough that fragment numbers stay in range.
\<close>

record sent_samples =
  frag_size_of :: "guid \<Rightarrow> u16"
  bytes_of :: "guid \<Rightarrow> seqnum \<Rightarrow> bytes"

definition samples_ok :: "sent_samples \<Rightarrow> bool" where
  "samples_ok S \<longleftrightarrow> (\<forall>g sn. length (bytes_of S g sn) < 2 ^ 32 - 1)"

definition assemblers_ok :: "sent_samples \<Rightarrow> rtps_reader \<Rightarrow> bool" where
  "assemblers_ok S r \<longleftrightarrow> (\<forall>g fa. bm_get (fragment_assemblers r) g = Some fa \<longrightarrow>
     0 < frag_size_of S g \<and> (\<exists>arrived. fa_rel (frag_size_of S g) (bytes_of S g) fa arrived))"

definition clock_ok :: "timestamp \<Rightarrow> topic_cache \<Rightarrow> bool" where
  "clock_ok now tc \<longleftrightarrow> Timestamp 5 0 \<le> now \<and> gc_clock_ok now tc"

definition reader_inv :: "bool \<Rightarrow> sent_samples \<Rightarrow> (guid \<times> seqnum) set \<Rightarrow> timestamp \<Rightarrow> rtps_reader \<Rightarrow> topic_cache \<Rightarrow> bool" where
  "reader_inv sole S told now r tc \<longleftrightarrow> tc_inv tc \<and> clock_ok now tc \<and> markers_ok told tc \<and> assemblers_ok S r
     \<and> (\<forall>g wp. bm_get (matched_writers r) g = Some wp \<longrightarrow> proxy_ok sole told tc g wp)"

lemma reader_invD:
  assumes "reader_inv sole S told now r tc"
  shows "tc_inv tc" "clock_ok now tc" "markers_ok told tc" "assemblers_ok S r"
    "bm_get (matched_writers r) g = Some wp \<Longrightarrow> proxy_ok sole told tc g wp"
  using assms by (simp_all add: reader_inv_def)

lemma reader_inv_other:
  assumes "reader_inv sole S told now r tc" and "matched_writers r' = matched_writers r"
    and "fragment_assemblers r' = fragment_assemblers r"
  shows "reader_inv sole S told now r' tc"
  using assms by (simp add: reader_inv_def assemblers_ok_def)

lemma reader_inv_later:
  assumes "reader_inv sole S told now r tc" and "now \<le> now'"
  shows "reader_inv sole S told now' r tc"
  using assms ts_sub_secs_mono [of now now']
  by (auto simp: reader_inv_def clock_ok_def gc_clock_ok_def elim: order_trans)

lemma reader_inv_told:
  assumes "reader_inv sole S told now r tc" and "told \<subseteq> told'"
  shows "reader_inv sole S told' now r tc"
  using assms by (fastforce simp: reader_inv_def markers_ok_def proxy_ok_def)

lemma reader_inv_remove:
  assumes "reader_inv sole S told now r tc"
  shows "reader_inv sole S told now (r\<lparr>matched_writers := bm_remove g (matched_writers r)\<rparr>) tc"
  using assms by (auto simp: reader_inv_def assemblers_ok_def split: if_splits)

lemma reliable_before_mark [simp]:
  "reliable_before (snd (mark_reliably_received_before g sn tc)) h = (if h = g then sn else reliable_before tc h)"
  by (simp add: reliable_before_def mark_reliably_received_before_def Let_def)

lemma tc_inv_mark [simp]:
  "tc_inv (snd (mark_reliably_received_before g sn tc)) \<longleftrightarrow> tc_inv tc"
  "gc_clock_ok now (snd (mark_reliably_received_before g sn tc)) \<longleftrightarrow> gc_clock_ok now tc"
  by (simp_all add: mark_reliably_received_before_def tc_inv_def tc_get_change_def gc_clock_ok_def Let_def)

text \<open>A proxy is replaced by one that knows more, and the marker follows it.\<close>

lemma reader_inv_advance:
  assumes inv: "reader_inv sole S told now r tc" and wp: "wp_inv wp" "1 \<le> ack_base wp" "remote_writer_guid wp = g"
    and known: "\<forall>y. 1 \<le> y \<and> wp_known wp y \<longrightarrow> (g, y) \<in> told"
  shows "reader_inv sole S told now (r\<lparr>matched_writers := bm_insert g wp (matched_writers r)\<rparr>)
    (snd (mark_reliably_received_before g (ack_base wp) tc))"
proof -
  have "(g, y) \<in> told" if "1 \<le> y" "y < ack_base wp" for y
    using known that by (simp add: wp_known_def)
  then show ?thesis
    using inv wp known
    by (simp add: reader_inv_def assemblers_ok_def clock_ok_def markers_ok_def proxy_ok_def)
qed

text \<open>A proxy is replaced by one that knows the same.\<close>

lemma reader_inv_same:
  assumes inv: "reader_inv sole S told now r tc" and wp: "proxy_ok sole told tc g wp"
    and "changes wp' = changes wp" "ack_base wp' = ack_base wp" "remote_writer_guid wp' = remote_writer_guid wp"
  shows "reader_inv sole S told now (r\<lparr>matched_writers := bm_insert g wp' (matched_writers r)\<rparr>) tc"
  using assms by (simp add: reader_inv_def assemblers_ok_def proxy_ok_def wp_inv_def wp_known_def)

lemma reader_inv_cache:
  assumes "reader_inv sole S told now r tc" and "tc_inv tc'" "gc_clock_ok now tc'"
    and "received_reliably_before tc' = received_reliably_before tc"
  shows "reader_inv sole S told now r tc'"
  using assms by (simp add: reader_inv_def clock_ok_def markers_ok_def proxy_ok_def reliable_before_def)

section \<open>Received data\<close>

lemma make_cache_change_spec:
  assumes tc: "tc_inv tc" "gc_clock_ok now tc"
  obtains tc1 where "tc_inv tc1" "gc_clock_ok now tc1" "received_reliably_before tc1 = received_reliably_before tc"
    "tc_index tc1 g sn \<noteq> None"
    "make_cache_change now dv wo g sn r tc =
       Some (if r_like_stateless r then tc1
             else case bm_get (matched_writers r) g of
                    Some wp \<Rightarrow> snd (mark_reliably_received_before g (ack_base wp) tc1) | None \<Rightarrow> tc1)"
proof -
  obtain tc1 where tc1: "tc_add_change now now (cc_new g sn wo dv) tc = Some tc1" "tc_inv tc1"
      "received_reliably_before tc1 = received_reliably_before tc" "tc_index tc1 g sn \<noteq> None"
      "changes_reallocated_up_to tc1 = changes_reallocated_up_to tc \<or> changes_reallocated_up_to tc1 = ts_sub_dur now (dur_from_secs 5)"
    using tc_add_change_spec [OF tc, of now "cc_new g sn wo dv"] by (metis cc_new_sel)
  have "gc_clock_ok now tc1"
    using tc1(5) tc(2) by (auto simp: gc_clock_ok_def)
  then show thesis
    using tc1 by (intro that [of tc1]) (auto simp: make_cache_change_def all_ackable_before_def cong: option.case_cong)
qed

text \<open>The handler returns and the invariant holds afterwards.\<close>

definition keeps :: "bool \<Rightarrow> sent_samples \<Rightarrow> (guid \<times> seqnum) set \<Rightarrow> timestamp \<Rightarrow> reader_result \<Rightarrow> bool" where
  "keeps sole S told now res \<longleftrightarrow> (\<exists>r tc es. res = Some (r, tc, es) \<and> reader_inv sole S told now r tc)"

lemma keepsI [intro]: "reader_inv sole S told now r tc \<Longrightarrow> keeps sole S told now (Some (r, tc, es))"
  by (simp add: keeps_def)

lemma store_unmatched_ok:
  assumes "reader_inv sole S told now r tc" and "r_like_stateless r \<or> bm_get (matched_writers r) g = None"
  shows "keeps sole S told now (store_and_notify now dv wo g sn r tc)"
proof -
  have clock: "tc_inv tc" "gc_clock_ok now tc"
    using reader_invD(1,2) [OF assms(1)] by (simp_all add: clock_ok_def)
  obtain tc1 where "tc_inv tc1" "gc_clock_ok now tc1" "received_reliably_before tc1 = received_reliably_before tc"
      "tc_index tc1 g sn \<noteq> None"
      "make_cache_change now dv wo g sn r tc = Some (if r_like_stateless r then tc1
         else case bm_get (matched_writers r) g of
                Some wp \<Rightarrow> snd (mark_reliably_received_before g (ack_base wp) tc1) | None \<Rightarrow> tc1)"
    by (rule make_cache_change_spec [OF clock])
  with assms(2) have "make_cache_change now dv wo g sn r tc = Some tc1" "tc_inv tc1" "gc_clock_ok now tc1"
      "received_reliably_before tc1 = received_reliably_before tc"
    by auto
  then show ?thesis
    using reader_inv_cache [OF assms(1), of tc1] by (auto simp: store_and_notify_def)
qed

lemma store_matched_ok:
  assumes inv: "reader_inv sole S told now r tc" and "\<not> r_like_stateless r" and wp: "bm_get (matched_writers r) g = Some wp"
    and sn: "in_i64 sn" "sn < i64_max" and told: "(g, sn) \<in> told"
  shows "keeps sole S told now (store_and_notify now dv wo g sn
    (r\<lparr>matched_writers := bm_insert g (received_changes_add wp sn now) (matched_writers r)\<rparr>) tc)"
proof -
  let ?wp = "received_changes_add wp sn now"
  let ?r = "r\<lparr>matched_writers := bm_insert g ?wp (matched_writers r)\<rparr>"
  have ok: "proxy_ok sole told tc g wp" by (rule reader_invD(5) [OF inv wp])
  then have wp': "wp_inv ?wp" "wp_known ?wp = (\<lambda>y. wp_known wp y \<or> y = sn)" "ack_base wp \<le> ack_base ?wp"
    using received_changes_add_spec [of wp sn now] sn by (simp_all add: proxy_ok_def)
  have guid: "remote_writer_guid ?wp = remote_writer_guid wp"
    by (simp add: received_changes_add_def advance_ack_base_def Let_def)
  have clock: "tc_inv tc" "gc_clock_ok now tc"
    using reader_invD(1,2) [OF inv] by (simp_all add: clock_ok_def)
  obtain tc1 where tc1: "tc_inv tc1" "gc_clock_ok now tc1" "received_reliably_before tc1 = received_reliably_before tc"
      "tc_index tc1 g sn \<noteq> None"
      "make_cache_change now dv wo g sn ?r tc = Some (if r_like_stateless ?r then tc1
         else case bm_get (matched_writers ?r) g of
                Some wp \<Rightarrow> snd (mark_reliably_received_before g (ack_base wp) tc1) | None \<Rightarrow> tc1)"
    by (rule make_cache_change_spec [OF clock])
  have "reader_inv sole S told now r tc1"
    using tc1(1-3) by (rule reader_inv_cache [OF inv])
  then have "reader_inv sole S told now ?r (snd (mark_reliably_received_before g (ack_base ?wp) tc1))"
    using wp' ok told guid by (intro reader_inv_advance) (auto simp: proxy_ok_def)
  moreover have "store_and_notify now dv wo g sn ?r tc =
      Some (?r, snd (mark_reliably_received_before g (ack_base ?wp) tc1), [RE_Notify])"
    using assms(2) by (simp add: store_and_notify_def tc1(5))
  ultimately show ?thesis by (simp add: keepsI)
qed

lemma process_received_data_ok:
  assumes "reader_inv sole S told now r tc" and "in_i64 sn" "sn < i64_max" and "(g, sn) \<in> told"
  shows "keeps sole S told now (process_received_data now dv wo g sn r tc)"
  using assms store_unmatched_ok [OF assms(1)] store_matched_ok [OF assms(1) _ _ assms(2-4)]
  by (auto simp: process_received_data_def split: option.splits)

section \<open>Fragments\<close>

lemma fa_rel_gc:
  assumes "fa_rel fs samples fa arrived"
  shows "\<exists>arrived'. fa_rel fs samples (garbage_collect_before fa t) arrived'"
proof (intro exI)
  let ?B = "assembly_buffers (garbage_collect_before fa t)"
  have sub: "bm_get ?B sn = Some ab \<Longrightarrow> bm_get (assembly_buffers fa) sn = Some ab" for sn ab
    by (auto simp: garbage_collect_before_def get_retain split: option.splits if_splits)
  show "fa_rel fs samples (garbage_collect_before fa t) (\<lambda>sn. if bm_get ?B sn = None then {} else arrived sn)"
    unfolding fa_rel_def
  proof (intro conjI allI)
    fix sn
    show "case bm_get ?B sn of None \<Rightarrow> (if bm_get ?B sn = None then {} else arrived sn) = {}
      | Some ab \<Rightarrow> ab_holds (unat fs) (samples sn) (if bm_get ?B sn = None then {} else arrived sn) ab
          \<and> (if bm_get ?B sn = None then {} else arrived sn) \<noteq> {}
          \<and> (if bm_get ?B sn = None then {} else arrived sn) \<noteq> {..<nfrags (unat fs) (length (samples sn))}"
      using fa_relD [OF assms, of sn] sub [of sn] by (cases "bm_get ?B sn") simp_all
  qed (use assms in \<open>simp add: fa_rel_def garbage_collect_before_def\<close>)
qed

lemma assemblers_ok_gc: "assemblers_ok S r \<Longrightarrow> assemblers_ok S (garbage_collect_fragments now r)"
  unfolding assemblers_ok_def garbage_collect_fragments_def
  by (auto simp: Let_def intro: fa_rel_gc)

lemma reader_inv_assemblers:
  assumes "reader_inv sole S told now r tc" and "assemblers_ok S r'" and "matched_writers r' = matched_writers r"
  shows "reader_inv sole S told now r' tc"
  using assms by (simp add: reader_inv_def)

lemma handle_datafrag_msg_ok:
  assumes x: "ext_ok x" and inv: "reader_inv sole S told now r tc"
    and frag: "frag_of_sample (frag_size_of S g) (bytes_of S g (df_writer_sn d)) d"
    and g: "g = GUID (mrs_source_guid_prefix mrs) (df_writer_id d)"
    and sn: "in_i64 (df_writer_sn d)" "df_writer_sn d < i64_max"
    and told: "\<And>dv fa. new_datafrag x now (fragment_assembler_mutable r g (fragment_size d)) d flags = Some (Some dv, fa)
      \<Longrightarrow> (g, df_writer_sn d) \<in> told"
  shows "keeps sole S told now (handle_datafrag_msg x now d flags mrs r tc)"
proof -
  let ?fa = "fragment_assembler_mutable r g (fragment_size d)"
  have fs: "fragment_size d = frag_size_of S g" "0 < frag_size_of S g"
    using frag by (simp_all add: frag_of_sample_def)
  obtain arrived where "fa_rel (frag_size_of S g) (bytes_of S g) ?fa arrived"
    using reader_invD(4) [OF inv] fa_rel_new [of "frag_size_of S g" "bytes_of S g"] fs
    by (cases "bm_get (fragment_assemblers r) g") (auto simp: fragment_assembler_mutable_def assemblers_ok_def)
  from fa_simulates [OF this, of x "(now, d, flags)"] x frag obtain completed fa arrived' where
    fa: "new_datafrag x now ?fa d flags = Some (completed, fa)" "fa_rel (frag_size_of S g) (bytes_of S g) fa arrived'"
    by auto
  let ?r = "r\<lparr>fragment_assemblers := bm_insert g fa (fragment_assemblers r)\<rparr>"
  have r: "assemblers_ok S ?r"
    using reader_invD(4) [OF inv] fa(2) fs(2) by (auto simp: assemblers_ok_def)
  have inv': "reader_inv sole S told now ?r tc" "reader_inv sole S told now (garbage_collect_fragments now ?r) tc"
    using r assemblers_ok_gc [OF r, of now]
    by (auto intro!: reader_inv_assemblers [OF inv] simp: garbage_collect_fragments_def Let_def)
  show ?thesis
  proof (cases completed)
    case None
    then show ?thesis
      using inv inv'(2) by (auto simp: handle_datafrag_msg_def Let_def fa(1) simp flip: g)
  next
    case (Some dv)
    then show ?thesis
      using inv process_received_data_ok [OF inv'(1) sn, of g] told [of dv fa] fa(1)
      by (auto simp: handle_datafrag_msg_def Let_def simp flip: g)
  qed
qed

section \<open>Heartbeats and gaps\<close>

lemma missing_frags_ok:
  assumes x: "ext_ok x" and S: "samples_ok S" and r: "assemblers_ok S r" and f: "f \<in> set (reader_missing_frags_for x r g sn)"
  shows "1 \<le> f" "in_u32 (f + 1)"
proof -
  obtain fa where get: "bm_get (fragment_assemblers r) g = Some fa" and "f \<in> set (missing_frags_for x fa sn)"
    using f by (cases "bm_get (fragment_assemblers r) g") (auto simp: reader_missing_frags_for_def)
  moreover obtain arrived where "0 < unat (frag_size_of S g)" "fa_rel (frag_size_of S g) (bytes_of S g) fa arrived"
    using r get unfolding assemblers_ok_def word_less_nat_alt by fastforce
  ultimately have fa: "bm_get (fragment_assemblers r) g = Some fa" "f \<in> set (missing_frags_for x fa sn)"
      "0 < unat (frag_size_of S g)" "fa_rel (frag_size_of S g) (bytes_of S g) fa arrived"
    by simp_all
  have "arrived sn \<noteq> {}"
    using fa(2) fa_relD [OF fa(4), of sn] by (auto simp: missing_frags_for_def split: option.splits)
  then obtain i where "f = int i + 1" "i < nfrags (unat (frag_size_of S g)) (length (bytes_of S g sn))"
    using fa(2) missing_frags_rel [OF x fa(4)] by auto
  moreover have "nfrags (unat (frag_size_of S g)) (length (bytes_of S g sn)) < 2 ^ 32 - 1"
    using nfrags_le [OF fa(3), of "length (bytes_of S g sn)"] S by (meson le_less_trans samples_ok_def)
  ultimately show "1 \<le> f" "in_u32 (f + 1)" by (auto simp: in_u32_def)
qed

lemma missing_frags_sorted: "sorted_wrt (<) (reader_missing_frags_for x r g sn)"
  unfolding reader_missing_frags_for_def missing_frags_for_def
  by (auto split: option.splits simp: sorted_wrt_map sorted_wrt_filter)

text \<open>The request for fragments that the code makes for one sample.\<close>

definition nackfrag_for :: "ext \<Rightarrow> rtps_reader \<Rightarrow> guid \<Rightarrow> nack_frag \<Rightarrow> bool" where
  "nackfrag_for x r g nf \<longleftrightarrow> nf_reader_id nf = r_entity_id r \<and> nf_writer_id nf = guid_entity_id g
     \<and> ns_wf (fragment_number_state nf)
     \<and> ns_elems FragNum (fragment_number_state nf) =
         Some (filter (\<lambda>f. f < bitmap_base (fragment_number_state nf) + 256) (reader_missing_frags_for x r g (nf_writer_sn nf)))
     \<and> bitmap_base (fragment_number_state nf) = hd (reader_missing_frags_for x r g (nf_writer_sn nf))"

lemma bs_iter_extend_sorted:
  assumes "sorted_wrt (<) xs"
  shows "bs_iter (bs_extend xs bm_empty) = xs"
proof (rule sorted_distinct_set_unique)
  show "sorted (bs_iter (bs_extend xs bm_empty))" "distinct (bs_iter (bs_extend xs bm_empty))"
    using keys_sorted [of "bs_extend xs bm_empty"] by (simp_all add: strict_sorted_iff)
qed (use assms in \<open>auto simp: strict_sorted_iff\<close>)

lemma nackfrags_loop_spec:
  assumes x: "ext_ok x" and S: "samples_ok S" and r: "assemblers_ok S r" and g: "remote_writer_guid wp = g"
  shows "\<exists>nfs c. nackfrags_loop x r g sns wp = Some (nfs, wp\<lparr>sent_ack_nack_count := c\<rparr>)
    \<and> (\<forall>nf \<in> set nfs. nackfrag_for x r g nf)
    \<and> map nf_writer_sn nfs = filter (\<lambda>sn. reader_missing_frags_for x r g sn \<noteq> []) sns"
  using g
proof (induction sns arbitrary: wp)
  case Nil
  show ?case by (rule exI [of _ "[]"], rule exI [of _ "sent_ack_nack_count wp"]) simp
next
  case (Cons sn sns)
  let ?wp = "snd (next_ack_nack_sequence_number wp)"
  have wp1: "?wp = wp\<lparr>sent_ack_nack_count := wrap_i32 (sent_ack_nack_count wp + 1)\<rparr>"
    by (simp add: next_ack_nack_sequence_number_def)
  with Cons.prems have "remote_writer_guid ?wp = g" by simp
  from Cons.IH [OF this] obtain nfs c where rest: "nackfrags_loop x r g sns ?wp = Some (nfs, wp\<lparr>sent_ack_nack_count := c\<rparr>)"
      "\<forall>nf \<in> set nfs. nackfrag_for x r g nf" "map nf_writer_sn nfs = filter (\<lambda>sn. reader_missing_frags_for x r g sn \<noteq> []) sns"
    by (auto simp: wp1)
  show ?case
  proof (cases "reader_missing_frags_for x r g sn")
    case Nil
    then show ?thesis
      using rest by (auto simp: next_ack_nack_sequence_number_def)
  next
    case (Cons f fs)
    have sorted: "sorted_wrt (<) (f # fs)"
      using missing_frags_sorted [of x r g sn] Cons by simp
    have iter: "bs_iter (bs_extend (f # fs) bm_empty) = f # fs"
      using sorted by (rule bs_iter_extend_sorted)
    have in_range: "1 \<le> h" "in_u32 (h + 1)" if "h \<in> set (f # fs)" for h
      using missing_frags_ok [OF x S r, of h g sn] that Cons by auto
    have "1 \<le> f" "num_in FragNum f"
      using in_range [of f] by (auto simp: in_u32_def)
    moreover have "\<forall>h \<in> set (f # fs). f \<le> h \<and> num_in FragNum (h + 1)"
      using sorted in_range(2) by auto
    ultimately have "\<forall>h \<in> set (f # fs). f \<le> h \<and> num_in FragNum (h + 1)" "1 \<le> f" "num_in FragNum f"
      by simp_all
    then obtain st where st: "from_base_and_set FragNum f (bs_extend (f # fs) bm_empty) = Some st" "ns_wf st"
        "bitmap_base st = f" "ns_elems FragNum st = Some (filter (\<lambda>h. h < f + 256) (f # fs))"
      using from_base_and_set_spec [of f FragNum "bs_extend (f # fs) bm_empty"] unfolding iter by blast
    let ?nf = "\<lparr>nf_reader_id = r_entity_id r, nf_writer_id = guid_entity_id (remote_writer_guid ?wp),
        nf_writer_sn = sn, fragment_number_state = st, nf_count = sent_ack_nack_count wp\<rparr>"
    have "nackfrags_loop x r g (sn # sns) wp = Some (?nf # nfs, wp\<lparr>sent_ack_nack_count := c\<rparr>)"
      using st(1) rest(1) Cons by (simp add: next_ack_nack_sequence_number_def)
    moreover have "nackfrag_for x r g ?nf"
      using st Cons Cons.prems by (simp add: nackfrag_for_def wp1)
    ultimately show ?thesis
      using rest(2,3) Cons by auto
  qed
qed

text \<open>
  What an ACKNACK claims of a proxy: everything before its base is known, and it asks for exactly the
  missing numbers of its window that are not arriving in fragments.
\<close>

definition acknack_for :: "rtps_reader \<Rightarrow> guid \<Rightarrow> seqnum \<Rightarrow> rtps_writer_proxy \<Rightarrow> number_set \<Rightarrow> bool" where
  "acknack_for r g l wp st \<longleftrightarrow> ns_wf st \<and> 1 \<le> bitmap_base st \<and> in_i64 (bitmap_base st)
     \<and> (\<forall>y < bitmap_base st. wp_known wp y)
     \<and> ns_elems SeqNum st = Some (filter (\<lambda>y. \<not> wp_known wp y \<and> \<not> is_frag_partially_received r g y)
         [bitmap_base st..min l (bitmap_base st + 255)])"

lemma takeWhile_upto_filter: "takeWhile (\<lambda>y. y < c) (filter P [a..b]) = filter P [a..min b (c - 1)]" for a b c :: int
proof (induction a b rule: upto.induct)
  case (1 i j)
  show ?case
  proof (cases "i \<le> j")
    case True
    show ?thesis
    proof (cases "i < c")
      case less: True
      then have "[i..min j (c - 1)] = i # [i + 1..min j (c - 1)]"
        using True by (intro upto_rec1) simp
      then show ?thesis
        using 1 True less by (simp add: upto_rec1)
    next
      case ge: False
      then have "\<forall>y \<in> set (filter P [i..j]). \<not> y < c" by auto
      then have "takeWhile (\<lambda>y. y < c) (filter P [i..j]) = []"
        by (cases "filter P [i..j]") auto
      with ge show ?thesis by simp
    qed
  qed simp
qed

lemma acknack_state_spec:
  assumes inv: "wp_inv wp" "1 \<le> ack_base wp" and l: "l < i64_max - 256"
    and missing: "missing = filter (\<lambda>y. \<not> wp_known wp y) [f..l]" and before: "\<forall>y < f. wp_known wp y"
  shows "\<exists>st. acknack_state r g missing wp = Some st \<and> acknack_for r g l wp st"
proof (cases missing)
  case Nil
  have base: "in_i64 (ack_base wp)" "\<forall>y < ack_base wp. wp_known wp y" "\<not> wp_known wp (ack_base wp)"
    using inv wpt.ack_law [of wp] by (auto simp: wp_inv_def)
  have "l < ack_base wp"
  proof (rule ccontr)
    assume "\<not> l < ack_base wp"
    moreover have "f \<le> ack_base wp" using before base(3) by (meson not_le)
    ultimately have "ack_base wp \<in> set missing" using missing base(3) by simp
    with Nil show False by simp
  qed
  moreover have "ns_wf (ns_new_empty (ack_base wp))" "bitmap_base (ns_new_empty (ack_base wp)) = ack_base wp"
      "ns_elems SeqNum (ns_new_empty (ack_base wp)) = Some []"
    using ns_wf_new [of 0 "ack_base wp"] by (simp_all add: ns_new_empty_def ns_elems_eq) (simp_all add: ns_new_def)
  ultimately show ?thesis
    using Nil base inv(2) by (simp add: acknack_state_def acknack_for_def all_ackable_before_def)
next
  case (Cons a as')
  have a: "a \<in> set missing" "sorted_wrt (<) missing"
    using Cons by simp (simp add: missing sorted_wrt_filter upto_sorted)
  then have al: "\<not> wp_known wp a" "a \<le> l" "f \<le> a" using missing by simp_all
  have least: "wp_known wp y" if "y < a" for y
  proof (rule ccontr)
    assume "\<not> wp_known wp y"
    then have "y \<in> set missing"
      using that al before [rule_format, of y] by (cases "y < f") (simp_all add: missing)
    then show False using a(2) that Cons by auto
  qed
  have "1 \<le> a"
    using al(1) inv(2) by (auto simp: wp_known_def)
  moreover have "in_i64 a" "in_i64 (a + 256)"
    using al(2) l \<open>1 \<le> a\<close> by (auto simp: in_i64_def i64_min_def)
  ultimately have add: "sn_add a (sn_new 256) = a + 256"
    by (simp add: sn_new_def sn_add_exact)
  let ?w = "filter (\<lambda>y. \<not> is_frag_partially_received r g y) (acknack_window missing)"
  have "missing = filter (\<lambda>y. \<not> wp_known wp y) [a..l]"
  proof -
    have "[f..l] = [f..a - 1] @ [a..l]" using al upto_split1 [of f a l] by simp
    then show ?thesis using least by (simp add: missing filter_empty_conv)
  qed
  moreover have "acknack_window missing = takeWhile (\<lambda>y. y < a + 256) missing"
    using Cons by (simp add: acknack_window_def add)
  ultimately have w: "?w = filter (\<lambda>y. \<not> wp_known wp y \<and> \<not> is_frag_partially_received r g y) [a..min l (a + 255)]"
    by (simp add: takeWhile_upto_filter add.commute)
  then have sorted: "sorted_wrt (<) ?w" by (simp add: sorted_wrt_filter upto_sorted)
  have iter: "bs_iter (bs_extend ?w bm_empty) = ?w" by (rule bs_iter_extend_sorted [OF sorted])
  have "\<forall>y \<in> set ?w. a \<le> y \<and> num_in SeqNum (y + 1)"
    unfolding w using l \<open>1 \<le> a\<close> by (auto simp: in_i64_def i64_min_def)
  then obtain st where "from_base_and_set SeqNum a (bs_extend ?w bm_empty) = Some st" "ns_wf st" "bitmap_base st = a"
      "ns_elems SeqNum st = Some (filter (\<lambda>y. y < a + 256) ?w)"
    using from_base_and_set_spec [of a SeqNum "bs_extend ?w bm_empty"] \<open>1 \<le> a\<close> \<open>in_i64 a\<close> unfolding iter by auto
  moreover have "filter (\<lambda>y. y < a + 256) ?w = ?w"
    unfolding w by (rule filter_True) auto
  ultimately show ?thesis
    using Cons least \<open>1 \<le> a\<close> \<open>in_i64 a\<close> w by (auto simp: acknack_state_def acknack_for_def)
qed

text \<open>The reply to a heartbeat, as the messages it consists of.\<close>

definition heartbeat_reply ::
    "ext \<Rightarrow> rtps_reader \<Rightarrow> guid \<Rightarrow> seqnum \<Rightarrow> rtps_writer_proxy \<Rightarrow> entity_id \<Rightarrow> locator list \<Rightarrow> reader_effect list \<Rightarrow> bool" where
  "heartbeat_reply x r g l wp writer_id dst es \<longleftrightarrow>
     (\<exists>nfs an. es = (if nfs = [] then [] else [send_nackfrags_to x Flag_Endianness nfs (guid_prefix g) dst r])
           @ [send_acknack_to x (flags_union x Flag_Endianness ACKNACK_Final) an (guid_prefix g) dst r]
        \<and> an_reader_id an = r_entity_id r \<and> an_writer_id an = writer_id \<and> an_count an = sent_ack_nack_count wp
        \<and> acknack_for r g l wp (reader_sn_state an) \<and> (\<forall>nf \<in> set nfs. nackfrag_for x r g nf))"

lemma send_heartbeat_reply_spec:
  assumes x: "ext_ok x" and S: "samples_ok S" and r: "assemblers_ok S r"
    and wp: "wp_inv wp" "1 \<le> ack_base wp" "remote_writer_guid wp = g" and l: "l < i64_max - 256"
    and missing: "missing = filter (\<lambda>y. \<not> wp_known wp y) [f..l]" and before: "\<forall>y < f. wp_known wp y"
  shows "\<exists>c es. send_heartbeat_reply x hb g dst missing r wp = Some (wp\<lparr>sent_ack_nack_count := c\<rparr>, es)
    \<and> heartbeat_reply x r g l wp (hb_writer_id hb) dst es"
proof -
  obtain st where st: "acknack_state r g missing wp = Some st" "acknack_for r g l wp st"
    using acknack_state_spec [OF wp(1,2) l missing before] by blast
  let ?c = "wrap_i32 (sent_ack_nack_count wp + 1)"
  let ?part = "filter (is_frag_partially_received r g) (acknack_window missing)"
  let ?an = "\<lparr>an_reader_id = r_entity_id r, an_writer_id = hb_writer_id hb, reader_sn_state = st, an_count = sent_ack_nack_count wp\<rparr>"
  have "remote_writer_guid (wp\<lparr>sent_ack_nack_count := ?c\<rparr>) = g" using wp(3) by simp
  from nackfrags_loop_spec [OF x S r this, of ?part] obtain nfs c where
    nfs: "nackfrags_loop x r g ?part (wp\<lparr>sent_ack_nack_count := ?c\<rparr>) = Some (nfs, wp\<lparr>sent_ack_nack_count := c\<rparr>)"
      "\<forall>nf \<in> set nfs. nackfrag_for x r g nf"
    by auto
  let ?es = "(if nfs = [] then [] else [send_nackfrags_to x Flag_Endianness nfs (guid_prefix g) dst r])
      @ [send_acknack_to x (flags_union x Flag_Endianness ACKNACK_Final) ?an (guid_prefix g) dst r]"
  have "send_heartbeat_reply x hb g dst missing r wp = Some (wp\<lparr>sent_ack_nack_count := c\<rparr>, ?es)"
    by (simp add: send_heartbeat_reply_def st(1) nfs(1) next_ack_nack_sequence_number_def)
  moreover have "heartbeat_reply x r g l wp (hb_writer_id hb) dst ?es"
    unfolding heartbeat_reply_def using st(2) nfs(2) by (intro exI [of _ nfs] exI [of _ ?an]) simp
  ultimately show ?thesis by blast
qed

text \<open>What the handler does with a heartbeat that it has not seen yet.\<close>

lemma irrelevant_other:
  assumes "irrelevant_changes_range wp a b = Some wp'"
  shows "remote_writer_guid wp' = remote_writer_guid wp" "wp_unicast_locator_list wp' = wp_unicast_locator_list wp"
    "sent_ack_nack_count wp' = sent_ack_nack_count wp" "received_heartbeat_count wp' = received_heartbeat_count wp"
  using assms
  by (auto simp: irrelevant_changes_range_def advance_ack_base_def bm_split_off_def Let_def split: if_splits)

lemma new_heartbeat:
  assumes inv: "proxy_ok sole told tc g wp" and sn: "in_i64 (first_sn hb)"
    and new: "received_heartbeat_count wp < hb_count hb"
  obtains wp1 where "irrelevant_changes_up_to (wp\<lparr>received_heartbeat_count := hb_count hb\<rparr>) (first_sn hb) = Some wp1"
    "wp_inv wp1" "1 \<le> ack_base wp1" "remote_writer_guid wp1 = g" "\<forall>y < first_sn hb. wp_known wp1 y"
    "wp_known wp1 = (\<lambda>y. wp_known wp y \<or> 0 \<le> y \<and> y < first_sn hb)"
    "wp_unicast_locator_list wp1 = wp_unicast_locator_list wp" "sent_ack_nack_count wp1 = sent_ack_nack_count wp"
    "received_heartbeat_count wp1 = hb_count hb"
proof -
  let ?wp = "wp\<lparr>received_heartbeat_count := hb_count hb\<rparr>"
  have "wp_inv ?wp" "in_i64 (sn_new 0)"
    using inv by (simp_all add: proxy_ok_def wp_inv_def sn_new_def in_i64_def i64_min_def i64_max_def)
  then obtain wp1 where wp1: "irrelevant_changes_range ?wp (sn_new 0) (first_sn hb) = Some wp1" "wp_inv wp1"
      "wp_known wp1 = (\<lambda>y. wp_known ?wp y \<or> sn_new 0 \<le> y \<and> y < first_sn hb)" "ack_base ?wp \<le> ack_base wp1"
    using sn irrelevant_changes_range_spec by blast
  have known: "wp_known wp1 = (\<lambda>y. wp_known wp y \<or> 0 \<le> y \<and> y < first_sn hb)"
    using wp1(3) by (simp add: wp_known_def sn_new_def)
  have "wp_known wp1 y" if "y < first_sn hb" for y
    using that inv by (cases "0 \<le> y") (auto simp: known wp_known_def proxy_ok_def)
  then show thesis
    using wp1 known irrelevant_other [OF wp1(1)] inv
    by (intro that [of wp1]) (auto simp: irrelevant_changes_up_to_def proxy_ok_def)
qed

lemma heartbeat_reply_matched:
  "heartbeat_reply x (r\<lparr>matched_writers := m\<rparr>) g l wp e dst es \<longleftrightarrow> heartbeat_reply x r g l wp e dst es"
  by (simp add: heartbeat_reply_def send_nackfrags_to_def send_acknack_to_def acknack_for_def nackfrag_for_def
      is_frag_partially_received_def reader_missing_frags_for_def)

lemma insert_removed [simp]: "bm_insert k v (bm_remove k m) = bm_insert k v m"
  by (rule bm_eqI) simp

lemma handle_heartbeat_new:
  assumes x: "ext_ok x" and S: "samples_ok S" and inv: "reader_inv sole S told now r tc"
    and rel: "r_reliability r \<noteq> BestEffort" "\<not> r_like_stateless r"
    and g: "g = GUID (mrs_source_guid_prefix mrs) (hb_writer_id hb)" and wp: "bm_get (matched_writers r) g = Some wp"
    and new: "received_heartbeat_count wp < hb_count hb" and sn: "in_i64 (first_sn hb)" "last_sn hb < i64_max - 256"
  obtains wp1 c answer es where
    "wp_inv wp1" "1 \<le> ack_base wp1" "remote_writer_guid wp1 = g" "wp_known wp1 = (\<lambda>y. wp_known wp y \<or> 0 \<le> y \<and> y < first_sn hb)"
    "handle_heartbeat_msg x hb final mrs r tc = Some (answer,
       r\<lparr>matched_writers := bm_insert g (wp1\<lparr>sent_ack_nack_count := c\<rparr>) (matched_writers r)\<rparr>,
       snd (mark_reliably_received_before g (ack_base wp1) tc),
       (if fst (mark_reliably_received_before g (ack_base wp1) tc) then [RE_Notify] else []) @ es)"
    "answer \<longleftrightarrow> (\<exists>y. first_sn hb \<le> y \<and> y \<le> last_sn hb \<and> \<not> wp_known wp1 y) \<or> \<not> final"
    "if answer then heartbeat_reply x r g (last_sn hb) wp1 (hb_writer_id hb) (reply_locators mrs wp) es else es = []"
    "sent_ack_nack_count wp1 = sent_ack_nack_count wp"
proof -
  have ok: "proxy_ok sole told tc g wp" by (rule reader_invD(5) [OF inv wp])
  obtain wp1 where wp1: "irrelevant_changes_up_to (wp\<lparr>received_heartbeat_count := hb_count hb\<rparr>) (first_sn hb) = Some wp1"
    "wp_inv wp1" "1 \<le> ack_base wp1" "remote_writer_guid wp1 = g" "\<forall>y < first_sn hb. wp_known wp1 y"
    "wp_known wp1 = (\<lambda>y. wp_known wp y \<or> 0 \<le> y \<and> y < first_sn hb)"
    "wp_unicast_locator_list wp1 = wp_unicast_locator_list wp" "sent_ack_nack_count wp1 = sent_ack_nack_count wp"
    by (rule new_heartbeat [OF ok sn(1) new])
  define missing where "missing = filter (\<lambda>y. \<not> wp_known wp1 y) [first_sn hb..last_sn hb]"
  let ?r0 = "r\<lparr>matched_writers := bm_remove g (matched_writers r)\<rparr>"
  let ?dst = "reply_locators mrs wp"
  have ms: "missing_seqnums wp1 (first_sn hb) (last_sn hb) = Some missing"
    unfolding missing_def using wp1(2) sn by (intro missing_seqnums_spec) simp_all
  have r0: "assemblers_ok S ?r0"
    using reader_invD(4) [OF inv] by (simp add: assemblers_ok_def)
  obtain c es where reply: "send_heartbeat_reply x hb g ?dst missing ?r0 wp1 = Some (wp1\<lparr>sent_ack_nack_count := c\<rparr>, es)"
      "heartbeat_reply x ?r0 g (last_sn hb) wp1 (hb_writer_id hb) ?dst es"
    using send_heartbeat_reply_spec [OF x S r0 wp1(2-4) sn(2) missing_def wp1(5)] by blast
  have nonempty: "missing \<noteq> [] \<longleftrightarrow> (\<exists>y. first_sn hb \<le> y \<and> y \<le> last_sn hb \<and> \<not> wp_known wp1 y)"
    by (auto simp: missing_def filter_empty_conv)
  have eq: "handle_heartbeat_msg x hb final mrs r tc = (let (m, tc1) = mark_reliably_received_before g (ack_base wp1) tc
      in if missing \<noteq> [] \<or> \<not> final
         then Some (True, r\<lparr>matched_writers := bm_insert g (wp1\<lparr>sent_ack_nack_count := c\<rparr>) (matched_writers r)\<rparr>, tc1,
                (if m then [RE_Notify] else []) @ es)
         else Some (False, r\<lparr>matched_writers := bm_insert g wp1 (matched_writers r)\<rparr>, tc1, if m then [RE_Notify] else []))"
    using rel new by (simp add: handle_heartbeat_msg_def heartbeat_worker_def wp wp1(1) ms reply(1)
        all_ackable_before_def split_beta Let_def flip: g)
  show thesis
  proof (cases "missing \<noteq> [] \<or> \<not> final")
    case True
    then show thesis
      using wp1 nonempty reply(2) eq by (intro that [of wp1 True c es]) (auto simp: heartbeat_reply_matched split_beta)
  next
    case False
    then show thesis
      using wp1(1-6) nonempty eq
      by (intro that [of wp1 False "sent_ack_nack_count wp1" "[]"]) (auto simp: split_beta intro: wp1(8))
  qed
qed

lemma handle_heartbeat_msg_ok:
  assumes x: "ext_ok x" and S: "samples_ok S" and inv: "reader_inv sole S told now r tc"
    and sn: "in_i64 (first_sn hb)" "last_sn hb < i64_max - 256"
    and told: "\<forall>y. 1 \<le> y \<and> y < first_sn hb \<longrightarrow> (GUID (mrs_source_guid_prefix mrs) (hb_writer_id hb), y) \<in> told"
  shows "\<exists>answer r' tc' es. handle_heartbeat_msg x hb final mrs r tc = Some (answer, r', tc', es) \<and> reader_inv sole S told now r' tc'"
proof -
  define g where "g = GUID (mrs_source_guid_prefix mrs) (hb_writer_id hb)"
  consider (ignored) "r_reliability r = BestEffort \<or> r_like_stateless r \<or> bm_get (matched_writers r) g = None"
    | (old) wp where "\<not> (r_reliability r = BestEffort \<or> r_like_stateless r)" "bm_get (matched_writers r) g = Some wp"
        "hb_count hb \<le> received_heartbeat_count wp"
    | (new) wp where "r_reliability r \<noteq> BestEffort" "\<not> r_like_stateless r" "bm_get (matched_writers r) g = Some wp"
        "received_heartbeat_count wp < hb_count hb"
    by (metis not_le not_None_eq)
  then show ?thesis
  proof cases
    case ignored
    then show ?thesis
      using inv by (auto simp: handle_heartbeat_msg_def simp flip: g_def)
  next
    case (old wp)
    then show ?thesis
      using reader_inv_same [OF inv reader_invD(5) [OF inv old(2)], of wp]
      by (auto simp: handle_heartbeat_msg_def heartbeat_worker_def simp flip: g_def)
  next
    case (new wp)
    have ok: "proxy_ok sole told tc g wp" by (rule reader_invD(5) [OF inv new(3)])
    obtain wp1 c answer es where h: "wp_inv wp1" "1 \<le> ack_base wp1" "remote_writer_guid wp1 = g"
        "wp_known wp1 = (\<lambda>y. wp_known wp y \<or> 0 \<le> y \<and> y < first_sn hb)"
        "handle_heartbeat_msg x hb final mrs r tc = Some (answer,
           r\<lparr>matched_writers := bm_insert g (wp1\<lparr>sent_ack_nack_count := c\<rparr>) (matched_writers r)\<rparr>,
           snd (mark_reliably_received_before g (ack_base wp1) tc),
           (if fst (mark_reliably_received_before g (ack_base wp1) tc) then [RE_Notify] else []) @ es)"
      by (rule handle_heartbeat_new [OF x S inv new(1,2) g_def new(3,4) sn])
    have "\<forall>y. 1 \<le> y \<and> wp_known wp1 y \<longrightarrow> (g, y) \<in> told"
      using told ok by (auto simp: h(4) proxy_ok_def g_def)
    then have "reader_inv sole S told now (r\<lparr>matched_writers := bm_insert g (wp1\<lparr>sent_ack_nack_count := c\<rparr>) (matched_writers r)\<rparr>)
        (snd (mark_reliably_received_before g (ack_base (wp1\<lparr>sent_ack_nack_count := c\<rparr>)) tc))"
      using h(1-3) by (intro reader_inv_advance [OF inv]) (simp_all add: wp_inv_def wp_known_def)
    then show ?thesis using h(5) by simp
  qed
qed

lemma fold_irrelevant_spec:
  assumes "wp_inv wp" and "\<forall>y \<in> set sns. in_i64 y \<and> y < i64_max"
  shows "wp_inv (fold (\<lambda>sn w. set_irrelevant_change w sn) sns wp)
    \<and> wp_known (fold (\<lambda>sn w. set_irrelevant_change w sn) sns wp) = (\<lambda>y. wp_known wp y \<or> y \<in> set sns)
    \<and> ack_base wp \<le> ack_base (fold (\<lambda>sn w. set_irrelevant_change w sn) sns wp)
    \<and> remote_writer_guid (fold (\<lambda>sn w. set_irrelevant_change w sn) sns wp) = remote_writer_guid wp"
  using assms
proof (induction sns arbitrary: wp)
  case (Cons sn sns)
  have step: "wp_inv (set_irrelevant_change wp sn)"
      "wp_known (set_irrelevant_change wp sn) = (\<lambda>y. wp_known wp y \<or> y = sn)"
      "ack_base wp \<le> ack_base (set_irrelevant_change wp sn)"
    using set_irrelevant_change_spec [of wp sn] Cons.prems by simp_all
  have guid: "remote_writer_guid (set_irrelevant_change wp sn) = remote_writer_guid wp"
    by (simp add: set_irrelevant_change_def advance_ack_base_def Let_def)
  from Cons.IH [OF step(1)] Cons.prems step(2,3) show ?case
    by (auto simp: guid fun_eq_iff)
qed simp

text \<open>The numbers a GAP declares irrelevant, and the GAPs in which they are numbers below the last.\<close>

definition gap_numbers :: "gap \<Rightarrow> seqnum set" where
  "gap_numbers gp = {gap_start gp..<bitmap_base (gap_list gp)}
     \<union> (case ns_elems SeqNum (gap_list gp) of Some ys \<Rightarrow> set ys | None \<Rightarrow> {})"

definition gap_in_range :: "gap \<Rightarrow> bool" where
  "gap_in_range gp \<longleftrightarrow> in_i64 (gap_start gp) \<and> in_i64 (bitmap_base (gap_list gp)) \<and> ns_wf (gap_list gp)
     \<and> bitmap_base (gap_list gp) + int (num_bits (gap_list gp)) \<le> i64_max"

lemma gap_proxy_spec:
  assumes inv: "wp_inv wp" and gp: "gap_in_range gp" "1 \<le> bitmap_base (gap_list gp)"
  obtains wp' where "gap_proxy gp wp = Some wp'" "wp_inv wp'" "ack_base wp \<le> ack_base wp'"
    "remote_writer_guid wp' = remote_writer_guid wp" "wp_known wp' = (\<lambda>y. wp_known wp y \<or> y \<in> gap_numbers gp)"
proof -
  let ?b = "bitmap_base (gap_list gp)"
  have rng: "in_i64 (gap_start gp)" "in_i64 ?b" using gp(1) by (simp_all add: gap_in_range_def)
  obtain wp1 where wp1: "irrelevant_changes_range wp (gap_start gp) ?b = Some wp1" "wp_inv wp1"
      "wp_known wp1 = (\<lambda>y. wp_known wp y \<or> gap_start gp \<le> y \<and> y < ?b)" "ack_base wp \<le> ack_base wp1"
    by (rule irrelevant_changes_range_spec [OF inv rng])
  obtain ys where ys: "ns_elems SeqNum (gap_list gp) = Some ys" "ys = ns_between SeqNum (gap_list gp) 0 (num_bits (gap_list gp))"
    using ns_elems_eq gp(1) by (simp add: gap_in_range_def)
  have "in_i64 y \<and> y < i64_max" if y: "y \<in> set ys" for y
  proof -
    obtain i where i: "i < num_bits (gap_list gp)" "y = wrap_i64 (wrap_i64 (int i) + ?b)"
      using y unfolding ys(2) ns_between_def by auto
    moreover have "in_i64 (int i)" "in_i64 (int i + ?b)" "int i + ?b < i64_max"
      using i(1) gp by (auto simp: gap_in_range_def in_i64_def i64_min_def)
    ultimately show ?thesis by (simp add: wrap_i64_id)
  qed
  then have "\<forall>y \<in> set ys. in_i64 y \<and> y < i64_max" by blast
  from fold_irrelevant_spec [OF wp1(2) this] show thesis
    using wp1 ys(1) irrelevant_other(1) [OF wp1(1)]
    by (intro that [of "fold (\<lambda>sn w. set_irrelevant_change w sn) ys wp1"])
      (auto simp: gap_proxy_def gap_numbers_def)
qed

lemma handle_gap_msg_ok:
  assumes inv: "reader_inv sole S told now r tc" and gp: "gap_in_range gp"
    and g: "g = GUID (mrs_source_guid_prefix mrs) (gap_writer_id gp)" and told: "\<forall>y \<in> gap_numbers gp. (g, y) \<in> told"
  shows "keeps sole S told now (handle_gap_msg gp mrs r tc)"
proof (cases "r_like_stateless r \<or> bm_get (matched_writers r) g = None \<or> gap_start gp \<le> sn_new 0 \<or> bitmap_base (gap_list gp) \<le> sn_new 0")
  case True
  then show ?thesis
    using inv by (auto simp: handle_gap_msg_def simp flip: g split: option.splits)
next
  case False
  then obtain wp where wp: "bm_get (matched_writers r) g = Some wp" and b: "1 \<le> bitmap_base (gap_list gp)"
    by (auto simp: sn_new_def)
  have ok: "proxy_ok sole told tc g wp" by (rule reader_invD(5) [OF inv wp])
  then have wp_inv: "wp_inv wp" by (simp add: proxy_ok_def)
  obtain wp' where wp': "gap_proxy gp wp = Some wp'" "wp_inv wp'" "ack_base wp \<le> ack_base wp'"
      "remote_writer_guid wp' = remote_writer_guid wp" "wp_known wp' = (\<lambda>y. wp_known wp y \<or> y \<in> gap_numbers gp)"
    by (rule gap_proxy_spec [OF wp_inv gp b])
  have "reader_inv sole S told now (r\<lparr>matched_writers := bm_insert g wp' (matched_writers r)\<rparr>)
      (snd (mark_reliably_received_before g (ack_base wp') tc))"
    using ok wp' told by (intro reader_inv_advance [OF inv]) (auto simp: proxy_ok_def)
  then show ?thesis
    using False wp wp'(1) by (auto simp: handle_gap_msg_def all_ackable_before_def split_beta simp flip: g)
qed

section \<open>Matching\<close>

definition wp_fresh :: "rtps_writer_proxy \<Rightarrow> bool" where
  "wp_fresh wp \<longleftrightarrow> changes wp = bm_empty \<and> ack_base wp = sn_default"

lemma wp_fresh_discovered: "wp_fresh (wp_from_discovered_writer_data dwd ul ml)"
  by (simp add: wp_fresh_def wp_from_discovered_writer_data_def split_beta)

lemma matched_writer_update_ok:
  assumes inv: "reader_inv sole S told now r tc" and fresh: "wp_fresh proxy"
  shows "reader_inv sole S told now (snd (matched_writer_update proxy r)) tc"
proof (cases "bm_get (matched_writers r) (remote_writer_guid proxy)")
  case None
  have "1 \<le> reliable_before tc (remote_writer_guid proxy)"
    using reader_invD(3) [OF inv] by (simp add: markers_ok_def)
  then have "proxy_ok sole told tc (remote_writer_guid proxy) proxy"
    using fresh by (auto simp: proxy_ok_def wp_fresh_def wp_inv_def wp_known_def sn_default_def in_i64_def i64_min_def i64_max_def)
  then show ?thesis
    using None reader_inv_same [OF inv, of "remote_writer_guid proxy" proxy proxy] by (simp add: matched_writer_update_def)
next
  case (Some op)
  then show ?thesis
    using reader_inv_same [OF inv reader_invD(5) [OF inv Some], of "wp_update_contents op proxy"]
    by (simp add: matched_writer_update_def wp_update_contents_def)
qed

lemma update_writer_proxy_ok:
  assumes "reader_inv sole S told now r tc" and "wp_fresh proxy"
  shows "reader_inv sole S told now (fst (update_writer_proxy proxy qos r)) tc"
  using assms(1) matched_writer_update_ok [OF assms]
  by (auto simp: update_writer_proxy_def Let_def split_beta split: option.splits intro: reader_inv_other)

lemma remove_writer_proxy_ok:
  assumes "reader_inv sole S told now r tc"
  shows "reader_inv sole S told now (fst (remove_writer_proxy g r)) tc"
  using assms reader_inv_remove [OF assms] by (simp add: remove_writer_proxy_def Let_def)

lemma reader_participant_lost_ok:
  assumes "reader_inv sole S told now r tc"
  shows "reader_inv sole S told now (fst (reader_participant_lost p r)) tc"
proof -
  have "reader_inv sole S told now (fst (fold (\<lambda>g (r, es). case remove_writer_proxy g r of (r', es') \<Rightarrow> (r', es @ es')) gs (r0, es0))) tc"
    if "reader_inv sole S told now r0 tc" for gs r0 es0
    using that
  proof (induction gs arbitrary: r0 es0)
    case (Cons g gs)
    then show ?case
      using remove_writer_proxy_ok [OF Cons.prems, of g] by (cases "remove_writer_proxy g r0") simp
  qed simp
  with assms show ?thesis by (simp add: reader_participant_lost_def)
qed

text \<open>No proxy passes the test of \<open>no_changes_received\<close>, whose base starts at 1.\<close>

lemma preemptive_none:
  assumes "\<forall>g wp. bm_get m g = Some wp \<longrightarrow> 1 \<le> ack_base wp"
  shows "preemptive_loop x r gs m = (m, [])"
  using assms
proof (induction gs)
  case (Cons g gs)
  have "\<not> no_changes_received wp" if "bm_get m g = Some wp" for wp
    using Cons.prems that by (force simp: no_changes_received_def sn_new_def)
  then show ?case
    using Cons by (auto split: option.splits)
qed simp

end
