(* ===== verification/Reader_Delivery.thy ===== *)
theory Reader_Delivery
  imports Reader_Correct
begin

text \<open>
  What the RTPS reader promises, over every sequence of events: it never panics, it hands over a
  reliable writer's samples without holes, and its replies to heartbeats are truthful and exact.
  Besides these, what the code does not promise: heartbeats with an unbounded range, samples that
  arrive at the same instant and pre-emptive acknowledgements.
\<close>

section \<open>Events\<close>

datatype reader_event =
    RV_Data data_sm u8 message_receiver_state
  | RV_DataFrag data_frag u8 message_receiver_state
  | RV_Heartbeat heartbeat bool message_receiver_state
  | RV_Gap gap message_receiver_state
  | RV_HeartbeatFrag heartbeat_frag message_receiver_state
  | RV_UpdateWriter rtps_writer_proxy qos_policies
  | RV_RemoveWriter guid
  | RV_ParticipantLost guid_prefix
  | RV_TimedEvent
  | RV_PreemptiveAcknacks

fun reader_step :: "ext \<Rightarrow> timestamp \<Rightarrow> reader_event \<Rightarrow> rtps_reader \<Rightarrow> topic_cache \<Rightarrow> reader_result" where
  "reader_step x now (RV_Data d flags mrs) r tc = handle_data_msg x now d flags mrs r tc"
| "reader_step x now (RV_DataFrag d flags mrs) r tc = handle_datafrag_msg x now d flags mrs r tc"
| "reader_step x now (RV_Heartbeat hb final mrs) r tc =
     map_option (\<lambda>(_, r', tc', es). (r', tc', es)) (handle_heartbeat_msg x hb final mrs r tc)"
| "reader_step x now (RV_Gap gp mrs) r tc = handle_gap_msg gp mrs r tc"
| "reader_step x now (RV_HeartbeatFrag hbf mrs) r tc = handle_heartbeatfrag_msg hbf mrs r tc"
| "reader_step x now (RV_UpdateWriter proxy qos) r tc = (let (r', es) = update_writer_proxy proxy qos r in Some (r', tc, es))"
| "reader_step x now (RV_RemoveWriter g) r tc = (let (r', es) = remove_writer_proxy g r in Some (r', tc, es))"
| "reader_step x now (RV_ParticipantLost p) r tc = (let (r', es) = reader_participant_lost p r in Some (r', tc, es))"
| "reader_step x now RV_TimedEvent r tc = (let (r', es) = reader_handle_timed_event now r in Some (r', tc, es))"
| "reader_step x now RV_PreemptiveAcknacks r tc = (let (r', es) = send_preemptive_acknacks x r in Some (r', tc, es))"

text \<open>
  The numbers a submessage delivers or declares irrelevant: DATA that can be decoded, the fragment
  that completes a sample, a GAP, and a HEARTBEAT for the numbers before its first.
\<close>

fun tells :: "ext \<Rightarrow> timestamp \<Rightarrow> rtps_reader \<Rightarrow> reader_event \<Rightarrow> (guid \<times> seqnum) set" where
  "tells x now r (RV_Data d flags mrs) =
     (if data_to_dds_data x d flags = None then {} else {(GUID (mrs_source_guid_prefix mrs) (d_writer_id d), d_writer_sn d)})"
| "tells x now r (RV_DataFrag d flags mrs) =
     (let g = GUID (mrs_source_guid_prefix mrs) (df_writer_id d)
      in case new_datafrag x now (fragment_assembler_mutable r g (fragment_size d)) d flags of
           Some (Some dv, _) \<Rightarrow> {(g, df_writer_sn d)}
         | _ \<Rightarrow> {})"
| "tells x now r (RV_Heartbeat hb final mrs) = {GUID (mrs_source_guid_prefix mrs) (hb_writer_id hb)} \<times> {..<first_sn hb}"
| "tells x now r (RV_Gap gp mrs) = {GUID (mrs_source_guid_prefix mrs) (gap_writer_id gp)} \<times> gap_numbers gp"
| "tells x now r _ = {}"

text \<open>
  The events that the network can bring without breaking the code: numbers leave room below the
  largest \<open>i64\<close>, DATAFRAGs are fragments of the samples \<open>S\<close>, and new proxies come from discovery.
\<close>

fun reader_event_ok :: "sent_samples \<Rightarrow> reader_event \<Rightarrow> bool" where
  "reader_event_ok S (RV_Data d flags mrs) \<longleftrightarrow> in_i64 (d_writer_sn d) \<and> d_writer_sn d < i64_max"
| "reader_event_ok S (RV_DataFrag d flags mrs) \<longleftrightarrow> in_i64 (df_writer_sn d) \<and> df_writer_sn d < i64_max
     \<and> (let g = GUID (mrs_source_guid_prefix mrs) (df_writer_id d)
        in frag_of_sample (frag_size_of S g) (bytes_of S g (df_writer_sn d)) d)"
| "reader_event_ok S (RV_Heartbeat hb final mrs) \<longleftrightarrow> in_i64 (first_sn hb) \<and> last_sn hb < i64_max - 256"
| "reader_event_ok S (RV_Gap gp mrs) \<longleftrightarrow> gap_in_range gp"
| "reader_event_ok S (RV_UpdateWriter proxy qos) \<longleftrightarrow> wp_fresh proxy"
| "reader_event_ok S _ \<longleftrightarrow> True"

text \<open>
  The states a reader and its topic cache go through, with the numbers told so far and the time of
  the last event. The clock starts 5 seconds into its epoch or later and does not step back.
\<close>

inductive reader_reach ::
    "ext \<Rightarrow> sent_samples \<Rightarrow> (guid \<times> seqnum) set \<Rightarrow> timestamp \<Rightarrow> rtps_reader \<Rightarrow> topic_cache \<Rightarrow> bool" for x S where
  reach_new: "reader_new now g name (tc_new name dtype qos0) stateless qos = Some r \<Longrightarrow> Timestamp 5 0 \<le> now \<Longrightarrow>
     reader_reach x S {} now r (tc_new name dtype qos0)"
| reach_step: "reader_reach x S told now r tc \<Longrightarrow> now \<le> now' \<Longrightarrow> reader_event_ok S ev \<Longrightarrow>
     reader_step x now' ev r tc = Some (r', tc', es) \<Longrightarrow> reader_reach x S (told \<union> tells x now' r ev) now' r' tc'"

lemma reader_inv_new:
  assumes "reader_new now g name (tc_new name dtype qos0) stateless qos = Some r" and "Timestamp 5 0 \<le> now"
  shows "reader_inv sole S {} now r (tc_new name dtype qos0)"
proof -
  have tc: "received_reliably_before (tc_new name dtype qos0) = bm_empty"
      "changes_reallocated_up_to (tc_new name dtype qos0) = Timestamp_ZERO"
    by (simp_all add: tc_new_def update_keep_limits_def Let_def)
  have "Timestamp_ZERO \<le> t" for t
    using ts_less_ticks [of t Timestamp_ZERO] word32_bounds(1) [of "ts_seconds t"] word32_bounds(1) [of "ts_fraction t"]
    by (simp add: uint_ts_to_ticks Timestamp_ZERO_def flip: not_less)
  moreover have "fragment_assemblers r = bm_empty" "matched_writers r = bm_empty"
    using assms(1) by (auto simp: reader_new_def split: if_splits)
  ultimately show ?thesis
    using assms(2) tc_inv_new [of name dtype qos0]
    by (simp add: reader_inv_def clock_ok_def gc_clock_ok_def tc markers_ok_def assemblers_ok_def reliable_before_def sn_default_def)
qed

lemma reader_step_ok:
  assumes x: "ext_ok x" and S: "samples_ok S" and inv: "reader_inv sole S told now r tc" and ev: "reader_event_ok S ev"
  shows "keeps sole S (told \<union> tells x now r ev) now (reader_step x now ev r tc)"
proof -
  have inv': "reader_inv sole S (told \<union> tells x now r ev) now r tc"
    using inv by (rule reader_inv_told) simp
  show ?thesis
  proof (cases ev)
    case (RV_Data d flags mrs)
    then show ?thesis
      using inv' ev process_received_data_ok [OF inv', of "d_writer_sn d" "GUID (mrs_source_guid_prefix mrs) (d_writer_id d)"]
      by (auto simp: handle_data_msg_def split: option.splits)
  next
    case (RV_DataFrag d flags mrs)
    then have "keeps sole S (told \<union> tells x now r ev) now (handle_datafrag_msg x now d flags mrs r tc)"
      using ev by (intro handle_datafrag_msg_ok [OF x inv' _ refl]) (auto simp: Let_def)
    then show ?thesis by (simp add: RV_DataFrag)
  next
    case (RV_Heartbeat hb final mrs)
    then show ?thesis
      using handle_heartbeat_msg_ok [OF x S inv', of hb mrs final] ev by (auto simp: keeps_def)
  next
    case (RV_Gap gp mrs)
    then show ?thesis
      using handle_gap_msg_ok [OF inv' _ refl, of gp mrs] ev by simp
  next
    case (RV_UpdateWriter proxy qos)
    then show ?thesis
      using update_writer_proxy_ok [OF inv', of proxy qos] ev by (auto simp: split_beta)
  next
    case (RV_RemoveWriter g)
    then show ?thesis using remove_writer_proxy_ok [OF inv', of g] by (auto simp: split_beta)
  next
    case (RV_ParticipantLost p)
    then show ?thesis using reader_participant_lost_ok [OF inv', of p] by (auto simp: split_beta)
  next
    case RV_TimedEvent
    have "reader_inv sole S (told \<union> tells x now r ev) now (fst (reader_handle_timed_event now r)) tc"
      by (rule reader_inv_other [OF inv'])
        (auto simp: reader_handle_timed_event_def calculate_if_requested_deadline_is_missed_def split_beta Let_def split: option.splits)
    then show ?thesis by (auto simp: RV_TimedEvent split_beta)
  next
    case RV_PreemptiveAcknacks
    have "reader_inv sole S (told \<union> tells x now r ev) now (fst (send_preemptive_acknacks x r)) tc"
      using inv' preemptive_none [of "matched_writers r" x r] reader_invD(5) [OF inv']
      by (fastforce simp: send_preemptive_acknacks_def proxy_ok_def)
    then show ?thesis by (auto simp: RV_PreemptiveAcknacks split_beta)
  qed (use inv' in \<open>auto simp: handle_heartbeatfrag_msg_def\<close>)
qed

lemma reader_reach_inv:
  assumes "reader_reach x S told now r tc" and "ext_ok x" and "samples_ok S"
  shows "reader_inv True S told now r tc"
  using assms(1)
proof induction
  case (reach_step told now r tc now' ev r' tc' es)
  have "reader_inv True S told now' r tc"
    using reach_step.IH reach_step.hyps(2) by (rule reader_inv_later)
  from reader_step_ok [OF assms(2,3) this reach_step.hyps(3)] reach_step.hyps(4) show ?case
    by (simp add: keeps_def)
qed (rule reader_inv_new)

lemma complete_read:
  assumes inv: "reader_inv True S told now r tc" and lr: "\<forall>g. in_i64 (last_read lr g) \<and> last_read lr g < i64_max"
    and get: "bm_get (matched_writers r) (writer_guid cc) = Some wp" "tc_get_change tc ts = Some cc"
    and unread: "last_read lr (writer_guid cc) < sequence_number cc"
    and known: "\<forall>y. 1 \<le> y \<and> y \<le> sequence_number cc \<longrightarrow> should_ignore_change wp y"
  shows "\<exists>rs. get_changes_in_range_reliable tc lr = Some rs \<and> (ts, cc) \<in> set rs"
proof -
  have wp: "proxy_ok True told tc (writer_guid cc) wp" by (rule reader_invD(5) [OF inv get(1)])
  have "sequence_number cc < ack_base wp"
  proof (rule ccontr)
    assume "\<not> sequence_number cc < ack_base wp"
    then have "wp_known wp (ack_base wp)"
      using known wp by (simp add: should_ignore_change_iff proxy_ok_def)
    then show False using wp wpt.ack_law [of wp] by (simp add: proxy_ok_def)
  qed
  with wp have "sequence_number cc < reliable_before tc (writer_guid cc)" by (simp add: proxy_ok_def)
  with reliable_read_spec [OF reader_invD(1) [OF inv] lr] get(2) unread show ?thesis by blast
qed

section \<open>A reader with one writer\<close>

definition no_samples :: sent_samples where
  "no_samples = \<lparr>frag_size_of = (\<lambda>_. 1), bytes_of = (\<lambda>_ _. [])\<rparr>"

lemma samples_ok_none [simp]: "samples_ok no_samples"
  by (simp add: samples_ok_def no_samples_def)

definition sample_wp :: rtps_writer_proxy where
  "sample_wp = wp_new sample_writer [] [] EntityId_UNKNOWN"

definition sample_tc :: topic_cache where
  "sample_tc = tc_new ''square'' ''shape'' sample_reliable_qos"

definition sample_mrs :: message_receiver_state where
  "sample_mrs = \<lparr>mrs_source_guid_prefix = guid_prefix sample_writer, mrs_unicast_reply_locator_list = [],
     mrs_multicast_reply_locator_list = [], mrs_source_timestamp = None\<rparr>"

definition sample_data :: "seqnum \<Rightarrow> data_sm" where
  "sample_data sn = \<lparr>d_reader_id = EntityId_UNKNOWN, d_writer_id = guid_entity_id sample_writer, d_writer_sn = sn,
     d_inline_qos = None, d_serialized_payload = Some [0, 1, 0, 0, 65]\<rparr>"

definition sample_heartbeat :: "seqnum \<Rightarrow> seqnum \<Rightarrow> heartbeat" where
  "sample_heartbeat f l = \<lparr>hb_reader_id = EntityId_UNKNOWN, hb_writer_id = guid_entity_id sample_writer,
     first_sn = f, last_sn = l, hb_count = 1\<rparr>"

lemma sample_source: "GUID (mrs_source_guid_prefix sample_mrs) (guid_entity_id sample_writer) = sample_writer"
  by (simp add: sample_mrs_def sample_writer_def)

lemma sample_reader_reach:
  obtains r where "reader_reach sample_ext no_samples {} (Timestamp 100 0) r sample_tc"
    "matched_writers r = bm_insert sample_writer sample_wp bm_empty" "r_reliability r \<noteq> BestEffort"
    "\<not> r_like_stateless r" "fragment_assemblers r = bm_empty" "r_my_guid r = GUID_UNKNOWN"
    "r_topic_name r = ''square''"
proof -
  let ?now = "Timestamp 100 0"
  obtain r0 where r0: "reader_new ?now GUID_UNKNOWN ''square'' sample_tc False sample_reliable_qos = Some r0"
      "matched_writers r0 = bm_empty" "fragment_assemblers r0 = bm_empty" "r_qos_policy r0 = sample_reliable_qos"
      "r_reliability r0 \<noteq> BestEffort" "\<not> r_like_stateless r0" "r_my_guid r0 = GUID_UNKNOWN" "r_topic_name r0 = ''square''"
    by (simp add: reader_new_def sample_tc_def tc_new_def update_keep_limits_def sample_reliable_qos_def Let_def)
  have "reader_reach sample_ext no_samples {} ?now r0 sample_tc"
    unfolding sample_tc_def
    by (rule reach_new [OF r0(1) [unfolded sample_tc_def]]) (simp add: less_eq_timestamp_def less_timestamp_def)
  moreover have same: "compliance_failure_wrt sample_reliable_qos sample_reliable_qos = None"
    by (simp add: compliance_None fails_refl)
  moreover obtain r es where r: "update_writer_proxy sample_wp sample_reliable_qos r0 = (r, es)"
    "matched_writers r = bm_insert sample_writer sample_wp bm_empty" "r_reliability r = r_reliability r0"
    "r_like_stateless r = r_like_stateless r0" "fragment_assemblers r = bm_empty" "r_my_guid r = GUID_UNKNOWN"
    "r_topic_name r = ''square''"
    using r0 by (simp add: update_writer_proxy_def same matched_writer_update_def sample_wp_def wp_new_def Let_def)
  ultimately have "reader_reach sample_ext no_samples ({} \<union> tells sample_ext ?now r0 (RV_UpdateWriter sample_wp sample_reliable_qos))
      ?now r sample_tc"
    by (intro reach_step [OF _ order_refl, where ev = "RV_UpdateWriter sample_wp sample_reliable_qos" and es = es])
      (simp_all add: wp_fresh_def sample_wp_def wp_new_def sn_new_def sn_default_def)
  then show thesis
    using r r0 by (intro that [of r]) simp_all
qed

lemma sample_data_dds: "\<exists>dv. data_to_dds_data sample_ext (sample_data sn) 5 = Some dv"
  by (simp add: data_to_dds_data_def sample_data_def sample_ext_def sp_from_bytes_def slice_def H_LEN_def Let_def)

lemma sample_data_reach:
  obtains r tc wp ts cc where "reader_reach sample_ext no_samples {(sample_writer, 1)} (Timestamp 100 0) r tc"
    "bm_get (matched_writers r) sample_writer = Some wp" "\<forall>y. 1 \<le> y \<and> y \<le> 1 \<longrightarrow> should_ignore_change wp y"
    "tc_get_change tc ts = Some cc" "writer_guid cc = sample_writer" "sequence_number cc = 1"
    "all_ackable_before wp = 2" "\<not> r_like_stateless r" "data_to_dds_data sample_ext (sample_data 1) 5 = Some (data_value cc)"
    "\<forall>t c. tc_get_change tc t = Some c \<longrightarrow> c = cc"
proof -
  let ?now = "Timestamp 100 0"
  obtain r where r: "reader_reach sample_ext no_samples {} ?now r sample_tc"
      "matched_writers r = bm_insert sample_writer sample_wp bm_empty" "r_reliability r \<noteq> BestEffort" "\<not> r_like_stateless r"
    by (rule sample_reader_reach)
  obtain dv where dv: "data_to_dds_data sample_ext (sample_data 1) 5 = Some dv"
    using sample_data_dds by blast
  define wp where "wp = received_changes_add sample_wp 1 ?now"
  define r1 where "r1 = r\<lparr>matched_writers := bm_insert sample_writer wp (matched_writers r)\<rparr>"
  have inv: "reader_inv True no_samples {} ?now r sample_tc"
    by (rule reader_reach_inv [OF r(1) ext_ok_sample samples_ok_none])
  then have "proxy_ok True {} sample_tc sample_writer sample_wp" by (rule reader_invD(5)) (simp add: r(2))
  then have known: "wp_known wp 1" "\<not> should_ignore_change sample_wp 1"
    using received_changes_add_spec(2) [of sample_wp 1 ?now]
    by (simp_all add: proxy_ok_def wp_def in_i64_def i64_min_def i64_max_def)
      (simp add: should_ignore_change_iff sample_wp_def wp_known_new)
  have clock: "tc_inv sample_tc" "gc_clock_ok ?now sample_tc"
    using reader_invD(1,2) [OF inv] by (simp_all add: clock_ok_def)
  define wo where "wo = received_write_options sample_ext (mrs_source_timestamp sample_mrs) (d_inline_qos (sample_data 1))
      (cdr_representation_identifier sample_ext 5)"
  have "tc_index sample_tc sample_writer 1 = None"
    by (simp add: sample_tc_def tc_new_def update_keep_limits_def tc_index_def Let_def)
  then obtain tc1 where tc1: "tc_add_change ?now ?now (cc_new sample_writer 1 wo dv) sample_tc = Some tc1"
      "tc_get_change tc1 ?now = Some (cc_new sample_writer 1 wo dv)"
      "\<forall>ts c. ts \<noteq> ?now \<and> tc_get_change tc1 ts = Some c \<longrightarrow> tc_get_change sample_tc ts = Some c"
    using tc_add_change_new [OF clock, of "cc_new sample_writer 1 wo dv" ?now] by (metis cc_new_sel)
  define tc where "tc = snd (mark_reliably_received_before sample_writer (ack_base wp) tc1)"
  have d: "d_writer_id (sample_data 1) = guid_entity_id sample_writer" "d_writer_sn (sample_data 1) = 1"
    by (simp_all add: sample_data_def)
  have "handle_data_msg sample_ext ?now (sample_data 1) 5 sample_mrs r sample_tc = Some (r1, tc, [RE_Notify])"
    using known(2) r(2,4) tc1(1)
    by (simp add: handle_data_msg_def dv d sample_source process_received_data_def store_and_notify_def tc_def
        make_cache_change_def all_ackable_before_def r1_def wp_def flip: wo_def)
  then have "reader_reach sample_ext no_samples ({} \<union> tells sample_ext ?now r (RV_Data (sample_data 1) 5 sample_mrs)) ?now r1 tc"
    by (intro reach_step [OF r(1) order_refl, where ev = "RV_Data (sample_data 1) 5 sample_mrs" and es = "[RE_Notify]"])
      (simp_all add: d in_i64_def i64_min_def i64_max_def)
  then have "reader_reach sample_ext no_samples {(sample_writer, 1)} ?now r1 tc"
    by (simp add: dv d sample_source)
  moreover have "tc_get_change tc ?now = Some (cc_new sample_writer 1 wo dv)"
    using tc1(2) by (simp add: tc_def tc_get_change_def mark_reliably_received_before_def Let_def)
  moreover have "\<forall>t c. tc_get_change tc t = Some c \<longrightarrow> c = cc_new sample_writer 1 wo dv"
  proof (intro allI impI)
    fix t c assume "tc_get_change tc t = Some c"
    then have "tc_get_change tc1 t = Some c"
      by (simp add: tc_def tc_get_change_def mark_reliably_received_before_def Let_def)
    moreover have "tc_get_change sample_tc t = None"
      by (simp add: sample_tc_def tc_new_def update_keep_limits_def tc_get_change_def Let_def)
    ultimately show "c = cc_new sample_writer 1 wo dv" using tc1(2,3) by (cases "t = ?now") auto
  qed
  moreover have "bm_get (matched_writers r1) sample_writer = Some wp" by (simp add: r1_def)
  moreover have "\<forall>y. 1 \<le> y \<and> y \<le> 1 \<longrightarrow> should_ignore_change wp y"
    using known(1) by (metis antisym should_ignore_change_iff)
  moreover have "all_ackable_before wp = 2"
    by (simp add: wp_def sample_wp_def wp_new_def received_changes_add_def advance_ack_base_def all_ackable_before_def
        bm_keys_def sn_new_def sn_add_def wrap_i64_def Let_def)
  moreover have "\<not> r_like_stateless r1" using r(4) by (simp add: r1_def)
  moreover have "data_to_dds_data sample_ext (sample_data 1) 5 = Some (data_value (cc_new sample_writer 1 wo dv))"
      "writer_guid (cc_new sample_writer 1 wo dv) = sample_writer" "sequence_number (cc_new sample_writer 1 wo dv) = 1"
    using dv by simp_all
  ultimately show thesis by (intro that)
qed

lemma last_read_empty: "\<forall>g. in_i64 (last_read bm_empty g) \<and> last_read bm_empty g < i64_max" "last_read bm_empty g = 0"
  by (simp_all add: last_read_def sn_zero_def in_i64_def i64_min_def i64_max_def)

section \<open>Properties\<close>



text \<open>C4: Reliable delivery has no holes. Whatever a data reader gets from the reliable query, every lower
  number of the same writer has reached the reader, as data or as irrelevant, before.\<close>

theorem reliable_delivery_gapless:
  assumes "ext_ok x" and "samples_ok S" and "reader_reach x S told now r tc"
    and "\<forall>g. in_i64 (last_read lr g) \<and> last_read lr g < i64_max"
    and "get_changes_in_range_reliable tc lr = Some rs" and "(ts, cc) \<in> set rs"
    and "1 \<le> y" and "y \<le> sequence_number cc"
  shows "(writer_guid cc, y) \<in> told"
proof -
  have inv: "reader_inv True S told now r tc" by (rule reader_reach_inv [OF assms(3,1,2)])
  from reliable_read_spec [OF reader_invD(1) [OF inv] assms(4)] assms(5,6)
  have "sequence_number cc < reliable_before tc (writer_guid cc)" by auto
  with reader_invD(3) [OF inv] assms(7,8) show ?thesis
    by (auto simp: markers_ok_def)
qed

theorem reliable_delivery_gapless_witness:
  "\<exists>r tc rs ts cc. reader_reach sample_ext no_samples {(sample_writer, 1)} (Timestamp 100 0) r tc
     \<and> get_changes_in_range_reliable tc bm_empty = Some rs \<and> (ts, cc) \<in> set rs \<and> (writer_guid cc, 1) \<in> {(sample_writer, 1)}"
proof -
  obtain r tc wp ts cc where h: "reader_reach sample_ext no_samples {(sample_writer, 1)} (Timestamp 100 0) r tc"
    "bm_get (matched_writers r) sample_writer = Some wp" "\<forall>y. 1 \<le> y \<and> y \<le> 1 \<longrightarrow> should_ignore_change wp y"
    "tc_get_change tc ts = Some cc" "writer_guid cc = sample_writer" "sequence_number cc = 1"
    by (rule sample_data_reach)
  have inv: "reader_inv True no_samples {(sample_writer, 1)} (Timestamp 100 0) r tc"
    by (rule reader_reach_inv [OF h(1) ext_ok_sample samples_ok_none])
  obtain rs where rs: "get_changes_in_range_reliable tc bm_empty = Some rs" "(ts, cc) \<in> set rs"
    using complete_read [OF inv last_read_empty(1), of cc wp ts] h by (auto simp: last_read_empty)
  have "(writer_guid cc, 1) \<in> {(sample_writer, 1)}"
    using reliable_delivery_gapless [OF ext_ok_sample samples_ok_none h(1) last_read_empty(1) rs, of 1] h(6) by simp
  with h(1) rs show ?thesis by blast
qed





text \<open>A heartbeat whose range reaches the largest \<open>i64\<close> never returns: the enumeration of the missing
  numbers wraps around (or overflows) instead of ending. Any matched writer can stop the receive
  loop of a reliable reader with one such heartbeat.\<close>

theorem heartbeat_to_last_never_returns:
  assumes "ext_ok x" and "samples_ok S" and "reader_reach x S told now r tc"
    and "r_reliability r \<noteq> BestEffort" and "\<not> r_like_stateless r"
    and "bm_get (matched_writers r) (GUID (mrs_source_guid_prefix mrs) (hb_writer_id hb)) = Some wp"
    and "received_heartbeat_count wp < hb_count hb" and "in_i64 (first_sn hb)" and "last_sn hb = i64_max"
  shows "handle_heartbeat_msg x hb final mrs r tc = None"
proof -
  have "proxy_ok True told tc (GUID (mrs_source_guid_prefix mrs) (hb_writer_id hb)) wp"
    by (rule reader_invD(5) [OF reader_reach_inv [OF assms(3,1,2)] assms(6)])
  from new_heartbeat [OF this assms(8,7)] obtain wp1 where
    "irrelevant_changes_up_to (wp\<lparr>received_heartbeat_count := hb_count hb\<rparr>) (first_sn hb) = Some wp1" "wp_inv wp1"
    by metis
  then show ?thesis
    using assms(4-9) missing_seqnums_None [of wp1 "first_sn hb"]
    by (simp add: handle_heartbeat_msg_def heartbeat_worker_def split_beta Let_def)
qed

theorem heartbeat_to_last_never_returns_witness:
  "\<exists>r. reader_reach sample_ext no_samples {} (Timestamp 100 0) r sample_tc
     \<and> handle_heartbeat_msg sample_ext (sample_heartbeat 1 i64_max) True sample_mrs r sample_tc = None"
proof -
  obtain r where r: "reader_reach sample_ext no_samples {} (Timestamp 100 0) r sample_tc"
      "matched_writers r = bm_insert sample_writer sample_wp bm_empty" "r_reliability r \<noteq> BestEffort" "\<not> r_like_stateless r"
    by (rule sample_reader_reach)
  have "handle_heartbeat_msg sample_ext (sample_heartbeat 1 i64_max) True sample_mrs r sample_tc = None"
    using sample_source r(2)
    by (intro heartbeat_to_last_never_returns [OF ext_ok_sample samples_ok_none r(1,3,4), where wp = sample_wp])
      (simp_all add: sample_heartbeat_def sample_wp_def wp_new_def in_i64_def i64_min_def i64_max_def)
  with r(1) show ?thesis by blast
qed

text \<open>Pre-emptive acknowledgements are never sent. The request for an early heartbeat goes to proxies
  that have received nothing, which the code recognises by an acknowledgement base of 0; in every
  reachable state the base is at least 1, so that the operation does nothing.\<close>

theorem preemptive_acknacks_never_sent:
  assumes "ext_ok x" and "samples_ok S" and "reader_reach x S told now r tc"
  shows "send_preemptive_acknacks x r = (r, [])"
  using preemptive_none [of "matched_writers r" x r] reader_invD(5) [OF reader_reach_inv [OF assms(3,1,2)]]
  by (fastforce simp: send_preemptive_acknacks_def proxy_ok_def)

theorem preemptive_acknacks_never_sent_witness:
  "\<exists>r. bm_get (matched_writers r) sample_writer = Some sample_wp \<and> send_preemptive_acknacks sample_ext r = (r, [])"
proof -
  obtain r where r: "reader_reach sample_ext no_samples {} (Timestamp 100 0) r sample_tc"
      "matched_writers r = bm_insert sample_writer sample_wp bm_empty"
    by (rule sample_reader_reach)
  then show ?thesis
    using preemptive_acknacks_never_sent [OF ext_ok_sample samples_ok_none r(1)] by (intro exI [of _ r]) simp
qed

text \<open>Two samples that arrive at the same clock reading. The cache is keyed by the time of reception, so
  the second replaces the first. The reader has already noted the first as received: it will
  acknowledge it, ignore its repetition, and never hand it over.\<close>

theorem same_instant_sample_lost:
  assumes "ext_ok x" and "samples_ok S" and "reader_reach x S told now r tc" and "\<not> r_like_stateless r"
    and "bm_get (matched_writers r) g = Some wp" and "sn1 \<noteq> sn2"
    and "in_i64 sn1 \<and> sn1 < i64_max" and "in_i64 sn2 \<and> sn2 < i64_max"
    and "\<not> should_ignore_change wp sn1" and "\<not> should_ignore_change wp sn2"
    and "tc_index tc g sn1 = None" and "tc_index tc g sn2 = None"
  shows "\<exists>r1 tc1 r2 tc2 wp2. process_received_data now dv1 wo1 g sn1 r tc = Some (r1, tc1, [RE_Notify])
    \<and> process_received_data now dv2 wo2 g sn2 r1 tc1 = Some (r2, tc2, [RE_Notify])
    \<and> bm_get (matched_writers r2) g = Some wp2 \<and> should_ignore_change wp2 sn1 \<and> tc_index tc2 g sn1 = None"
proof -
  have inv: "reader_inv True S told now r tc" by (rule reader_reach_inv [OF assms(3,1,2)])
  have wp: "wp_inv wp" using reader_invD(5) [OF inv assms(5)] by (simp add: proxy_ok_def)
  define wp1 where "wp1 = received_changes_add wp sn1 now"
  define wp2 where "wp2 = received_changes_add wp1 sn2 now"
  define r1 where "r1 = r\<lparr>matched_writers := bm_insert g wp1 (matched_writers r)\<rparr>"
  define r2 where "r2 = r1\<lparr>matched_writers := bm_insert g wp2 (matched_writers r1)\<rparr>"
  have wp1: "wp_inv wp1" "wp_known wp1 = (\<lambda>y. wp_known wp y \<or> y = sn1)"
    using received_changes_add_spec [OF wp, of sn1 now] assms(7) by (simp_all add: wp1_def)
  have wp2: "wp_known wp2 = (\<lambda>y. wp_known wp1 y \<or> y = sn2)"
    using received_changes_add_spec(2) [OF wp1(1), of sn2 now] assms(8) by (simp add: wp2_def)
  have clock: "tc_inv tc" "gc_clock_ok now tc"
    using reader_invD(1,2) [OF inv] by (simp_all add: clock_ok_def)
  have new1: "tc_index tc (writer_guid (cc_new g sn1 wo1 dv1)) (sequence_number (cc_new g sn1 wo1 dv1)) = None"
    using assms(11) by simp
  obtain t1 where t1: "tc_add_change now now (cc_new g sn1 wo1 dv1) tc = Some t1" "tc_inv t1" "gc_clock_ok now t1"
      "tc_get_change t1 now = Some (cc_new g sn1 wo1 dv1)"
      "\<forall>ts c. ts \<noteq> now \<and> tc_get_change t1 ts = Some c \<longrightarrow> tc_get_change tc ts = Some c"
    by (rule tc_add_change_new [OF clock new1])
  define tc1 where "tc1 = snd (mark_reliably_received_before g (ack_base wp1) t1)"
  have tc1: "tc_inv tc1" "gc_clock_ok now tc1" "tc_get_change tc1 = tc_get_change t1" "tc_index tc1 = tc_index t1"
    using t1(2,3) by (simp_all add: tc1_def) (simp_all add: mark_reliably_received_before_def tc_get_change_def Let_def fun_eq_iff)
  have "tc_index tc1 g sn2 = None"
    unfolding tc1(4) using assms(6,12) by (intro add_change_index [OF clock(1) t1(2,4,5)]) simp_all
  then have new2: "tc_index tc1 (writer_guid (cc_new g sn2 wo2 dv2)) (sequence_number (cc_new g sn2 wo2 dv2)) = None" by simp
  obtain t2 where t2: "tc_add_change now now (cc_new g sn2 wo2 dv2) tc1 = Some t2" "tc_inv t2" "gc_clock_ok now t2"
      "tc_get_change t2 now = Some (cc_new g sn2 wo2 dv2)"
      "\<forall>ts c. ts \<noteq> now \<and> tc_get_change t2 ts = Some c \<longrightarrow> tc_get_change tc1 ts = Some c"
    by (rule tc_add_change_new [OF tc1(1,2) new2])
  define tc2 where "tc2 = snd (mark_reliably_received_before g (ack_base wp2) t2)"
  have "tc_index tc1 g sn1 = Some now"
    using tc_invD(2) [OF t1(2,4)] by (simp add: tc1(4))
  then have "tc_index t2 g sn1 = None"
    using assms(6) by (intro add_change_index [OF tc1(1) t2(2,4,5)]) simp_all
  then have "tc_index tc2 g sn1 = None"
    by (simp add: tc2_def tc_index_def mark_reliably_received_before_def Let_def)
  moreover have "process_received_data now dv1 wo1 g sn1 r tc = Some (r1, tc1, [RE_Notify])"
    using assms(4,5,9) t1(1)
    by (simp add: process_received_data_def store_and_notify_def make_cache_change_def all_ackable_before_def r1_def tc1_def flip: wp1_def)
  moreover have "process_received_data now dv2 wo2 g sn2 r1 tc1 = Some (r2, tc2, [RE_Notify])"
    using assms(4,6,10) t2(1) wp1(2)
    by (simp add: process_received_data_def store_and_notify_def make_cache_change_def all_ackable_before_def r1_def r2_def tc2_def
        should_ignore_change_iff flip: wp2_def)
  moreover have "bm_get (matched_writers r2) g = Some wp2" "should_ignore_change wp2 sn1"
    by (simp_all add: r2_def should_ignore_change_iff wp1(2) wp2)
  ultimately show ?thesis by blast
qed

theorem same_instant_sample_lost_witness:
  "\<exists>r r1 tc1 r2 tc2 wp2. reader_reach sample_ext no_samples {} (Timestamp 100 0) r sample_tc
     \<and> process_received_data (Timestamp 100 0) (data_value sample_change) (write_options sample_change) sample_writer 1 r sample_tc
         = Some (r1, tc1, [RE_Notify])
     \<and> process_received_data (Timestamp 100 0) (data_value sample_change) (write_options sample_change) sample_writer 2 r1 tc1
         = Some (r2, tc2, [RE_Notify])
     \<and> bm_get (matched_writers r2) sample_writer = Some wp2 \<and> should_ignore_change wp2 1 \<and> tc_index tc2 sample_writer 1 = None"
proof -
  obtain r where r: "reader_reach sample_ext no_samples {} (Timestamp 100 0) r sample_tc"
      "matched_writers r = bm_insert sample_writer sample_wp bm_empty" "r_reliability r \<noteq> BestEffort" "\<not> r_like_stateless r"
    by (rule sample_reader_reach)
  have empty: "tc_index sample_tc g sn = None" for g sn
    by (simp add: sample_tc_def tc_new_def update_keep_limits_def tc_index_def Let_def)
  have unknown: "\<not> should_ignore_change sample_wp 1" "\<not> should_ignore_change sample_wp 2"
    by (simp_all add: should_ignore_change_iff sample_wp_def wp_known_new)
  have rng: "in_i64 1 \<and> 1 < i64_max" "in_i64 2 \<and> 2 < i64_max"
    by (simp_all add: in_i64_def i64_min_def i64_max_def)
  have get: "bm_get (matched_writers r) sample_writer = Some sample_wp" and ne: "(1 :: seqnum) \<noteq> 2" by (simp_all add: r(2))
  from same_instant_sample_lost [OF ext_ok_sample samples_ok_none r(1,4) get ne rng unknown empty empty] r(1)
  show ?thesis by blast
qed

end
