(* ===== verification/Message_Receiver.thy ===== *)
theory Message_Receiver
  imports Reader_Proxy Reader_Delivery
begin

text \<open>
  The interpreter of received messages (src/src/rtps/message_receiver.rs), in the build without the
  security feature. Its state are the fields of the receiver, with two more: the topic caches that
  the readers reach through shared handles, by topic name, and the number of clock readings made so
  far (\<open>clock n\<close> is the \<open>n\<close>-th reading). What goes to the channels and what the readers do are
  effects, in order. \<^const>\<open>None\<close> is a panic or a loop that does not end.

  Shown here: a message for another participant has no effect; a participant survives every message
  with valid contents, whatever readers share the caches; how readers that share a cache disturb
  each other.
\<close>

section \<open>The receiver\<close>

record message_receiver =
  available_readers :: "(entity_id, rtps_reader) btree_map"
  own_guid_prefix :: guid_prefix
  source_version :: protocol_version
  source_vendor_id :: "u8 \<times> u8"
  source_guid_prefix :: guid_prefix
  dest_guid_prefix :: guid_prefix
  unicast_reply_locator_list :: "locator list"
  multicast_reply_locator_list :: "locator list"
  mr_source_timestamp :: "timestamp option"
  submessage_count :: nat
  topic_caches :: dds_cache
  clock_reads :: nat

datatype receiver_effect =
    RX_Reader entity_id reader_effect
  | RX_AckNack guid_prefix ack_submessage
  | RX_SpdpLiveness guid_prefix

type_synonym receiver_result = "(message_receiver \<times> receiver_effect list) option"

definition P2P_BUILTIN_PARTICIPANT_STATELESS_WRITER :: entity_id where
  "P2P_BUILTIN_PARTICIPANT_STATELESS_WRITER = EntityId (0, 2, 1) 0xC3"

definition P2P_BUILTIN_PARTICIPANT_STATELESS_READER :: entity_id where
  "P2P_BUILTIN_PARTICIPANT_STATELESS_READER = EntityId (0, 2, 1) 0xC4"

definition VENDOR_UNKNOWN :: "u8 \<times> u8" where
  "VENDOR_UNKNOWN = (0, 0)"

definition mr_new :: "guid_prefix \<Rightarrow> message_receiver" where
  "mr_new p = \<lparr>available_readers = bm_empty, own_guid_prefix = p, source_version = PROTOCOLVERSION_THIS,
     source_vendor_id = VENDOR_UNKNOWN, source_guid_prefix = GuidPrefix_UNKNOWN, dest_guid_prefix = GuidPrefix_UNKNOWN,
     unicast_reply_locator_list = [Locator_Invalid], multicast_reply_locator_list = [Locator_Invalid],
     mr_source_timestamp = None, submessage_count = 0, topic_caches = [], clock_reads = 0\<rparr>"

definition mr_reset :: "message_receiver \<Rightarrow> message_receiver" where
  "mr_reset mr = mr\<lparr>source_version := PROTOCOLVERSION_THIS, source_vendor_id := VENDOR_UNKNOWN,
     source_guid_prefix := GuidPrefix_UNKNOWN, dest_guid_prefix := GuidPrefix_UNKNOWN,
     unicast_reply_locator_list := [], multicast_reply_locator_list := [], mr_source_timestamp := None,
     submessage_count := 0\<rparr>"

definition clone_partial_message_receiver_state :: "message_receiver \<Rightarrow> message_receiver_state" where
  "clone_partial_message_receiver_state mr = \<lparr>mrs_source_guid_prefix = source_guid_prefix mr,
     mrs_unicast_reply_locator_list = unicast_reply_locator_list mr,
     mrs_multicast_reply_locator_list = multicast_reply_locator_list mr,
     mrs_source_timestamp = mr_source_timestamp mr\<rparr>"

definition add_reader :: "rtps_reader \<Rightarrow> message_receiver \<Rightarrow> message_receiver" where
  "add_reader r mr =
     (if bm_contains (available_readers mr) (r_entity_id r) then mr
      else mr\<lparr>available_readers := bm_insert (r_entity_id r) r (available_readers mr)\<rparr>)"

definition remove_reader :: "guid \<Rightarrow> message_receiver \<Rightarrow> rtps_reader option \<times> message_receiver" where
  "remove_reader g mr =
     (bm_get (available_readers mr) (guid_entity_id g),
      mr\<lparr>available_readers := bm_remove (guid_entity_id g) (available_readers mr)\<rparr>)"

section \<open>Submessages of writers\<close>

fun receiver_entity_id :: "writer_submessage \<Rightarrow> entity_id" where
  "receiver_entity_id (WS_Data d _) = d_reader_id d"
| "receiver_entity_id (WS_DataFrag d _) = df_reader_id d"
| "receiver_entity_id (WS_Gap gp _) = gap_reader_id gp"
| "receiver_entity_id (WS_Heartbeat hb _) = hb_reader_id hb"
| "receiver_entity_id (WS_HeartbeatFrag hbf _) = hbf_reader_id hbf"

fun sender_entity_id :: "writer_submessage \<Rightarrow> entity_id" where
  "sender_entity_id (WS_Data d _) = d_writer_id d"
| "sender_entity_id (WS_DataFrag d _) = df_writer_id d"
| "sender_entity_id (WS_Gap gp _) = gap_writer_id gp"
| "sender_entity_id (WS_Heartbeat hb _) = hb_writer_id hb"
| "sender_entity_id (WS_HeartbeatFrag hbf _) = hbf_writer_id hbf"

definition not_for_us :: "message_receiver \<Rightarrow> bool" where
  "not_for_us mr \<longleftrightarrow> dest_guid_prefix mr \<noteq> own_guid_prefix mr \<and> dest_guid_prefix mr \<noteq> GuidPrefix_UNKNOWN"

definition decode_and_handle_datafrag ::
    "ext \<Rightarrow> timestamp \<Rightarrow> data_frag \<Rightarrow> u8 \<Rightarrow> message_receiver_state \<Rightarrow> rtps_reader \<Rightarrow> topic_cache \<Rightarrow> reader_result" where
  "decode_and_handle_datafrag x now d flags mrs r tc =
     (if length (df_serialized_payload d) > unat (fragments_in_submessage d) * unat (fragment_size d)
      then Some (r, tc, []) else handle_datafrag_msg x now d flags mrs r tc)"

text \<open>The branches of the dispatch, on the target reader and its topic cache.\<close>

fun dispatch_to_reader ::
    "ext \<Rightarrow> timestamp \<Rightarrow> writer_submessage \<Rightarrow> message_receiver_state \<Rightarrow> rtps_reader \<Rightarrow> topic_cache \<Rightarrow> reader_result" where
  "dispatch_to_reader x now (WS_Data d flags) mrs r tc = handle_data_msg x now d flags mrs r tc"
| "dispatch_to_reader x now (WS_Heartbeat hb flags) mrs r tc =
     map_option (\<lambda>(_, r', tc', es). (r', tc', es))
       (handle_heartbeat_msg x hb (flags_contains x flags HEARTBEAT_Final) mrs r tc)"
| "dispatch_to_reader x now (WS_Gap gp flags) mrs r tc = handle_gap_msg gp mrs r tc"
| "dispatch_to_reader x now (WS_DataFrag d flags) mrs r tc = decode_and_handle_datafrag x now d flags mrs r tc"
| "dispatch_to_reader x now (WS_HeartbeatFrag hbf flags) mrs r tc = handle_heartbeatfrag_msg hbf mrs r tc"

fun is_data :: "writer_submessage \<Rightarrow> bool" where
  "is_data (WS_Data _ _) = True"
| "is_data _ = False"

definition handle_writer_submessage ::
    "ext \<Rightarrow> (nat \<Rightarrow> timestamp) \<Rightarrow> entity_id \<Rightarrow> writer_submessage \<Rightarrow> message_receiver \<Rightarrow> receiver_result" where
  "handle_writer_submessage x clock target sm mr =
     (if not_for_us mr then Some (mr, [])
      else let mrs = clone_partial_message_receiver_state mr
        in case bm_get (available_readers mr) target of
             None \<Rightarrow> Some (mr, [])
           | Some r \<Rightarrow>
               do { tc \<leftarrow> map_of (topic_caches mr) (r_topic_name r);
                    (r', tc', es) \<leftarrow> dispatch_to_reader x (clock (clock_reads mr)) sm mrs r tc;
                    Some (mr\<lparr>available_readers := bm_insert target r' (available_readers mr),
                            topic_caches := AList.update (r_topic_name r) tc' (topic_caches mr),
                            clock_reads := clock_reads mr + 1\<rparr>,
                          map (RX_Reader target) es
                          @ (if is_data sm \<and> sender_entity_id sm = SPDP_BUILTIN_PARTICIPANT_WRITER
                                \<and> target = SPDP_BUILTIN_PARTICIPANT_READER
                             then [RX_SpdpLiveness (mrs_source_guid_prefix mrs)] else [])) })"

section \<open>Submessages of readers and of the interpreter\<close>

text \<open>The channel to the writers is not full.\<close>

definition handle_reader_submessage :: "reader_submessage \<Rightarrow> message_receiver \<Rightarrow> receiver_effect list" where
  "handle_reader_submessage sm mr =
     (if not_for_us mr then []
      else case sm of
             RS_AckNack an _ \<Rightarrow> [RX_AckNack (source_guid_prefix mr) (Ack_AckNack an)]
           | RS_NackFrag _ _ \<Rightarrow> [])"

abbreviation INFOREPLY_Multicast :: u8 where "INFOREPLY_Multicast \<equiv> 2"

fun handle_interpreter_submessage :: "ext \<Rightarrow> interpreter_submessage \<Rightarrow> message_receiver \<Rightarrow> message_receiver" where
  "handle_interpreter_submessage x (IS_InfoTimestamp ts _) mr = mr\<lparr>mr_source_timestamp := ts\<rparr>"
| "handle_interpreter_submessage x (IS_InfoSource src _) mr =
     mr\<lparr>source_guid_prefix := is_guid_prefix src, source_version := is_protocol_version src,
       source_vendor_id := is_vendor_id src, unicast_reply_locator_list := [], multicast_reply_locator_list := [],
       mr_source_timestamp := None\<rparr>"
| "handle_interpreter_submessage x (IS_InfoReply ir flags) mr =
     mr\<lparr>unicast_reply_locator_list := ir_unicast_locator_list ir,
       multicast_reply_locator_list :=
         (case (flags_contains x flags INFOREPLY_Multicast, ir_multicast_locator_list ir) of
            (True, Some ll) \<Rightarrow> ll
          | _ \<Rightarrow> [])\<rparr>"
| "handle_interpreter_submessage x (IS_InfoDestination p _) mr =
     mr\<lparr>dest_guid_prefix := (if p = guid_prefix GUID_UNKNOWN then own_guid_prefix mr else p)\<rparr>"

section \<open>Messages\<close>

text \<open>The readers to try when a writer submessage names none.\<close>

definition target_reader :: "entity_id \<Rightarrow> rtps_reader \<Rightarrow> bool" where
  "target_reader sender r \<longleftrightarrow> contains_writer r sender
     \<or> sender = SPDP_BUILTIN_PARTICIPANT_WRITER \<and> r_entity_id r = SPDP_BUILTIN_PARTICIPANT_READER
     \<or> sender = P2P_BUILTIN_PARTICIPANT_STATELESS_WRITER \<and> r_entity_id r = P2P_BUILTIN_PARTICIPANT_STATELESS_READER"

definition available_target_entity_ids :: "entity_id \<Rightarrow> message_receiver \<Rightarrow> entity_id list" where
  "available_target_entity_ids sender mr = map r_entity_id (filter (target_reader sender) (bm_values (available_readers mr)))"

fun handle_for_targets ::
    "ext \<Rightarrow> (nat \<Rightarrow> timestamp) \<Rightarrow> entity_id list \<Rightarrow> writer_submessage \<Rightarrow> message_receiver \<Rightarrow> receiver_result" where
  "handle_for_targets x clock [] sm mr = Some (mr, [])"
| "handle_for_targets x clock (t # ts) sm mr =
     do { (mr1, es1) \<leftarrow> handle_writer_submessage x clock t sm mr;
          (mr2, es2) \<leftarrow> handle_for_targets x clock ts sm mr1;
          Some (mr2, es1 @ es2) }"

definition handle_submessage :: "ext \<Rightarrow> (nat \<Rightarrow> timestamp) \<Rightarrow> submessage \<Rightarrow> message_receiver \<Rightarrow> receiver_result" where
  "handle_submessage x clock sm mr =
     (case sm_body sm of
        SB_Interpreter m \<Rightarrow> Some (handle_interpreter_submessage x m mr, [])
      | SB_Writer w \<Rightarrow>
          if receiver_entity_id w = EntityId_UNKNOWN
          then handle_for_targets x clock (available_target_entity_ids (sender_entity_id w) mr) w mr
          else handle_writer_submessage x clock (receiver_entity_id w) w mr
      | SB_Reader m \<Rightarrow> Some (mr, handle_reader_submessage m mr))"

fun handle_submessages :: "ext \<Rightarrow> (nat \<Rightarrow> timestamp) \<Rightarrow> submessage list \<Rightarrow> message_receiver \<Rightarrow> receiver_result" where
  "handle_submessages x clock [] mr = Some (mr, [])"
| "handle_submessages x clock (sm # sms) mr =
     do { (mr1, es1) \<leftarrow> handle_submessage x clock sm mr;
          (mr2, es2) \<leftarrow> handle_submessages x clock sms (mr1\<lparr>submessage_count := submessage_count mr1 + 1\<rparr>);
          Some (mr2, es1 @ es2) }"

definition handle_parsed_message :: "ext \<Rightarrow> (nat \<Rightarrow> timestamp) \<Rightarrow> message \<Rightarrow> message_receiver \<Rightarrow> receiver_result" where
  "handle_parsed_message x clock m mr =
     handle_submessages x clock (submessages m)
       ((mr_reset mr)\<lparr>dest_guid_prefix := own_guid_prefix mr, source_guid_prefix := h_guid_prefix (msg_header m),
          source_version := h_protocol_version (msg_header m), source_vendor_id := h_vendor_id (msg_header m)\<rparr>)"

definition RTPS_MESSAGE_HEADER_SIZE :: nat where
  "RTPS_MESSAGE_HEADER_SIZE = 20"

definition handle_received_packet :: "ext \<Rightarrow> (nat \<Rightarrow> timestamp) \<Rightarrow> bytes \<Rightarrow> message_receiver \<Rightarrow> receiver_result" where
  "handle_received_packet x clock msg_bytes mr =
     (if length msg_bytes < RTPS_MESSAGE_HEADER_SIZE then Some (mr, [])
      else case read_message x msg_bytes of
             Ok m \<Rightarrow> handle_parsed_message x clock m mr
           | Err \<Rightarrow> Some (mr, [])
           | Panic \<Rightarrow> None)"

definition notify_data_to_readers :: "entity_id list \<Rightarrow> message_receiver \<Rightarrow> receiver_effect list" where
  "notify_data_to_readers eids mr =
     map (\<lambda>eid. RX_Reader eid RE_Notify) (filter (bm_contains (available_readers mr)) eids)"

definition mr_send_preemptive_acknacks :: "ext \<Rightarrow> message_receiver \<Rightarrow> message_receiver \<times> receiver_effect list" where
  "mr_send_preemptive_acknacks x mr =
     (mr\<lparr>available_readers := bm_map (\<lambda>_ r. fst (send_preemptive_acknacks x r)) (available_readers mr)\<rparr>,
      concat (map (\<lambda>(eid, r). map (RX_Reader eid) (snd (send_preemptive_acknacks x r))) (bm_entries (available_readers mr))))"

section \<open>Messages for another participant\<close>

definition no_info_destination :: "submessage list \<Rightarrow> bool" where
  "no_info_destination sms \<longleftrightarrow>
     (\<forall>sm \<in> set sms. case sm_body sm of SB_Interpreter (IS_InfoDestination _ _) \<Rightarrow> False | _ \<Rightarrow> True)"

definition same_readers :: "message_receiver \<Rightarrow> message_receiver \<Rightarrow> bool" where
  "same_readers mr mr' \<longleftrightarrow> available_readers mr' = available_readers mr \<and> topic_caches mr' = topic_caches mr
     \<and> clock_reads mr' = clock_reads mr"

lemma targets_not_for_us: "not_for_us mr \<Longrightarrow> handle_for_targets x clock ts sm mr = Some (mr, [])"
  by (induction ts) (simp_all add: handle_writer_submessage_def)

lemma submessage_not_for_us:
  assumes "not_for_us mr" and "no_info_destination [sm]"
  shows "\<exists>mr'. handle_submessage x clock sm mr = Some (mr', []) \<and> same_readers mr mr' \<and> not_for_us mr'"
proof (cases "sm_body sm")
  case (SB_Interpreter m)
  then show ?thesis
    using assms by (cases m) (auto simp: handle_submessage_def no_info_destination_def same_readers_def not_for_us_def)
qed (use assms in \<open>auto simp: handle_submessage_def handle_writer_submessage_def handle_reader_submessage_def
      targets_not_for_us same_readers_def\<close>)

lemma submessages_not_for_us:
  assumes "not_for_us mr" and "no_info_destination sms"
  shows "\<exists>mr'. handle_submessages x clock sms mr = Some (mr', []) \<and> same_readers mr mr'"
  using assms
proof (induction sms arbitrary: mr)
  case (Cons sm sms)
  have "no_info_destination [sm]" "no_info_destination sms"
    using Cons.prems(2) by (simp_all add: no_info_destination_def)
  then obtain mr1 where mr1: "handle_submessage x clock sm mr = Some (mr1, [])" "same_readers mr mr1" "not_for_us mr1"
    using submessage_not_for_us [OF Cons.prems(1)] by blast
  have "not_for_us (mr1\<lparr>submessage_count := submessage_count mr1 + 1\<rparr>)"
    using mr1(3) by (simp add: not_for_us_def)
  from Cons.IH [OF this \<open>no_info_destination sms\<close>] mr1(1,2) show ?case
    by (auto simp: same_readers_def)
qed (simp add: same_readers_def)

section \<open>Valid messages\<close>

definition reader_ok :: "sent_samples \<Rightarrow> rtps_reader \<Rightarrow> bool" where
  "reader_ok S r \<longleftrightarrow> assemblers_ok S r \<and> (\<forall>g wp. bm_get (matched_writers r) g = Some wp \<longrightarrow>
     wp_inv wp \<and> 1 \<le> ack_base wp \<and> remote_writer_guid wp = g)"

definition cache_ok :: "timestamp \<Rightarrow> topic_cache \<Rightarrow> bool" where
  "cache_ok now tc \<longleftrightarrow> tc_inv tc \<and> clock_ok now tc \<and> (\<forall>g. 1 \<le> reliable_before tc g)"

lemma reader_inv_shared: "reader_inv False S UNIV now r tc \<longleftrightarrow> cache_ok now tc \<and> reader_ok S r"
  by (auto simp: reader_inv_def cache_ok_def reader_ok_def markers_ok_def proxy_ok_def)

text \<open>
  The invariant of a participant: each reader is sound and has its topic cache, and the caches are
  sound. Nothing is assumed of how the readers that share a cache relate to each other.
\<close>

definition mr_inv :: "sent_samples \<Rightarrow> timestamp \<Rightarrow> message_receiver \<Rightarrow> bool" where
  "mr_inv S now mr \<longleftrightarrow>
     (\<forall>eid r. bm_get (available_readers mr) eid = Some r \<longrightarrow> reader_ok S r \<and> map_of (topic_caches mr) (r_topic_name r) \<noteq> None)
     \<and> (\<forall>name tc. map_of (topic_caches mr) name = Some tc \<longrightarrow> cache_ok now tc)"

lemma cache_ok_later: "cache_ok now tc \<Longrightarrow> now \<le> now' \<Longrightarrow> cache_ok now' tc"
  using ts_sub_secs_mono [of now now'] by (auto simp: cache_ok_def clock_ok_def gc_clock_ok_def elim: order_trans)

lemma mr_inv_later: "mr_inv S now mr \<Longrightarrow> now \<le> now' \<Longrightarrow> mr_inv S now' mr"
  using cache_ok_later by (fastforce simp: mr_inv_def)

text \<open>The submessages of a message, with the prefix of the source that they come from.\<close>

fun event_of :: "ext \<Rightarrow> writer_submessage \<Rightarrow> message_receiver_state \<Rightarrow> reader_event" where
  "event_of x (WS_Data d flags) mrs = RV_Data d flags mrs"
| "event_of x (WS_Heartbeat hb flags) mrs = RV_Heartbeat hb (flags_contains x flags HEARTBEAT_Final) mrs"
| "event_of x (WS_Gap gp flags) mrs = RV_Gap gp mrs"
| "event_of x (WS_DataFrag d flags) mrs = RV_DataFrag d flags mrs"
| "event_of x (WS_HeartbeatFrag hbf flags) mrs = RV_HeartbeatFrag hbf mrs"

definition writer_submessage_ok :: "ext \<Rightarrow> sent_samples \<Rightarrow> guid_prefix \<Rightarrow> writer_submessage \<Rightarrow> bool" where
  "writer_submessage_ok x S p w \<longleftrightarrow> (\<forall>mrs. mrs_source_guid_prefix mrs = p \<longrightarrow> reader_event_ok S (event_of x w mrs))"

fun submessages_ok :: "ext \<Rightarrow> sent_samples \<Rightarrow> guid_prefix \<Rightarrow> submessage list \<Rightarrow> bool" where
  "submessages_ok x S p [] \<longleftrightarrow> True"
| "submessages_ok x S p (sm # sms) \<longleftrightarrow>
     (case sm_body sm of
        SB_Writer w \<Rightarrow> writer_submessage_ok x S p w \<and> submessages_ok x S p sms
      | SB_Interpreter (IS_InfoSource src _) \<Rightarrow> submessages_ok x S (is_guid_prefix src) sms
      | _ \<Rightarrow> submessages_ok x S p sms)"

lemma dispatch_step:
  "dispatch_to_reader x now w mrs r tc = reader_step x now (event_of x w mrs) r tc \<or> dispatch_to_reader x now w mrs r tc = Some (r, tc, [])"
  by (cases w) (auto simp: decode_and_handle_datafrag_def)

lemma process_received_topic:
  "process_received_data now dv wo g sn r tc = Some (r', tc', es) \<Longrightarrow> r_topic_name r' = r_topic_name r"
  by (auto simp: process_received_data_def store_and_notify_def split: if_splits option.splits)

lemma step_topic:
  assumes "reader_step x now (event_of x w mrs) r tc = Some (r', tc', es)"
  shows "r_topic_name r' = r_topic_name r"
proof (cases w)
  case (WS_Data d flags)
  then show ?thesis
    using assms by (auto simp: handle_data_msg_def dest: process_received_topic split: option.splits)
next
  case (WS_DataFrag d flags)
  then show ?thesis
    using assms by (auto simp: handle_datafrag_msg_def garbage_collect_fragments_def Let_def bind_eq_Some_conv
        dest!: process_received_topic split: if_splits option.splits)
next
  case (WS_Gap gp flags)
  then show ?thesis
    using assms by (auto simp: handle_gap_msg_def split_beta Let_def bind_eq_Some_conv split: if_splits option.splits)
next
  case (WS_Heartbeat hb flags)
  then show ?thesis
    using assms by (auto simp: handle_heartbeat_msg_def split_beta Let_def bind_eq_Some_conv split: if_splits option.splits)
qed (use assms in \<open>auto simp: handle_heartbeatfrag_msg_def\<close>)

lemma dispatch_ok:
  assumes x: "ext_ok x" and S: "samples_ok S" and r: "reader_ok S r" and tc: "cache_ok now tc"
    and w: "writer_submessage_ok x S (mrs_source_guid_prefix mrs) w"
  shows "\<exists>r' tc' es. dispatch_to_reader x now w mrs r tc = Some (r', tc', es) \<and> reader_ok S r' \<and> cache_ok now tc'
    \<and> r_topic_name r' = r_topic_name r"
proof (cases "dispatch_to_reader x now w mrs r tc = Some (r, tc, [])")
  case False
  then have eq: "dispatch_to_reader x now w mrs r tc = reader_step x now (event_of x w mrs) r tc"
    using dispatch_step by blast
  have "reader_inv False S UNIV now r tc" using r tc by (simp add: reader_inv_shared)
  moreover have "reader_event_ok S (event_of x w mrs)" using w by (simp add: writer_submessage_ok_def)
  ultimately obtain r' tc' es where "reader_step x now (event_of x w mrs) r tc = Some (r', tc', es)" "reader_inv False S UNIV now r' tc'"
    using reader_step_ok [OF x S, of False UNIV now r tc "event_of x w mrs"] by (auto simp: keeps_def)
  with eq step_topic show ?thesis by (auto simp: reader_inv_shared)
qed (use r tc in simp)

text \<open>The receiver survives, later in time, with the same source.\<close>

definition mr_keeps :: "sent_samples \<Rightarrow> (nat \<Rightarrow> timestamp) \<Rightarrow> guid_prefix \<Rightarrow> receiver_result \<Rightarrow> bool" where
  "mr_keeps S clock p res \<longleftrightarrow>
     (\<exists>mr es. res = Some (mr, es) \<and> mr_inv S (clock (clock_reads mr)) mr \<and> source_guid_prefix mr = p)"

lemma handle_writer_submessage_ok:
  assumes x: "ext_ok x" and S: "samples_ok S" and clock: "mono clock"
    and inv: "mr_inv S (clock (clock_reads mr)) mr" and w: "writer_submessage_ok x S (source_guid_prefix mr) w"
  shows "mr_keeps S clock (source_guid_prefix mr) (handle_writer_submessage x clock target w mr)"
proof (cases "not_for_us mr \<or> bm_get (available_readers mr) target = None")
  case True
  then show ?thesis
    using inv by (auto simp: handle_writer_submessage_def mr_keeps_def)
next
  case False
  then obtain r tc where r: "bm_get (available_readers mr) target = Some r" "reader_ok S r"
      and tc: "map_of (topic_caches mr) (r_topic_name r) = Some tc" "cache_ok (clock (clock_reads mr)) tc"
    using inv unfolding mr_inv_def by (metis not_None_eq)
  let ?mrs = "clone_partial_message_receiver_state mr"
  have "mrs_source_guid_prefix ?mrs = source_guid_prefix mr" by (simp add: clone_partial_message_receiver_state_def)
  then obtain r' tc' es where h: "dispatch_to_reader x (clock (clock_reads mr)) w ?mrs r tc = Some (r', tc', es)"
      "reader_ok S r'" "cache_ok (clock (clock_reads mr)) tc'" "r_topic_name r' = r_topic_name r"
    using dispatch_ok [OF x S r(2) tc(2), of ?mrs w] w by auto
  let ?mr = "mr\<lparr>available_readers := bm_insert target r' (available_readers mr),
      topic_caches := AList.update (r_topic_name r) tc' (topic_caches mr), clock_reads := clock_reads mr + 1\<rparr>"
  have "mr_inv S (clock (clock_reads mr)) ?mr"
    using inv h(2-4) tc(1) unfolding mr_inv_def by (auto simp: update_conv' split: if_splits)
  then have "mr_inv S (clock (clock_reads ?mr)) ?mr"
    by (rule mr_inv_later) (simp add: monoD [OF clock])
  then show ?thesis
    using False r(1) tc(1) h(1) by (simp add: handle_writer_submessage_def mr_keeps_def Let_def)
qed

lemma handle_for_targets_ok:
  assumes x: "ext_ok x" and S: "samples_ok S" and clock: "mono clock"
    and "mr_inv S (clock (clock_reads mr)) mr" and "writer_submessage_ok x S (source_guid_prefix mr) w"
  shows "mr_keeps S clock (source_guid_prefix mr) (handle_for_targets x clock ts w mr)"
  using assms(4,5)
proof (induction ts arbitrary: mr)
  case (Cons t ts)
  obtain mr1 es1 where mr1: "handle_writer_submessage x clock t w mr = Some (mr1, es1)"
      "mr_inv S (clock (clock_reads mr1)) mr1" "source_guid_prefix mr1 = source_guid_prefix mr"
    using handle_writer_submessage_ok [OF x S clock Cons.prems, of t] by (auto simp: mr_keeps_def)
  from Cons.IH [OF mr1(2)] Cons.prems(2) mr1 show ?case
    by (auto simp: mr_keeps_def)
qed (auto simp: mr_keeps_def)

lemma handle_submessages_ok:
  assumes x: "ext_ok x" and S: "samples_ok S" and clock: "mono clock"
    and "mr_inv S (clock (clock_reads mr)) mr" and "submessages_ok x S (source_guid_prefix mr) sms"
  shows "\<exists>mr' es. handle_submessages x clock sms mr = Some (mr', es) \<and> mr_inv S (clock (clock_reads mr')) mr'"
  using assms(4,5)
proof (induction sms arbitrary: mr)
  case (Cons sm sms)
  obtain mr1 es1 where mr1: "handle_submessage x clock sm mr = Some (mr1, es1)"
      "mr_inv S (clock (clock_reads mr1)) mr1" "submessages_ok x S (source_guid_prefix mr1) sms"
  proof (cases "sm_body sm")
    case (SB_Writer w)
    then have "writer_submessage_ok x S (source_guid_prefix mr) w" "submessages_ok x S (source_guid_prefix mr) sms"
      using Cons.prems(2) by simp_all
    then have "mr_keeps S clock (source_guid_prefix mr) (handle_submessage x clock sm mr)"
      using SB_Writer handle_writer_submessage_ok [OF x S clock Cons.prems(1)] handle_for_targets_ok [OF x S clock Cons.prems(1)]
      by (simp add: handle_submessage_def)
    with \<open>submessages_ok x S (source_guid_prefix mr) sms\<close> that show thesis
      by (auto simp: mr_keeps_def)
  next
    case (SB_Reader m)
    then show thesis
      using Cons.prems that by (simp add: handle_submessage_def)
  next
    case (SB_Interpreter m)
    then show thesis
      using Cons.prems that [of "handle_interpreter_submessage x m mr" "[]"]
      by (cases m) (auto simp: handle_submessage_def mr_inv_def)
  qed
  let ?mr = "mr1\<lparr>submessage_count := submessage_count mr1 + 1\<rparr>"
  have "mr_inv S (clock (clock_reads ?mr)) ?mr" "submessages_ok x S (source_guid_prefix ?mr) sms"
    using mr1(2,3) by (simp_all add: mr_inv_def)
  from Cons.IH [OF this] mr1(1) show ?case by auto
qed auto

section \<open>Readers that share a cache\<close>

text \<open>A sample that a matched reader takes: it is in the cache, and the marker is the reader's base.\<close>

lemma process_new_sample:
  assumes wp: "bm_get (matched_writers r) g = Some wp" "\<not> r_like_stateless r" "\<not> should_ignore_change wp sn"
    and tc: "tc_inv tc" "gc_clock_ok now tc"
  obtains tc' where "process_received_data now dv wo g sn r tc =
      Some (r\<lparr>matched_writers := bm_insert g (received_changes_add wp sn now) (matched_writers r)\<rparr>, tc', [RE_Notify])"
    "tc_inv tc'" "gc_clock_ok now tc'" "tc_index tc' g sn \<noteq> None"
    "reliable_before tc' g = ack_base (received_changes_add wp sn now)"
proof -
  let ?wp = "received_changes_add wp sn now"
  let ?r = "r\<lparr>matched_writers := bm_insert g ?wp (matched_writers r)\<rparr>"
  obtain tc1 where tc1: "tc_inv tc1" "gc_clock_ok now tc1" "received_reliably_before tc1 = received_reliably_before tc"
      "tc_index tc1 g sn \<noteq> None"
      "make_cache_change now dv wo g sn ?r tc = Some (if r_like_stateless ?r then tc1
         else case bm_get (matched_writers ?r) g of
                Some wp \<Rightarrow> snd (mark_reliably_received_before g (ack_base wp) tc1) | None \<Rightarrow> tc1)"
    by (rule make_cache_change_spec [OF tc])
  let ?tc = "snd (mark_reliably_received_before g (ack_base ?wp) tc1)"
  have "tc_index ?tc = tc_index tc1"
    by (simp add: mark_reliably_received_before_def Let_def)
  moreover have "process_received_data now dv wo g sn r tc = Some (?r, ?tc, [RE_Notify])"
    using wp tc1(5) by (simp add: process_received_data_def store_and_notify_def)
  ultimately show thesis
    using tc1 by (intro that [of ?tc]) simp_all
qed

section \<open>Properties\<close>

text \<open>C35: A message for another participant. After an INFO_DST with another participant's prefix, nothing of
  the message reaches a reader, a topic cache or a writer, until a further INFO_DST.\<close>

theorem message_for_another_has_no_effect:
  assumes "submessages m = sm # sms" and "sm_body sm = SB_Interpreter (IS_InfoDestination p flags)"
    and "p \<noteq> own_guid_prefix mr" and "p \<noteq> GuidPrefix_UNKNOWN" and "no_info_destination sms"
  shows "\<exists>mr'. handle_parsed_message x clock m mr = Some (mr', []) \<and> available_readers mr' = available_readers mr
    \<and> topic_caches mr' = topic_caches mr"
proof -
  define mr1 where "mr1 = (mr_reset mr)\<lparr>source_guid_prefix := h_guid_prefix (msg_header m),
      source_version := h_protocol_version (msg_header m), source_vendor_id := h_vendor_id (msg_header m),
      dest_guid_prefix := p, submessage_count := 1\<rparr>"
  have "not_for_us mr1" using assms(3,4) by (simp add: mr1_def not_for_us_def mr_reset_def)
  then obtain mr' where "handle_submessages x clock sms mr1 = Some (mr', [])" "same_readers mr1 mr'"
    using submessages_not_for_us assms(5) by blast
  moreover have "handle_parsed_message x clock m mr = handle_submessages x clock sms mr1"
    using assms(2,4) by (simp add: handle_parsed_message_def assms(1) handle_submessage_def mr1_def mr_reset_def GUID_UNKNOWN_def
        split: bind_splits)
  ultimately show ?thesis
    by (simp add: same_readers_def mr1_def mr_reset_def)
qed

theorem message_for_another_has_no_effect_witness:
  "\<exists>mr'. handle_parsed_message sample_ext (\<lambda>_. Timestamp 100 0)
       \<lparr>msg_header = header_new sample_prefix,
        submessages = [info_destination_create_submessage sample_prefix 1,
          ack_nack_create_submessage \<lparr>an_reader_id = EntityId_UNKNOWN, an_writer_id = EntityId_UNKNOWN,
            reader_sn_state = ns_new_empty 3, an_count = 1\<rparr> 1]\<rparr> (mr_new GuidPrefix_UNKNOWN) = Some (mr', [])
     \<and> available_readers mr' = available_readers (mr_new GuidPrefix_UNKNOWN)
     \<and> topic_caches mr' = topic_caches (mr_new GuidPrefix_UNKNOWN)"
  by (rule message_for_another_has_no_effect [where flags = 1 and p = sample_prefix
        and sm = "info_destination_create_submessage sample_prefix 1"
        and sms = "[ack_nack_create_submessage \<lparr>an_reader_id = EntityId_UNKNOWN, an_writer_id = EntityId_UNKNOWN,
            reader_sn_state = ns_new_empty 3, an_count = 1\<rparr> 1]"])
    (simp_all add: info_destination_create_submessage_def ack_nack_create_submessage_def mk_submessage_def
      no_info_destination_def mr_new_def GuidPrefix_UNKNOWN_def sample_prefix_def eval_nat_numeral)

text \<open>C13: A participant survives every packet whose message has valid contents, and every packet that is not
  a message: no reader panics or loops, whichever readers share topic caches, and the participant is
  again in a state in which this holds.\<close>

theorem receiver_never_panics:
  assumes "ext_ok x" and "samples_ok S" and "mono clock" and "mr_inv S (clock (clock_reads mr)) mr"
    and "\<forall>m. read_message x packet = Ok m \<longrightarrow> submessages_ok x S (h_guid_prefix (msg_header m)) (submessages m)"
  shows "\<exists>mr' es. handle_received_packet x clock packet mr = Some (mr', es) \<and> mr_inv S (clock (clock_reads mr')) mr'"
proof (cases "length packet < RTPS_MESSAGE_HEADER_SIZE")
  case False
  show ?thesis
  proof (cases "read_message x packet")
    case (Ok m)
    let ?mr = "(mr_reset mr)\<lparr>dest_guid_prefix := own_guid_prefix mr, source_guid_prefix := h_guid_prefix (msg_header m),
        source_version := h_protocol_version (msg_header m), source_vendor_id := h_vendor_id (msg_header m)\<rparr>"
    have "mr_inv S (clock (clock_reads ?mr)) ?mr" "submessages_ok x S (source_guid_prefix ?mr) (submessages m)"
      using assms(4,5) Ok by (simp_all add: mr_inv_def mr_reset_def)
    from handle_submessages_ok [OF assms(1-3) this] False Ok show ?thesis
      by (simp add: handle_received_packet_def handle_parsed_message_def)
  qed (use False assms(4) read_message_no_panic [OF assms(1), of packet] in \<open>auto simp: handle_received_packet_def\<close>)
qed (use assms(4) in \<open>auto simp: handle_received_packet_def\<close>)

definition sample_receiver :: "rtps_reader \<Rightarrow> message_receiver" where
  "sample_receiver r = add_reader r ((mr_new GuidPrefix_UNKNOWN)\<lparr>topic_caches := [(''square'', sample_tc)]\<rparr>)"

lemma sample_receiver_inv:
  assumes "reader_reach sample_ext no_samples {} (Timestamp 100 0) r sample_tc" and "r_topic_name r = ''square''"
  shows "mr_inv no_samples (Timestamp 100 0) (sample_receiver r)"
proof -
  have "reader_inv True no_samples {} (Timestamp 100 0) r sample_tc"
    by (rule reader_reach_inv [OF assms(1) ext_ok_sample samples_ok_none])
  then have "reader_ok no_samples r" "cache_ok (Timestamp 100 0) sample_tc"
    by (auto simp: reader_inv_def reader_ok_def cache_ok_def markers_ok_def proxy_ok_def)
  then show ?thesis
    using assms(2) by (simp add: mr_inv_def sample_receiver_def add_reader_def mr_new_def)
qed

theorem receiver_never_panics_witness:
  "\<exists>r mr' es. mr_inv no_samples (Timestamp 100 0) (sample_receiver r)
     \<and> handle_received_packet sample_ext (\<lambda>_. Timestamp 100 0)
         (write_message sample_ext LittleEndian \<lparr>msg_header = header_new (guid_prefix sample_writer),
            submessages = [heartbeat_create_submessage sample_ext (sample_heartbeat 2 3) 1]\<rparr>) (sample_receiver r) = Some (mr', es)"
proof -
  let ?m = "\<lparr>msg_header = header_new (guid_prefix sample_writer),
      submessages = [heartbeat_create_submessage sample_ext (sample_heartbeat 2 3) 1]\<rparr>"
  obtain r where r: "reader_reach sample_ext no_samples {} (Timestamp 100 0) r sample_tc"
      "matched_writers r = bm_insert sample_writer sample_wp bm_empty" "r_reliability r \<noteq> BestEffort"
      "\<not> r_like_stateless r" "fragment_assemblers r = bm_empty" "r_my_guid r = GUID_UNKNOWN" "r_topic_name r = ''square''"
    by (rule sample_reader_reach)
  have inv: "mr_inv no_samples (Timestamp 100 0) (sample_receiver r)"
    by (rule sample_receiver_inv [OF r(1,7)])
  have "submessage_ok sample_ext (heartbeat_create_submessage sample_ext (sample_heartbeat 2 3) 1)"
    by (rule heartbeat_create_ok [OF ext_ok_sample])
      (simp_all add: heartbeat_ok_def sample_heartbeat_def in_i64_def in_i32_def i64_min_def i64_max_def)
  then have "read_message sample_ext (write_message sample_ext LittleEndian ?m) =
      Ok (?m\<lparr>submessages := map (received sample_ext) (submessages ?m)\<rparr>)"
    by (intro read_write_message [OF ext_ok_sample]) (simp_all add: sample_writer_def)
  moreover have "submessages_ok sample_ext no_samples p (map (received sample_ext) (submessages ?m))" for p
    by (simp add: received_def heartbeat_create_submessage_def mk_submessage_def writer_submessage_ok_def sample_heartbeat_def
        in_i64_def i64_min_def i64_max_def)
  ultimately have "\<exists>mr' es. handle_received_packet sample_ext (\<lambda>_. Timestamp 100 0) (write_message sample_ext LittleEndian ?m)
      (sample_receiver r) = Some (mr', es) \<and> mr_inv no_samples (Timestamp 100 0) mr'"
    using inv by (intro receiver_never_panics [OF ext_ok_sample samples_ok_none]) (simp_all add: monoI)
  with inv show ?thesis by blast
qed

text \<open>Readers that share a topic cache. The reliable marker of a writer belongs to the cache, and every
  reader of the topic sets it to its own base. A reader that joined late and has not got the first
  sample takes the marker back, and the samples that are ready for the other reader are no longer
  handed over.\<close>

theorem late_reader_hides_samples:
  assumes "reader_ok S r1" and "reader_ok S r2" and "cache_ok now1 tc" and "now1 \<le> now2"
    and "\<not> r_like_stateless r1" and "bm_get (matched_writers r1) g = Some wp1" and "all_ackable_before wp1 = sn"
    and "\<not> r_like_stateless r2" and "bm_get (matched_writers r2) g = Some wp2" and "all_ackable_before wp2 = 1"
    and "1 < sn" and "sn < i64_max" and "\<not> should_ignore_change wp2 sn"
  shows "\<exists>r1' tc1 r2' tc2 rs ts cc. process_received_data now1 dv wo g sn r1 tc = Some (r1', tc1, [RE_Notify])
    \<and> process_received_data now2 dv wo g sn r2 tc1 = Some (r2', tc2, [RE_Notify])
    \<and> get_changes_in_range_reliable tc1 bm_empty = Some rs \<and> (ts, cc) \<in> set rs \<and> writer_guid cc = g \<and> sequence_number cc = sn
    \<and> (\<exists>rs2. get_changes_in_range_reliable tc2 bm_empty = Some rs2 \<and> (\<forall>(ts, cc) \<in> set rs2. writer_guid cc \<noteq> g))"
proof -
  have tc: "tc_inv tc" "gc_clock_ok now1 tc" "Timestamp 5 0 \<le> now1"
    using assms(3) by (simp_all add: cache_ok_def clock_ok_def)
  have wp: "wp_inv wp1" "wp_inv wp2" and sn: "in_i64 sn"
    using assms(1,2,6,9,11,12) by (auto simp: reader_ok_def in_i64_def i64_min_def)
  have "\<not> should_ignore_change wp1 sn"
    using wpt.ack_law [OF wp(1)] assms(7) by (simp add: should_ignore_change_iff all_ackable_before_def)
  then obtain tc1 where tc1: "process_received_data now1 dv wo g sn r1 tc =
      Some (r1\<lparr>matched_writers := bm_insert g (received_changes_add wp1 sn now1) (matched_writers r1)\<rparr>, tc1, [RE_Notify])"
      "tc_inv tc1" "gc_clock_ok now1 tc1" "tc_index tc1 g sn \<noteq> None"
      "reliable_before tc1 g = ack_base (received_changes_add wp1 sn now1)"
    using process_new_sample [OF assms(6,5) _ tc(1,2)] by blast
  have "gc_clock_ok now2 tc1"
    using tc1(3) ts_sub_secs_mono [OF tc(3) assms(4)] by (auto simp: gc_clock_ok_def)
  then obtain tc2 where tc2: "process_received_data now2 dv wo g sn r2 tc1 =
      Some (r2\<lparr>matched_writers := bm_insert g (received_changes_add wp2 sn now2) (matched_writers r2)\<rparr>, tc2, [RE_Notify])"
      "tc_inv tc2" "reliable_before tc2 g = ack_base (received_changes_add wp2 sn now2)"
    using process_new_sample [OF assms(9,8,13) tc1(2)] by blast
  have "sn < reliable_before tc1 g"
  proof (rule ccontr)
    note spec = received_changes_add_spec [OF wp(1) sn assms(12), of now1]
    assume "\<not> sn < reliable_before tc1 g"
    then have "wp_known (received_changes_add wp1 sn now1) (ack_base (received_changes_add wp1 sn now1))"
      using assms(7) spec(2) tc1(5) wpt.ack_law [OF wp(1)] by (auto simp: all_ackable_before_def)
    then show False using wpt.ack_law [OF spec(1)] by simp
  qed
  moreover obtain ts cc where "tc_get_change tc1 ts = Some cc" "writer_guid cc = g" "sequence_number cc = sn"
    using tc1(4) tc_invD(1) [OF tc1(2)] by blast
  ultimately obtain rs where "get_changes_in_range_reliable tc1 bm_empty = Some rs" "(ts, cc) \<in> set rs"
      "writer_guid cc = g" "sequence_number cc = sn"
    using reliable_read_spec [OF tc1(2) last_read_empty(1)] assms(11) by (auto simp: last_read_empty)
  moreover have "reliable_before tc2 g = 1"
    using assms(10,11) tc2(3) by (simp add: received_changes_add_def all_ackable_before_def Let_def)
  then obtain rs2 where "get_changes_in_range_reliable tc2 bm_empty = Some rs2" "\<forall>(ts, cc) \<in> set rs2. writer_guid cc \<noteq> g"
    using reliable_read_spec [OF tc2(2) last_read_empty(1)] by (fastforce simp: last_read_empty)
  ultimately show ?thesis
    using tc1(1) tc2(1) by blast
qed

theorem late_reader_hides_samples_witness:
  "\<exists>r1 r2 tc r1' tc1 r2' tc2 rs ts cc. reader_reach sample_ext no_samples {(sample_writer, 1)} (Timestamp 100 0) r1 tc
     \<and> reader_reach sample_ext no_samples {} (Timestamp 100 0) r2 sample_tc
     \<and> process_received_data (Timestamp 101 0) (data_value sample_change) (write_options sample_change) sample_writer 2 r1 tc
         = Some (r1', tc1, [RE_Notify])
     \<and> process_received_data (Timestamp 101 0) (data_value sample_change) (write_options sample_change) sample_writer 2 r2 tc1
         = Some (r2', tc2, [RE_Notify])
     \<and> get_changes_in_range_reliable tc1 bm_empty = Some rs \<and> (ts, cc) \<in> set rs \<and> writer_guid cc = sample_writer \<and> sequence_number cc = 2
     \<and> (\<exists>rs2. get_changes_in_range_reliable tc2 bm_empty = Some rs2 \<and> (\<forall>(ts, cc) \<in> set rs2. writer_guid cc \<noteq> sample_writer))"
proof -
  obtain r1 tc wp1 ts cc where r1: "reader_reach sample_ext no_samples {(sample_writer, 1)} (Timestamp 100 0) r1 tc"
    "bm_get (matched_writers r1) sample_writer = Some wp1" "\<forall>y. 1 \<le> y \<and> y \<le> 1 \<longrightarrow> should_ignore_change wp1 y"
    "tc_get_change tc ts = Some cc" "writer_guid cc = sample_writer" "sequence_number cc = 1"
    "all_ackable_before wp1 = 2" "\<not> r_like_stateless r1"
    by (rule sample_data_reach)
  obtain r2 where r2: "reader_reach sample_ext no_samples {} (Timestamp 100 0) r2 sample_tc"
      "matched_writers r2 = bm_insert sample_writer sample_wp bm_empty" "r_reliability r2 \<noteq> BestEffort" "\<not> r_like_stateless r2"
    by (rule sample_reader_reach)
  have ok: "reader_ok no_samples r1" "reader_ok no_samples r2" "cache_ok (Timestamp 100 0) tc"
    using reader_reach_inv [OF r1(1) ext_ok_sample samples_ok_none] reader_reach_inv [OF r2(1) ext_ok_sample samples_ok_none]
    by (auto simp: reader_inv_def reader_ok_def cache_ok_def markers_ok_def proxy_ok_def)
  have later: "Timestamp 100 0 \<le> Timestamp 101 0" by (simp add: less_eq_timestamp_def less_timestamp_def)
  have wp: "bm_get (matched_writers r2) sample_writer = Some sample_wp" "all_ackable_before sample_wp = 1"
      "1 < (2 :: seqnum)" "(2 :: seqnum) < i64_max" "\<not> should_ignore_change sample_wp 2"
    by (simp_all add: r2(2) all_ackable_before_def i64_max_def should_ignore_change_iff wp_known_new sample_wp_def)
      (simp_all add: wp_new_def sn_new_def)
  show ?thesis
    by (rule exI [of _ r1], rule exI [of _ r2], rule exI [of _ tc])
      (use late_reader_hides_samples [OF ok(1,2) cache_ok_later [OF ok(3) later] order_refl r1(8,2,7) r2(4) wp,
          of "data_value sample_change" "write_options sample_change"] r1(1) r2(1) in simp)
qed

end
