(* ===== verification/Exchange.thy ===== *)
theory Exchange
  imports Writer_Delivery Message_Receiver
begin

text \<open>
  A writer and a reader in two participants, connected by packets: what a message that one side
  builds does on the other side after serialization, the packet, the parser and the message receiver.
\<close>

section \<open>From the reader to the writer\<close>

lemma info_dst_ok:
  assumes "ext_ok x" and "wf_prefix p"
  shows "submessage_ok x (info_destination_create_submessage p Flag_Endianness)"
  using dst_submessage_ok [OF assms, of LittleEndian]
  by (simp add: info_destination_create_submessage_def from_endianness_def)

text \<open>The ACKNACK message of a reader arrives at the participant it names as one ACKNACK for its writers.\<close>

lemma acknack_received:
  assumes x: "ext_ok x" and an: "ack_nack_ok an" and p: "wf_prefix p" "wf_prefix (guid_prefix (r_my_guid r))"
    and mr: "own_guid_prefix mr = p"
  shows "\<exists>packet mr'. send_acknack_to x (flags_union x Flag_Endianness ACKNACK_Final) an p dst r = RE_Send packet dst
    \<and> handle_received_packet x clock packet mr = Some (mr', [RX_AckNack (guid_prefix (r_my_guid r)) (Ack_AckNack an)])
    \<and> same_readers mr mr'"
proof -
  let ?src = "guid_prefix (r_my_guid r)"
  let ?dst = "info_destination_create_submessage p Flag_Endianness"
  let ?ack = "ack_nack_create_submessage an 3"
  let ?m = "\<lparr>msg_header = header_new ?src, submessages = [?dst, ?ack]\<rparr>"
  have flags: "flags_union x Flag_Endianness ACKNACK_Final = 3" by (simp add: ext_flags(3) [OF x])
  have "submessage_ok x ?dst" by (rule info_dst_ok [OF x p(1)])
  moreover have "submessage_ok x ?ack" by (rule ack_nack_create_ok [OF x an]) simp
  ultimately have read: "read_message x (write_message x LittleEndian ?m) = Ok (?m\<lparr>submessages := map (received x) (submessages ?m)\<rparr>)"
    using p(2) by (intro read_write_message [OF x]) auto
  have len: "\<not> length (write_message x LittleEndian ?m) < RTPS_MESSAGE_HEADER_SIZE"
  proof
    assume "length (write_message x LittleEndian ?m) < RTPS_MESSAGE_HEADER_SIZE"
    moreover have "length (write_header x LittleEndian (header_new ?src)) = 20"
      using header_new_ok(1) [OF p(2)] x
      by (simp add: write_header_def header_ok_def write_protocol_version_def write_vendor_id_def length_elements wire)
    ultimately show False by (simp add: write_message_def RTPS_MESSAGE_HEADER_SIZE_def)
  qed
  have "send_acknack_to x (flags_union x Flag_Endianness ACKNACK_Final) an p dst r = RE_Send (write_message x LittleEndian ?m) dst"
    by (simp add: send_acknack_to_def encode_and_send_def flags message_new_def add_submessage_def)
  moreover have "handle_received_packet x clock (write_message x LittleEndian ?m) mr =
      handle_parsed_message x clock (?m\<lparr>submessages := map (received x) (submessages ?m)\<rparr>) mr"
    using len by (simp only: handle_received_packet_def read if_False result.case)
  moreover have "\<exists>mr'. handle_parsed_message x clock (?m\<lparr>submessages := map (received x) (submessages ?m)\<rparr>) mr
      = Some (mr', [RX_AckNack ?src (Ack_AckNack an)]) \<and> same_readers mr mr'"
    using mr
    by (simp add: handle_parsed_message_def handle_submessage_def received_def
        info_destination_create_submessage_def ack_nack_create_submessage_def mk_submessage_def
        handle_reader_submessage_def not_for_us_def mr_reset_def header_new_def same_readers_def)
  ultimately show ?thesis by metis
qed

text \<open>What an ACKNACK does to the writer's proxy of the reader.\<close>

lemma handle_ack_nack_proxy:
  assumes x: "ext_ok x" and inv: "writer_inv w" and rel: "is_reliable (w_qos_policies w)" "\<not> w_like_stateless w"
    and rp: "bm_get (readers w) (GUID p (an_reader_id an)) = Some rp"
    and wf: "ns_wf (reader_sn_state an)" "ns_elems SeqNum (reader_sn_state an) = Some nacks"
  obtains w' es rp' where "handle_ack_nack x p (Ack_AckNack an) w = Some (w', es)"
    "bm_get (readers w') (GUID p (an_reader_id an)) = Some rp'"
    "all_acked_before rp' = bitmap_base (reader_sn_state an)"
    "\<forall>sn. bs_contains (unsent_changes rp') sn \<longleftrightarrow> (bitmap_base (reader_sn_state an) \<le> sn \<and> bs_contains (unsent_changes rp) sn
       \<or> sn \<in> set nacks) \<and> sn \<le> last_seq (w_history_buffer w)"
proof -
  let ?g = "GUID p (an_reader_id an)" and ?last = "last_seq (w_history_buffer w)"
  have last: "in_i64 ?last" "?last < i64_max"
    using writer_inv_last [OF inv] writer_invD(3) [OF inv] by (simp_all add: in_i64_def i64_min_def)
  obtain w1 es1 where w1: "update_ack_waiters ?g (Some (bitmap_base (reader_sn_state an))) w = (w1, es1)" by force
  have h1: "w_history_buffer w1 = w_history_buffer w" "readers w1 = readers w"
    using update_ack_waiters_ok [where w = w and g = ?g and b = "Some (bitmap_base (reader_sn_state an))"] inv by (simp_all add: w1)
  obtain rp1 where rp1: "rp_handle_ack_nack (Ack_AckNack an) ?last rp = Some rp1"
    "all_acked_before rp1 = bitmap_base (reader_sn_state an)"
    "\<And>sn. bs_contains (unsent_changes rp1) sn \<longleftrightarrow>
       (bitmap_base (reader_sn_state an) \<le> sn \<and> bs_contains (unsent_changes rp) sn \<or> sn \<in> set nacks) \<and> sn \<le> ?last"
    "\<And>sn. bs_contains (pending_gap rp1) sn \<longleftrightarrow> bitmap_base (reader_sn_state an) \<le> sn \<and> bs_contains (pending_gap rp) sn"
    using rp_ack_spec [OF wf last, of rp] by metis
  obtain mode es2 where ack: "acknack_proxy an ?last w1 rp = Some (rp1\<lparr>repair_mode := mode\<rparr>, es2)"
    by (cases "all_acked_before rp1 > ?last") (auto simp: acknack_proxy_def rp1(1))
  have "gap_bounded (pending_gap rp)"
    using proxy_inv_gap_bounded [OF writer_invD(6) [OF inv rp] last(2)] .
  then have "gap_bounded (pending_gap rp1)" by (simp add: gap_bounded_def rp1(4))
  then obtain b where "gap_msg x (pending_gap rp1) (w_entity_id w1) (w_endianness w1) ?g mb_new = Some b"
    using gap_msg_total by (metis gap_bounded_def)
  then have "\<exists>es. handle_ack_nack x p (Ack_AckNack an) w =
      Some (w1\<lparr>readers := bm_insert ?g (rp1\<lparr>repair_mode := mode\<rparr>) (readers w1)\<rparr>, es)"
    using rel rp ack by (cases "bm_is_empty (pending_gap rp1)") (simp_all add: handle_ack_nack_def w1 h1 Let_def)
  then show thesis
    using rp1(2,3) that by auto
qed

section \<open>From the writer to the reader\<close>

text \<open>The message of a sample that is pushed to all readers in one DATA submessage.\<close>

definition pushed_message :: "ext \<Rightarrow> writer \<Rightarrow> cache_change \<Rightarrow> seqnum \<Rightarrow> message" where
  "pushed_message x w cc first1 =
     (let e = w_endianness w
      in \<lparr>msg_header = header_new (w_prefix w),
          submessages =
            (case source_timestamp (write_options cc) of
               Some ts \<Rightarrow> [mk_submessage KIND_INFO_TS (ts_flags e (Some ts)) 8
                             (SB_Interpreter (IS_InfoTimestamp (Some ts) (ts_flags e (Some ts))))]
             | None \<Rightarrow> [])
            @ [mk_submessage KIND_DATA (cc_flags x e cc) (data_len_serialized (cc_data x e cc EntityId_UNKNOWN (w_my_guid w)))
                 (SB_Writer (WS_Data (cc_data x e cc EntityId_UNKNOWN (w_my_guid w)) (cc_flags x e cc))),
               heartbeat_create_submessage x
                 \<lparr>hb_reader_id = EntityId_UNKNOWN, hb_writer_id = w_entity_id w, first_sn = first1,
                  last_sn = sequence_number cc, hb_count = heartbeat_message_counter w\<rparr> (hb_flags e False False)]\<rparr>)"

lemma handle_dds_data_pushes:
  assumes x: "ext_ok x" and inv: "writer_inv w" and sample: "sample_ok w now dv wo sn"
    and w: "push_mode w" "\<not> w_like_stateless w" "to_single_reader wo = None" "payload_size dv \<le> data_max_size_serialized w"
  shows "\<exists>w'. handle_dds_data x now dv wo sn w = Some (w', WE_WakeDataWriter #
      map (WE_Send (write_message x (w_endianness w)
          (pushed_message x w (cc_new (w_my_guid w) sn wo dv) (first_seq (w_history_buffer w)))))
        (send_locators Multicast (bm_values (readers (notify_readers sn wo w))) []))"
proof -
  let ?cc = "cc_new (w_my_guid w) sn wo dv"
  let ?w1 = "w\<lparr>w_history_buffer := hb_add_change now ?cc (w_history_buffer w)\<rparr>"
  define w2 where "w2 = notify_readers sn wo ?w1"
  have "last_seq (w_history_buffer w) < sn" "0 \<le> last_seq (w_history_buffer w)"
    using sample writer_inv_last [OF inv] by (simp_all add: sample_ok_def hb_fresh_def)
  then have ins: "insert_to_history_buffer now dv wo sn w = Some (now, ?w1)" and last: "last_seq (w_history_buffer ?w1) = sn"
    by (simp_all add: insert_to_history_buffer_def sn_zero_def hb_add_change_seqs)
  then have get: "hb_get_change (w_history_buffer w2) now = Some ?cc"
    using insert_history_inv [OF inv sample] by (simp add: w2_def)
  have same: "w_endianness w2 = w_endianness w" "w_my_guid w2 = w_my_guid w" "w_like_stateless w2 = w_like_stateless w"
      "heartbeat_message_counter w2 = heartbeat_message_counter w" "data_max_size_serialized w2 = data_max_size_serialized w"
      "readers w2 = readers (notify_readers sn wo w)" "first_seq (w_history_buffer w2) = first_seq (w_history_buffer w)"
      "push_mode w2 = push_mode w" "last_seq (w_history_buffer w2) = sn"
    using last by (simp_all add: w2_def notify_readers_def hb_add_change_seqs)
  have "data_message x w2 ?cc True None = Some (snd (next_heartbeat_count w2), [pushed_message x w ?cc (first_seq (w_history_buffer w))])"
    using w(2)
    by (cases "source_timestamp (write_options ?cc)")
      (simp_all add: data_message_def same data_msg_eq [OF x] heartbeat_msg_eq [OF x] ts_msg_eq [OF x] next_heartbeat_count_def
        pushed_message_def add_header_and_build_def mb_push_def mb_new_def Let_def)
  then have "send_cache_change x w2 ?cc True None = Some ((False, snd (next_heartbeat_count w2)),
      send_message_to_readers x w2 Multicast (pushed_message x w ?cc (first_seq (w_history_buffer w))) (bm_values (readers w2)))"
    using w(3,4) by (simp add: send_cache_change_def same)
  then show ?thesis
    using w(1-3) by (simp add: handle_dds_data_def ins get send_message_to_readers_def same Let_def flip: w2_def)
qed

text \<open>The payload of a data submessage is decoded as the payload that was written.\<close>

lemma data_decoded:
  assumes x: "ext_ok x" and cc: "data_value cc = Data_Payload sp"
  shows "data_to_dds_data x (cc_data x e cc rid g) (cc_flags x e cc) = Some (data_value cc)"
proof -
  have "flags_contains x (cc_flags x e cc) DATA_Data" "\<not> flags_contains x (cc_flags x e cc) DATA_Key"
    using data_flags [of "from_endianness e" 4 "if cc_params x e cc \<noteq> [] then 2 else 0"] from_endianness_cases [of e]
    by (auto simp: ext_flags [OF x] cc_flags_def cc or.assoc flag_set_def)
  then show ?thesis
    by (simp add: data_to_dds_data_def cc_data_def cc_payload_def cc sp_from_bytes_sp_bytes Let_def)
qed

lemma pushed_message_read:
  assumes x: "ext_ok x" and cc: "cc_wire cc" and w: "wf_prefix (w_prefix w)" "in_i64 first1" "in_i32 (heartbeat_message_counter w)"
  shows "read_message x (write_message x e (pushed_message x w cc first1)) =
      Ok ((pushed_message x w cc first1)\<lparr>submessages := map (received x) (submessages (pushed_message x w cc first1))\<rparr>)"
    and "\<not> length (write_message x e (pushed_message x w cc first1)) < RTPS_MESSAGE_HEADER_SIZE"
proof -
  let ?m = "pushed_message x w cc first1" and ?e = "w_endianness w"
  have "submessage_ok x (mk_submessage KIND_INFO_TS (ts_flags ?e (Some ts)) 8
      (SB_Interpreter (IS_InfoTimestamp (Some ts) (ts_flags ?e (Some ts)))))" for ts
    using ts_submessage_ok [OF x, of ?e "Some ts" mb_new] by (simp add: ts_msg_eq [OF x] mb_new_def)
  moreover have "submessage_ok x (heartbeat_create_submessage x
      \<lparr>hb_reader_id = EntityId_UNKNOWN, hb_writer_id = w_entity_id w, first_sn = first1,
       last_sn = sequence_number cc, hb_count = heartbeat_message_counter w\<rparr> (hb_flags ?e False False))"
    using w cc by (intro heartbeat_create_ok [OF x]) (simp_all add: heartbeat_ok_def hb_flags_mask cc_wire_def)
  ultimately have "\<forall>s \<in> set (submessages ?m). submessage_ok x s"
    using data_msg_ok [OF x cc] by (auto simp: pushed_message_def Let_def split: option.splits)
  moreover have header: "msg_header ?m = header_new (w_prefix w)" by (simp add: pushed_message_def Let_def)
  ultimately show "read_message x (write_message x e ?m) = Ok (?m\<lparr>submessages := map (received x) (submessages ?m)\<rparr>)"
    using w(1) by (intro read_write_message [OF x]) simp_all
  have "length (write_header x e (header_new (w_prefix w))) = 20"
    using header_new_ok(1) [OF w(1)] x
    by (simp add: write_header_def header_ok_def write_protocol_version_def write_vendor_id_def length_elements wire)
  then show "\<not> length (write_message x e ?m) < RTPS_MESSAGE_HEADER_SIZE"
    by (simp add: write_message_def header RTPS_MESSAGE_HEADER_SIZE_def)
qed

text \<open>A HEARTBEAT leaves the stored changes of every topic cache as they are.\<close>

definition keeps_changes :: "message_receiver \<Rightarrow> message_receiver \<Rightarrow> bool" where
  "keeps_changes mr mr' \<longleftrightarrow> (\<forall>name tc. map_of (topic_caches mr) name = Some tc \<longrightarrow>
     (\<exists>tc'. map_of (topic_caches mr') name = Some tc' \<and> tc_get_change tc' = tc_get_change tc))"

lemma mark_changes [simp]: "tc_get_change (snd (mark_reliably_received_before g sn tc)) = tc_get_change tc"
  by (simp add: mark_reliably_received_before_def tc_get_change_def fun_eq_iff Let_def)

lemma heartbeat_worker_changes:
  "heartbeat_worker x hb final g mrs r tc wp = Some (res, wp', tc', es) \<Longrightarrow> tc_get_change tc' = tc_get_change tc"
  by (auto simp: heartbeat_worker_def split_beta Let_def bind_eq_Some_conv split: if_splits)

lemma heartbeat_changes:
  assumes "dispatch_to_reader x now (WS_Heartbeat hb flags) mrs r tc = Some (r', tc', es)"
  shows "tc_get_change tc' = tc_get_change tc"
  using assms
  by (auto simp: handle_heartbeat_msg_def Let_def bind_eq_Some_conv split: if_splits option.splits dest: heartbeat_worker_changes)

lemma heartbeat_keeps_changes:
  assumes "handle_writer_submessage x clock t (WS_Heartbeat hb flags) mr = Some (mr', es)"
  shows "keeps_changes mr mr'"
  using assms
  by (auto simp: handle_writer_submessage_def keeps_changes_def Let_def bind_eq_Some_conv update_conv' simp del: dispatch_to_reader.simps
      split: if_splits option.splits dest!: heartbeat_changes)

lemma heartbeat_targets_keep_changes:
  "handle_for_targets x clock ts (WS_Heartbeat hb flags) mr = Some (mr', es) \<Longrightarrow> keeps_changes mr mr'"
proof (induction ts arbitrary: mr mr' es)
  case Nil
  then show ?case by (simp add: keeps_changes_def)
next
  case (Cons t ts)
  then obtain mr1 es1 es2 where "handle_writer_submessage x clock t (WS_Heartbeat hb flags) mr = Some (mr1, es1)"
      "handle_for_targets x clock ts (WS_Heartbeat hb flags) mr1 = Some (mr', es2)"
    by (auto simp: bind_eq_Some_conv)
  with heartbeat_keeps_changes Cons.IH have "keeps_changes mr mr1" "keeps_changes mr1 mr'" by blast+
  then show ?case by (fastforce simp: keeps_changes_def)
qed

text \<open>A receiver in which one reader, matched with the writer, waits for the sample.\<close>

definition awaits_sample :: "message_receiver \<Rightarrow> entity_id \<Rightarrow> rtps_reader \<Rightarrow> guid \<Rightarrow> seqnum \<Rightarrow> bool" where
  "awaits_sample mr eid r g sn \<longleftrightarrow> available_target_entity_ids (guid_entity_id g) mr = [eid]
     \<and> bm_get (available_readers mr) eid = Some r \<and> \<not> r_like_stateless r
     \<and> (\<exists>wp. bm_get (matched_writers r) g = Some wp \<and> \<not> should_ignore_change wp sn)
     \<and> (\<forall>tc. map_of (topic_caches mr) (r_topic_name r) = Some tc \<longrightarrow> tc_index tc g sn = None)"

text \<open>The topic cache of a name holds the sample.\<close>

definition holds_sample :: "message_receiver \<Rightarrow> string \<Rightarrow> guid \<Rightarrow> seqnum \<Rightarrow> dds_data \<Rightarrow> bool" where
  "holds_sample mr name g sn dv \<longleftrightarrow> (\<exists>tc ts cc. map_of (topic_caches mr) name = Some tc \<and> tc_get_change tc ts = Some cc
     \<and> writer_guid cc = g \<and> sequence_number cc = sn \<and> data_value cc = dv)"

lemma data_submessage_stored:
  assumes inv: "mr_inv S (clock (clock_reads mr)) mr" and us: "\<not> not_for_us mr"
    and g: "g = GUID (source_guid_prefix mr) (d_writer_id d)" and waits: "awaits_sample mr eid r g (d_writer_sn d)"
    and d: "d_reader_id d = EntityId_UNKNOWN" "data_to_dds_data x d flags = Some dv"
    and sm: "sm_body sm = SB_Writer (WS_Data d flags)"
  shows "\<exists>mr1 es. handle_submessage x clock sm mr = Some (mr1, es) \<and> holds_sample mr1 (r_topic_name r) g (d_writer_sn d) dv"
proof -
  let ?now = "clock (clock_reads mr)" and ?mrs = "clone_partial_message_receiver_state mr"
  obtain wp where r: "bm_get (available_readers mr) eid = Some r" "\<not> r_like_stateless r" "bm_get (matched_writers r) g = Some wp"
      "\<not> should_ignore_change wp (d_writer_sn d)"
    using waits by (auto simp: awaits_sample_def)
  obtain tc where tc: "map_of (topic_caches mr) (r_topic_name r) = Some tc" "tc_index tc g (d_writer_sn d) = None"
    using inv r(1) waits by (fastforce simp: mr_inv_def awaits_sample_def)
  then have ok: "tc_inv tc" "gc_clock_ok ?now tc"
    using inv by (auto simp: mr_inv_def cache_ok_def clock_ok_def)
  define wo where "wo = received_write_options x (mrs_source_timestamp ?mrs) (d_inline_qos d) (cdr_representation_identifier x flags)"
  let ?cc = "cc_new g (d_writer_sn d) wo dv"
  have new: "tc_index tc (writer_guid ?cc) (sequence_number ?cc) = None" using tc(2) by simp
  obtain t1 where t1: "tc_add_change ?now ?now ?cc tc = Some t1" "tc_inv t1" "gc_clock_ok ?now t1" "tc_get_change t1 ?now = Some ?cc"
    using tc_add_change_new [OF ok new, of ?now] by metis
  define wp1 where "wp1 = received_changes_add wp (d_writer_sn d) ?now"
  define tc1 where "tc1 = snd (mark_reliably_received_before g (ack_base wp1) t1)"
  have src: "GUID (mrs_source_guid_prefix ?mrs) (d_writer_id d) = g"
    by (simp add: clone_partial_message_receiver_state_def g)
  have "dispatch_to_reader x ?now (WS_Data d flags) ?mrs r tc =
      Some (r\<lparr>matched_writers := bm_insert g wp1 (matched_writers r)\<rparr>, tc1, [RE_Notify])"
    using r(2-4) by (simp add: handle_data_msg_def d(2) src process_received_data_def store_and_notify_def make_cache_change_def
        t1(1) all_ackable_before_def tc1_def flip: wo_def wp1_def)
  then obtain mr1 es where mr1: "handle_writer_submessage x clock eid (WS_Data d flags) mr = Some (mr1, es)"
      "topic_caches mr1 = AList.update (r_topic_name r) tc1 (topic_caches mr)"
    using us r(1) tc(1) by (simp add: handle_writer_submessage_def Let_def del: dispatch_to_reader.simps)
  have "available_target_entity_ids (d_writer_id d) mr = [eid]"
    using waits by (simp add: awaits_sample_def g)
  then have "handle_submessage x clock sm mr = Some (mr1, es)"
    using mr1(1) d(1) by (simp add: handle_submessage_def sm)
  moreover have "tc_get_change tc1 ?now = Some ?cc" using t1(4) by (simp add: tc1_def)
  then have "holds_sample mr1 (r_topic_name r) g (d_writer_sn d) dv"
    unfolding holds_sample_def mr1(2) by (intro exI [of _ tc1] exI [of _ ?now] exI [of _ ?cc]) (simp add: update_conv')
  ultimately show ?thesis by blast
qed

text \<open>A DATA and a HEARTBEAT submessage, in this order.\<close>

lemma data_heartbeat_stored:
  assumes x: "ext_ok x" and S: "samples_ok S" and clock: "mono clock"
    and inv: "mr_inv S (clock (clock_reads mr)) mr" and us: "\<not> not_for_us mr"
    and g: "g = GUID (source_guid_prefix mr) (d_writer_id d)" and waits: "awaits_sample mr eid r g (d_writer_sn d)"
    and d: "d_reader_id d = EntityId_UNKNOWN" "data_to_dds_data x d flags = Some dv" "in_i64 (d_writer_sn d)" "d_writer_sn d < i64_max"
    and hb: "hb_reader_id hb = EntityId_UNKNOWN" "in_i64 (first_sn hb)" "last_sn hb < i64_max - 256"
    and sm: "sm_body sm1 = SB_Writer (WS_Data d flags)" "sm_body sm2 = SB_Writer (WS_Heartbeat hb hflags)"
  shows "\<exists>mr' es. handle_submessages x clock [sm1, sm2] mr = Some (mr', es) \<and> holds_sample mr' (r_topic_name r) g (d_writer_sn d) dv"
proof -
  have "submessages_ok x S (source_guid_prefix mr) [sm1, sm2]"
    using d(3,4) hb(2,3) sm by (simp add: writer_submessage_ok_def)
  then obtain mr' es where all: "handle_submessages x clock [sm1, sm2] mr = Some (mr', es)"
    using handle_submessages_ok [OF x S clock inv] by blast
  obtain mr1 es1 where mr1: "handle_submessage x clock sm1 mr = Some (mr1, es1)" "holds_sample mr1 (r_topic_name r) g (d_writer_sn d) dv"
    using data_submessage_stored [where clock = clock, OF inv us g waits d(1,2) sm(1)] by blast
  let ?mr1 = "mr1\<lparr>submessage_count := submessage_count mr1 + 1\<rparr>"
  obtain mr2 es2 where mr2: "handle_submessage x clock sm2 ?mr1 = Some (mr2, es2)" "mr' = mr2\<lparr>submessage_count := submessage_count mr2 + 1\<rparr>"
    using all mr1(1) by (auto simp: bind_eq_Some_conv)
  then have "keeps_changes ?mr1 mr2"
    using heartbeat_targets_keep_changes hb(1) by (auto simp: handle_submessage_def sm(2))
  then have "holds_sample mr' (r_topic_name r) g (d_writer_sn d) dv"
    using mr1(2) mr2(2) unfolding holds_sample_def keeps_changes_def by fastforce
  with all show ?thesis by blast
qed

text \<open>The message of a pushed sample, with or without a source time stamp.\<close>

lemma pushed_submessages_stored:
  assumes x: "ext_ok x" and S: "samples_ok S" and clock: "mono clock" and inv: "mr_inv S (clock (clock_reads mr)) mr"
    and us: "\<not> not_for_us mr" and src: "source_guid_prefix mr = guid_prefix (w_my_guid w)"
    and waits: "awaits_sample mr eid r (w_my_guid w) (sequence_number cc)"
    and cc: "data_value cc = Data_Payload sp" "in_i64 (sequence_number cc)" "sequence_number cc < i64_max - 256" and first: "in_i64 first1"
  shows "\<exists>mr' fx. handle_submessages x clock (map (received x) (submessages (pushed_message x w cc first1))) mr = Some (mr', fx)
    \<and> holds_sample mr' (r_topic_name r) (w_my_guid w) (sequence_number cc) (data_value cc)"
proof -
  define d where "d = cc_data x (w_endianness w) cc EntityId_UNKNOWN (w_my_guid w)"
  define hb where "hb = \<lparr>hb_reader_id = EntityId_UNKNOWN, hb_writer_id = w_entity_id w, first_sn = first1,
      last_sn = sequence_number cc, hb_count = heartbeat_message_counter w\<rparr>"
  define sm1 where "sm1 = received x (mk_submessage KIND_DATA (cc_flags x (w_endianness w) cc) (data_len_serialized d)
      (SB_Writer (WS_Data d (cc_flags x (w_endianness w) cc))))"
  define sm2 where "sm2 = received x (heartbeat_create_submessage x hb (hb_flags (w_endianness w) False False))"
  have bodies: "sm_body sm1 = SB_Writer (WS_Data d (cc_flags x (w_endianness w) cc))"
      "sm_body sm2 = SB_Writer (WS_Heartbeat hb (hb_flags (w_endianness w) False False))"
    by (simp_all add: sm1_def sm2_def received_def mk_submessage_def heartbeat_create_submessage_def)
  have d: "d_reader_id d = EntityId_UNKNOWN" "data_to_dds_data x d (cc_flags x (w_endianness w) cc) = Some (data_value cc)"
      "d_writer_id d = guid_entity_id (w_my_guid w)" "d_writer_sn d = sequence_number cc"
    using data_decoded [OF x cc(1)] by (simp_all add: d_def cc_data_def)
  have stored: "\<exists>mr' fx. handle_submessages x clock [sm1, sm2] mr1 = Some (mr', fx)
      \<and> holds_sample mr' (r_topic_name r) (w_my_guid w) (sequence_number cc) (data_value cc)"
    if "mr_inv S (clock (clock_reads mr1)) mr1" "\<not> not_for_us mr1" "source_guid_prefix mr1 = guid_prefix (w_my_guid w)"
      "awaits_sample mr1 eid r (w_my_guid w) (sequence_number cc)" for mr1
    using data_heartbeat_stored [OF x S clock that(1,2) _ _ d(1,2) _ _ _ _ _ bodies, of "w_my_guid w" eid r] that(3,4) cc first d(3,4)
    by (simp add: hb_def)
  show ?thesis
  proof (cases "source_timestamp (write_options cc)")
    case None
    then have "map (received x) (submessages (pushed_message x w cc first1)) = [sm1, sm2]"
      by (simp add: pushed_message_def sm1_def sm2_def d_def hb_def Let_def)
    with stored [OF inv us src waits] show ?thesis by simp
  next
    case (Some ts)
    define sm0 where "sm0 = received x (mk_submessage KIND_INFO_TS (ts_flags (w_endianness w) (Some ts)) 8
        (SB_Interpreter (IS_InfoTimestamp (Some ts) (ts_flags (w_endianness w) (Some ts)))))"
    define mr1 where "mr1 = mr\<lparr>mr_source_timestamp := Some ts, submessage_count := submessage_count mr + 1\<rparr>"
    have "map (received x) (submessages (pushed_message x w cc first1)) = sm0 # [sm1, sm2]"
      using Some by (simp add: pushed_message_def sm0_def sm1_def sm2_def d_def hb_def Let_def)
    moreover have "handle_submessage x clock sm0 mr = Some (mr\<lparr>mr_source_timestamp := Some ts\<rparr>, [])"
      by (simp add: handle_submessage_def sm0_def received_def mk_submessage_def)
    moreover have "mr_inv S (clock (clock_reads mr1)) mr1" "\<not> not_for_us mr1" "source_guid_prefix mr1 = guid_prefix (w_my_guid w)"
        "awaits_sample mr1 eid r (w_my_guid w) (sequence_number cc)"
      using inv us src waits by (simp_all add: mr1_def mr_inv_def not_for_us_def awaits_sample_def available_target_entity_ids_def)
    from stored [OF this] have "\<exists>mr' fx. handle_submessages x clock [sm1, sm2] mr1 = Some (mr', fx)
      \<and> holds_sample mr' (r_topic_name r) (w_my_guid w) (sequence_number cc) (data_value cc)" .
    ultimately show ?thesis by (auto simp: mr1_def)
  qed
qed

text \<open>The reply of a reader to a heartbeat, and what the participant of the writer makes of its last packet.\<close>

lemma heartbeat_reply_packet:
  assumes x: "ext_ok x" and inv: "samples_ok S" "reader_inv True S told now r tc"
    and r: "r_reliability r \<noteq> BestEffort" "\<not> r_like_stateless r" "g = GUID (mrs_source_guid_prefix mrs) (hb_writer_id hb)"
      "bm_get (matched_writers r) g = Some wp" "received_heartbeat_count wp < hb_count hb" "in_i64 (first_sn hb)" "last_sn hb < i64_max - 256"
    and an: "in_i32 (sent_ack_nack_count wp)" "wf_prefix (guid_prefix g)" "wf_prefix (guid_prefix (r_my_guid r))" "own_guid_prefix mr = guid_prefix g"
    and hb: "handle_heartbeat_msg x hb final mrs r tc = Some (True, r', tc', es)"
  obtains packet dst mr' an wp1 wp' where "last es = RE_Send packet dst"
    and "handle_received_packet x clock packet mr = Some (mr', [RX_AckNack (guid_prefix (r_my_guid r)) (Ack_AckNack an)])"
    and "an_reader_id an = r_entity_id r" and "acknack_for r g (last_sn hb) wp1 (reader_sn_state an)"
    and "bm_get (matched_writers r') g = Some wp'" and "\<forall>y. should_ignore_change wp' y = wp_known wp1 y"
proof -
  obtain wp1 c answer es0 where h: "wp_inv wp1" "1 \<le> ack_base wp1" "remote_writer_guid wp1 = g"
      "wp_known wp1 = (\<lambda>y. wp_known wp y \<or> 0 \<le> y \<and> y < first_sn hb)"
      "handle_heartbeat_msg x hb final mrs r tc = Some (answer,
         r\<lparr>matched_writers := bm_insert g (wp1\<lparr>sent_ack_nack_count := c\<rparr>) (matched_writers r)\<rparr>,
         snd (mark_reliably_received_before g (ack_base wp1) tc),
         (if fst (mark_reliably_received_before g (ack_base wp1) tc) then [RE_Notify] else []) @ es0)"
      "answer \<longleftrightarrow> (\<exists>y. first_sn hb \<le> y \<and> y \<le> last_sn hb \<and> \<not> wp_known wp1 y) \<or> \<not> final"
      "if answer then heartbeat_reply x r g (last_sn hb) wp1 (hb_writer_id hb) (reply_locators mrs wp) es0 else es0 = []"
    "sent_ack_nack_count wp1 = sent_ack_nack_count wp"
    by (rule handle_heartbeat_new [OF x inv r])
  let ?wp = "wp1\<lparr>sent_ack_nack_count := c\<rparr>"
  have eqs: "answer" "r' = r\<lparr>matched_writers := bm_insert g ?wp (matched_writers r)\<rparr>"
      "es = (if fst (mark_reliably_received_before g (ack_base wp1) tc) then [RE_Notify] else []) @ es0"
    using h(5) hb by simp_all
  obtain nfs a where a: "es0 = nfs @ [send_acknack_to x (flags_union x Flag_Endianness ACKNACK_Final) a (guid_prefix g) (reply_locators mrs wp) r]"
      "an_reader_id a = r_entity_id r" "an_count a = sent_ack_nack_count wp1" "acknack_for r g (last_sn hb) wp1 (reader_sn_state a)"
    using h(7) eqs(1) by (auto simp: heartbeat_reply_def)
  have "ack_nack_ok a"
    using a(3,4) an(1) h(8) by (simp add: ack_nack_ok_def ns_wire_def acknack_for_def)
  from acknack_received [OF x this an(2-4)] obtain packet mr' where packet:
    "send_acknack_to x (flags_union x Flag_Endianness ACKNACK_Final) a (guid_prefix g) (reply_locators mrs wp) r = RE_Send packet (reply_locators mrs wp)"
    "handle_received_packet x clock packet mr = Some (mr', [RX_AckNack (guid_prefix (r_my_guid r)) (Ack_AckNack a)])"
    by blast
  have "last es = RE_Send packet (reply_locators mrs wp)" by (simp add: eqs(3) a(1) packet(1))
  moreover have "bm_get (matched_writers r') g = Some ?wp" by (simp add: eqs(2))
  moreover have "\<forall>y. should_ignore_change ?wp y = wp_known wp1 y" by (simp add: should_ignore_change_iff wp_known_def)
  ultimately show thesis using packet(2) a(2,4) by (intro that)
qed

end
