(* ===== verification/Datasample_Cache.thy ===== *)
theory Datasample_Cache
  imports History_Buffer Qos "HOL-Library.AList"
begin

text \<open>
  The cache of deserialized samples of a data reader (src/src/dds/with_key/datasample_cache.rs), with
  the states and counts that go with each sample (src/src/dds/sampleinfo.rs) and the read conditions
  (src/src/dds/readcondition.rs). The type of the data, the type of its keys and the function that
  gives the key of a value belong to the application and are parameters. \<^const>\<open>None\<close> is a panic. A
  hash map from keys to counts is an association list; the order of its iteration does not matter,
  because the updates of different instances are independent.

  Shown here: selecting and then reading or taking never panics, and hands out exactly the selected
  samples in the order of their receive times; the history depth bounds what is kept of an instance;
  the states and generation counts of the instances follow from the samples alone.
\<close>

section \<open>Sample information\<close>

datatype sample_state = SS_Read | SS_NotRead

datatype view_state = VS_New | VS_NotNew

datatype instance_state = Inst_Alive | Inst_NotAliveDisposed | Inst_NotAliveNoWriters

definition SampleState_any :: "sample_state set" where
  "SampleState_any = {SS_Read, SS_NotRead}"

definition ViewState_any :: "view_state set" where
  "ViewState_any = {VS_New, VS_NotNew}"

definition InstanceState_any :: "instance_state set" where
  "InstanceState_any = {Inst_Alive, Inst_NotAliveDisposed, Inst_NotAliveNoWriters}"

definition InstanceState_not_alive :: "instance_state set" where
  "InstanceState_not_alive = {Inst_NotAliveDisposed, Inst_NotAliveNoWriters}"

record generation_counts =
  disposed_generation_count :: int
  no_writers_generation_count :: int

definition gc_zero :: generation_counts where
  "gc_zero = \<lparr>disposed_generation_count = 0, no_writers_generation_count = 0\<rparr>"

definition gc_sub_zero :: generation_counts where
  "gc_sub_zero = \<lparr>disposed_generation_count = -1, no_writers_generation_count = -1\<rparr>"

definition gc_total :: "generation_counts \<Rightarrow> int" where
  "gc_total gc = wrap_i32 (disposed_generation_count gc + no_writers_generation_count gc)"

record sample_info =
  info_sample_state :: sample_state
  info_view_state :: view_state
  info_instance_state :: instance_state
  info_generation_counts :: generation_counts
  sample_rank :: int
  generation_rank :: int
  absolute_generation_rank :: int
  info_write_options :: write_options
  publication_handle :: guid
  info_sequence_number :: seqnum

definition info_sample_identity :: "sample_info \<Rightarrow> sample_identity" where
  "info_sample_identity i = \<lparr>si_writer_guid = publication_handle i, si_sequence_number = info_sequence_number i\<rparr>"

record read_condition =
  sample_state_mask :: "sample_state set"
  view_state_mask :: "view_state set"
  instance_state_mask :: "instance_state set"

definition ReadCondition_any :: read_condition where
  "ReadCondition_any = \<lparr>sample_state_mask = SampleState_any, view_state_mask = ViewState_any,
     instance_state_mask = InstanceState_any\<rparr>"

definition ReadCondition_not_read :: read_condition where
  "ReadCondition_not_read = \<lparr>sample_state_mask = {SS_NotRead}, view_state_mask = ViewState_any,
     instance_state_mask = InstanceState_any\<rparr>"

section \<open>Samples\<close>

datatype ('d, 'k) sample = Sample_Value 'd | Sample_Dispose 'k

fun sample_value :: "('d, 'k) sample \<Rightarrow> 'd option" where
  "sample_value (Sample_Value d) = Some d"
| "sample_value (Sample_Dispose k) = None"

fun sample_map_value :: "('d \<Rightarrow> 'e) \<Rightarrow> ('d, 'k) sample \<Rightarrow> ('e, 'k) sample" where
  "sample_map_value f (Sample_Value d) = Sample_Value (f d)"
| "sample_map_value f (Sample_Dispose k) = Sample_Dispose k"

fun sample_map_dispose :: "('k \<Rightarrow> 'l) \<Rightarrow> ('d, 'k) sample \<Rightarrow> ('d, 'l) sample" where
  "sample_map_dispose f (Sample_Value d) = Sample_Value d"
| "sample_map_dispose f (Sample_Dispose k) = Sample_Dispose (f k)"

fun sample_key :: "('d \<Rightarrow> 'k) \<Rightarrow> ('d, 'k) sample \<Rightarrow> 'k" where
  "sample_key key (Sample_Value d) = key d"
| "sample_key key (Sample_Dispose k) = k"

fun sample_instance_state :: "('d, 'k) sample \<Rightarrow> instance_state" where
  "sample_instance_state (Sample_Value _) = Inst_Alive"
| "sample_instance_state (Sample_Dispose _) = Inst_NotAliveDisposed"

record ('d, 'k) data_sample =
  ds_sample_info :: sample_info
  ds_value :: "('d, 'k) sample"

record ('d, 'k) deserialized_cache_change =
  dcc_receive_instant :: timestamp
  dcc_writer_guid :: guid
  dcc_sequence_number :: seqnum
  dcc_write_options :: write_options
  dcc_sample :: "('d, 'k) sample"

definition dcc_new :: "timestamp \<Rightarrow> cache_change \<Rightarrow> ('d, 'k) sample \<Rightarrow> ('d, 'k) deserialized_cache_change" where
  "dcc_new receive_instant cc deserialized =
     \<lparr>dcc_receive_instant = receive_instant, dcc_writer_guid = writer_guid cc, dcc_sequence_number = sequence_number cc,
      dcc_write_options = write_options cc, dcc_sample = deserialized\<rparr>"

section \<open>The cache\<close>

record ('d, 'k) sample_with_meta_data =
  smd_generation_counts :: generation_counts
  smd_writer_guid :: guid
  smd_sequence_number :: seqnum
  smd_write_options :: write_options
  sample_has_been_read :: bool
  smd_sample :: "('d, 'k) sample"

record instance_meta_data =
  instance_samples :: "timestamp btree_set"
  imd_instance_state :: instance_state
  latest_generation_available :: generation_counts
  last_generation_accessed :: generation_counts

record (overloaded) ('d, 'k) datasample_cache =
  dsc_qos :: qos_policies
  datasamples :: "(timestamp, ('d, 'k) sample_with_meta_data) btree_map"
  instance_map :: "('k, instance_meta_data) btree_map"

definition dsc_new :: "qos_policies \<Rightarrow> ('d, 'k::linorder) datasample_cache" where
  "dsc_new qos = \<lparr>dsc_qos = qos, datasamples = bm_empty, instance_map = bm_empty\<rparr>"

text \<open>Adding a sample: the record of its instance, found or created, and brought up to date.\<close>

definition imd_new :: "instance_state \<Rightarrow> instance_meta_data" where
  "imd_new st = \<lparr>instance_samples = bm_empty, imd_instance_state = st, latest_generation_available = gc_zero,
     last_generation_accessed = gc_sub_zero\<rparr>"

fun next_generation :: "instance_state \<Rightarrow> instance_state \<Rightarrow> generation_counts \<Rightarrow> generation_counts" where
  "next_generation Inst_NotAliveDisposed Inst_Alive gc =
     gc\<lparr>disposed_generation_count := wrap_i32 (disposed_generation_count gc + 1)\<rparr>"
| "next_generation Inst_NotAliveNoWriters Inst_Alive gc =
     gc\<lparr>no_writers_generation_count := wrap_i32 (no_writers_generation_count gc + 1)\<rparr>"
| "next_generation _ _ gc = gc"

definition imd_add :: "timestamp \<Rightarrow> instance_state \<Rightarrow> instance_meta_data \<Rightarrow> instance_meta_data" where
  "imd_add ts st imd = imd\<lparr>instance_samples := bs_insert ts (instance_samples imd),
     latest_generation_available := next_generation (imd_instance_state imd) st (latest_generation_available imd),
     imd_instance_state := st\<rparr>"

definition sample_keep_history_limit :: "qos_policies \<Rightarrow> int option" where
  "sample_keep_history_limit qos =
     (case history qos of Some KeepAll \<Rightarrow> None | Some (KeepLast n) \<Rightarrow> Some n | None \<Rightarrow> Some 1)"

definition sample_keep_resource_limit :: "qos_policies \<Rightarrow> int option" where
  "sample_keep_resource_limit qos = map_option max_samples_per_instance (resource_limits qos)"

text \<open>The receive times that the collection after an addition removes.\<close>

definition keys_to_remove :: "qos_policies \<Rightarrow> timestamp btree_set \<Rightarrow> timestamp list" where
  "keys_to_remove qos tss =
     (case (case sample_keep_history_limit qos of Some n \<Rightarrow> Some n | None \<Rightarrow> sample_keep_resource_limit qos) of
        None \<Rightarrow> []
      | Some instance_keep_count \<Rightarrow>
          let remove_count = wrap_i32 (wrap_i32 (int (bm_len tss)) - instance_keep_count)
          in if remove_count > 0 then take (nat remove_count) (bs_iter tss) else [])"

definition add_sample ::
    "('d \<Rightarrow> 'k::linorder) \<Rightarrow> ('d, 'k) sample \<Rightarrow> guid \<Rightarrow> seqnum \<Rightarrow> timestamp \<Rightarrow> write_options \<Rightarrow> ('d, 'k) datasample_cache \<Rightarrow>
     ('d, 'k) datasample_cache option" where
  "add_sample key new_sample g sn receive_timestamp wo c =
     (let instance_key = sample_key key new_sample;
          new_instance_state = sample_instance_state new_sample;
          imd0 = (case bm_get (instance_map c) instance_key of Some imd \<Rightarrow> imd | None \<Rightarrow> imd_new new_instance_state);
          imd1 = imd_add receive_timestamp new_instance_state imd0;
          smd = \<lparr>smd_generation_counts = latest_generation_available imd1, smd_writer_guid = g, smd_sequence_number = sn,
                 smd_write_options = wo, sample_has_been_read = False, smd_sample = new_sample\<rparr>
      in if bm_contains (datasamples c) receive_timestamp then None
         else let ks = keys_to_remove (dsc_qos c) (instance_samples imd1)
              in Some (c\<lparr>datasamples := fold bm_remove ks (bm_insert receive_timestamp smd (datasamples c)),
                         instance_map := bm_insert instance_key
                           (imd1\<lparr>instance_samples := fold bm_remove ks (instance_samples imd1)\<rparr>) (instance_map c)\<rparr>))"

definition fill_from_deserialized_cache_change ::
    "('d \<Rightarrow> 'k::linorder) \<Rightarrow> ('d, 'k) deserialized_cache_change \<Rightarrow> ('d, 'k) datasample_cache \<Rightarrow> ('d, 'k) datasample_cache option" where
  "fill_from_deserialized_cache_change key dcc c =
     add_sample key (dcc_sample dcc) (dcc_writer_guid dcc) (dcc_sequence_number dcc) (dcc_receive_instant dcc) (dcc_write_options dcc) c"

section \<open>Selecting samples\<close>

definition sample_selector :: "read_condition \<Rightarrow> instance_meta_data \<Rightarrow> ('d, 'k) sample_with_meta_data \<Rightarrow> bool" where
  "sample_selector rc imd d \<longleftrightarrow>
     (sample_state_mask rc = SampleState_any
      \<or> (if sample_has_been_read d then SS_Read else SS_NotRead) \<in> sample_state_mask rc)
     \<and> (view_state_mask rc = ViewState_any
        \<or> (let is_new = gc_total (smd_generation_counts d) > gc_total (last_generation_accessed imd)
           in (if is_new then VS_New else VS_NotNew) \<in> view_state_mask rc))
     \<and> (instance_state_mask rc = InstanceState_any \<or> imd_instance_state imd \<in> instance_state_mask rc)"

fun select_loop ::
    "('d \<Rightarrow> 'k::linorder) \<Rightarrow> read_condition \<Rightarrow> ('k, instance_meta_data) btree_map \<Rightarrow>
     (timestamp \<times> ('d, 'k) sample_with_meta_data) list \<Rightarrow> (timestamp \<times> 'k) list option" where
  "select_loop key rc im [] = Some []"
| "select_loop key rc im ((ts, dsm) # es) =
     do { instance_meta \<leftarrow> bm_get im (sample_key key (smd_sample dsm));
          rest \<leftarrow> select_loop key rc im es;
          Some (if sample_selector rc instance_meta dsm then (ts, sample_key key (smd_sample dsm)) # rest else rest) }"

definition select_keys_for_access ::
    "('d \<Rightarrow> 'k::linorder) \<Rightarrow> read_condition \<Rightarrow> ('d, 'k) datasample_cache \<Rightarrow> (timestamp \<times> 'k) list option" where
  "select_keys_for_access key rc c = select_loop key rc (instance_map c) (bm_entries (datasamples c))"

definition select_instance_keys_for_access ::
    "'k::linorder \<Rightarrow> read_condition \<Rightarrow> ('d, 'k) datasample_cache \<Rightarrow> (timestamp \<times> 'k) list" where
  "select_instance_keys_for_access k rc c =
     (case bm_get (instance_map c) k of
        None \<Rightarrow> []
      | Some imd \<Rightarrow>
          map (\<lambda>ts. (ts, k)) (filter (\<lambda>ts. case bm_get (datasamples c) ts of
              Some ds \<Rightarrow> sample_selector rc imd ds | None \<Rightarrow> False) (bs_iter (instance_samples imd))))"

section \<open>Reading and taking\<close>

definition make_sample_info ::
    "('d, 'k) sample_with_meta_data \<Rightarrow> instance_meta_data \<Rightarrow> nat \<Rightarrow> int \<Rightarrow> int \<Rightarrow> sample_info" where
  "make_sample_info dswm imd rank mrs_generations mrsic_generations =
     \<lparr>info_sample_state = (if sample_has_been_read dswm then SS_Read else SS_NotRead),
      info_view_state = (if gc_total (smd_generation_counts dswm) > gc_total (last_generation_accessed imd) then VS_New else VS_NotNew),
      info_instance_state = imd_instance_state imd,
      info_generation_counts = smd_generation_counts dswm,
      sample_rank = wrap_i32 (int rank),
      generation_rank = wrap_i32 (mrsic_generations - gc_total (smd_generation_counts dswm)),
      absolute_generation_rank = wrap_i32 (mrs_generations - gc_total (smd_generation_counts dswm)),
      info_write_options = smd_write_options dswm,
      publication_handle = smd_writer_guid dswm,
      info_sequence_number = smd_sequence_number dswm\<rparr>"

type_synonym 'k generations_viewed = "('k \<times> generation_counts) list"

definition record_instance_generation_viewed ::
    "generation_counts \<Rightarrow> 'k \<Rightarrow> 'k generations_viewed \<Rightarrow> 'k generations_viewed" where
  "record_instance_generation_viewed accessed k gens =
     AList.update k (case map_of gens k of
         Some old_gens \<Rightarrow> if gc_total accessed > gc_total old_gens then accessed else old_gens
       | None \<Rightarrow> accessed) gens"

fun mark_instances_viewed ::
    "'k::linorder generations_viewed \<Rightarrow> ('k, instance_meta_data) btree_map \<Rightarrow> ('k, instance_meta_data) btree_map option" where
  "mark_instances_viewed [] im = Some im"
| "mark_instances_viewed ((inst, gen) # gens) im =
     (case bm_get im inst of
        Some imd \<Rightarrow> mark_instances_viewed gens (bm_insert inst (imd\<lparr>last_generation_accessed := gen\<rparr>) im)
      | None \<Rightarrow> None)"

text \<open>The loops over the selected keys: what is made of each sample, the generations viewed, the samples left.\<close>

fun read_loop ::
    "int \<Rightarrow> int \<Rightarrow> ('k::linorder, instance_meta_data) btree_map \<Rightarrow> (timestamp \<times> 'k) list \<Rightarrow> 'k generations_viewed \<Rightarrow>
     (timestamp, ('d, 'k) sample_with_meta_data) btree_map \<Rightarrow>
     (sample_info list \<times> 'k generations_viewed \<times> (timestamp, ('d, 'k) sample_with_meta_data) btree_map) option" where
  "read_loop mrs mrsic im [] gens dsm = Some ([], gens, dsm)"
| "read_loop mrs mrsic im ((ts, k) # ks) gens dsm =
     do { dswm \<leftarrow> bm_get dsm ts;
          imd \<leftarrow> bm_get im k;
          let info = make_sample_info dswm imd (length ks) mrs mrsic
          in do { (infos, gens', dsm') \<leftarrow> read_loop mrs mrsic im ks
                    (record_instance_generation_viewed (smd_generation_counts dswm) k gens)
                    (bm_insert ts (dswm\<lparr>sample_has_been_read := True\<rparr>) dsm);
                  Some (info # infos, gens', dsm') } }"

fun take_loop ::
    "int \<Rightarrow> int \<Rightarrow> ('k::linorder, instance_meta_data) btree_map \<Rightarrow> (timestamp \<times> 'k) list \<Rightarrow> 'k generations_viewed \<Rightarrow>
     (timestamp, ('d, 'k) sample_with_meta_data) btree_map \<Rightarrow>
     (('d, 'k) data_sample list \<times> 'k generations_viewed \<times> (timestamp, ('d, 'k) sample_with_meta_data) btree_map) option" where
  "take_loop mrs mrsic im [] gens dsm = Some ([], gens, dsm)"
| "take_loop mrs mrsic im ((ts, k) # ks) gens dsm =
     do { dswm \<leftarrow> bm_get dsm ts;
          imd \<leftarrow> bm_get im k;
          let d = \<lparr>ds_sample_info = make_sample_info dswm imd (length ks) mrs mrsic, ds_value = smd_sample dswm\<rparr>
          in do { (ds, gens', dsm') \<leftarrow> take_loop mrs mrsic im ks
                    (record_instance_generation_viewed (smd_generation_counts dswm) k gens) (bm_remove ts dsm);
                  Some (d # ds, gens', dsm') } }"

text \<open>The totals that the ranks are computed from.\<close>

definition mrsic_total :: "(timestamp \<times> 'k::linorder) list \<Rightarrow> ('d, 'k) datasample_cache \<Rightarrow> int option" where
  "mrsic_total keys c = map_option (gc_total \<circ> latest_generation_available) (bm_get (instance_map c) (snd (last keys)))"

definition mrs_total :: "('d, 'k) datasample_cache \<Rightarrow> int option" where
  "mrs_total c = map_option (gc_total \<circ> smd_generation_counts \<circ> snd) (bm_last (datasamples c))"

definition stored_samples ::
    "(timestamp \<times> 'k) list \<Rightarrow> (timestamp, ('d, 'k) sample_with_meta_data) btree_map \<Rightarrow> ('d, 'k) sample list option" where
  "stored_samples keys dsm = those (map (\<lambda>(ts, _). map_option smd_sample (bm_get dsm ts)) keys)"

abbreviation data_samples :: "sample_info list \<Rightarrow> ('d, 'k) sample list \<Rightarrow> ('d, 'k) data_sample list" where
  "data_samples \<equiv> map2 (\<lambda>i s. \<lparr>ds_sample_info = i, ds_value = s\<rparr>)"

definition read_by_keys ::
    "(timestamp \<times> 'k::linorder) list \<Rightarrow> ('d, 'k) datasample_cache \<Rightarrow> (('d, 'k) data_sample list \<times> ('d, 'k) datasample_cache) option" where
  "read_by_keys keys c =
     (if keys = [] then Some ([], c)
      else do { mrsic \<leftarrow> mrsic_total keys c;
                mrs \<leftarrow> mrs_total c;
                (infos, gens, dsm) \<leftarrow> read_loop mrs mrsic (instance_map c) keys [] (datasamples c);
                im \<leftarrow> mark_instances_viewed gens (instance_map c);
                samples \<leftarrow> stored_samples keys dsm;
                Some (data_samples infos samples,
                      c\<lparr>datasamples := dsm, instance_map := im\<rparr>) })"

definition take_by_keys ::
    "(timestamp \<times> 'k::linorder) list \<Rightarrow> ('d, 'k) datasample_cache \<Rightarrow> (('d, 'k) data_sample list \<times> ('d, 'k) datasample_cache) option" where
  "take_by_keys keys c =
     (if keys = [] then Some ([], c)
      else do { mrsic \<leftarrow> mrsic_total keys c;
                mrs \<leftarrow> mrs_total c;
                (ds, gens, dsm) \<leftarrow> take_loop mrs mrsic (instance_map c) keys [] (datasamples c);
                im \<leftarrow> mark_instances_viewed gens (instance_map c);
                Some (ds, c\<lparr>datasamples := dsm, instance_map := im\<rparr>) })"

text \<open>The variants without sample information.\<close>

fun read_bare_loop ::
    "(timestamp \<times> 'k) list \<Rightarrow> 'k generations_viewed \<Rightarrow> (timestamp, ('d, 'k) sample_with_meta_data) btree_map \<Rightarrow>
     ('k generations_viewed \<times> (timestamp, ('d, 'k) sample_with_meta_data) btree_map) option" where
  "read_bare_loop [] gens dsm = Some (gens, dsm)"
| "read_bare_loop ((ts, k) # ks) gens dsm =
     do { dswm \<leftarrow> bm_get dsm ts;
          read_bare_loop ks (record_instance_generation_viewed (smd_generation_counts dswm) k gens)
            (bm_insert ts (dswm\<lparr>sample_has_been_read := True\<rparr>) dsm) }"

fun take_bare_loop ::
    "(timestamp \<times> 'k) list \<Rightarrow> 'k generations_viewed \<Rightarrow> (timestamp, ('d, 'k) sample_with_meta_data) btree_map \<Rightarrow>
     (('d, 'k) sample list \<times> 'k generations_viewed \<times> (timestamp, ('d, 'k) sample_with_meta_data) btree_map) option" where
  "take_bare_loop [] gens dsm = Some ([], gens, dsm)"
| "take_bare_loop ((ts, k) # ks) gens dsm =
     do { dswm \<leftarrow> bm_get dsm ts;
          (ss, gens', dsm') \<leftarrow> take_bare_loop ks
            (record_instance_generation_viewed (smd_generation_counts dswm) k gens) (bm_remove ts dsm);
          Some (smd_sample dswm # ss, gens', dsm') }"

definition read_bare_by_keys ::
    "(timestamp \<times> 'k::linorder) list \<Rightarrow> ('d, 'k) datasample_cache \<Rightarrow> (('d, 'k) sample list \<times> ('d, 'k) datasample_cache) option" where
  "read_bare_by_keys keys c =
     (if keys = [] then Some ([], c)
      else do { (gens, dsm) \<leftarrow> read_bare_loop keys [] (datasamples c);
                im \<leftarrow> mark_instances_viewed gens (instance_map c);
                samples \<leftarrow> stored_samples keys dsm;
                Some (samples, c\<lparr>datasamples := dsm, instance_map := im\<rparr>) })"

definition take_bare_by_keys ::
    "(timestamp \<times> 'k::linorder) list \<Rightarrow> ('d, 'k) datasample_cache \<Rightarrow> (('d, 'k) sample list \<times> ('d, 'k) datasample_cache) option" where
  "take_bare_by_keys keys c =
     (if keys = [] then Some ([], c)
      else do { (ss, gens, dsm) \<leftarrow> take_bare_loop keys [] (datasamples c);
                im \<leftarrow> mark_instances_viewed gens (instance_map c);
                Some (ss, c\<lparr>datasamples := dsm, instance_map := im\<rparr>) })"

definition next_key :: "'k::linorder \<Rightarrow> ('d, 'k) datasample_cache \<Rightarrow> 'k option" where
  "next_key k c = map_option fst (bm_first (bm_retain (\<lambda>k' _. k < k') (instance_map c)))"

section \<open>Invariant\<close>

text \<open>Every stored sample is listed by its instance, and by no other.\<close>

abbreviation smd_key :: "('d \<Rightarrow> 'k) \<Rightarrow> ('d, 'k) sample_with_meta_data \<Rightarrow> 'k" where
  "smd_key key smd \<equiv> sample_key key (smd_sample smd)"

definition listed :: "('d, 'k::linorder) datasample_cache \<Rightarrow> 'k \<Rightarrow> timestamp \<Rightarrow> bool" where
  "listed c k ts \<longleftrightarrow> (\<exists>imd. bm_get (instance_map c) k = Some imd \<and> bs_contains (instance_samples imd) ts)"

definition dsc_inv :: "('d \<Rightarrow> 'k::linorder) \<Rightarrow> ('d, 'k) datasample_cache \<Rightarrow> bool" where
  "dsc_inv key c \<longleftrightarrow> (\<forall>ts smd k. bm_get (datasamples c) ts = Some smd \<longrightarrow> (listed c k ts \<longleftrightarrow> k = smd_key key smd))"

lemma dsc_inv_new: "dsc_inv key (dsc_new qos)"
  by (simp add: dsc_inv_def dsc_new_def)

lemma dsc_inv_instance:
  "dsc_inv key c \<Longrightarrow> bm_get (datasamples c) ts = Some smd \<Longrightarrow>
    \<exists>imd. bm_get (instance_map c) (smd_key key smd) = Some imd \<and> bs_contains (instance_samples imd) ts"
  by (auto simp: dsc_inv_def listed_def)

lemma get_fold_remove [simp]: "bm_get (fold bm_remove ks m) k = (if k \<in> set ks then None else bm_get m k)"
  by (induction ks arbitrary: m) auto

lemma contains_after_removals [simp]: "bm_contains (fold bm_remove ks m) k \<longleftrightarrow> k \<notin> set ks \<and> bm_contains m k"
  by (simp add: bm_contains_def)

subsection \<open>Adding\<close>

text \<open>A sample whose receive time is listed nowhere is added without a panic, and the invariant holds again.\<close>

definition unlisted :: "('d, 'k::linorder) datasample_cache \<Rightarrow> timestamp \<Rightarrow> bool" where
  "unlisted c ts \<longleftrightarrow> (\<forall>k. \<not> listed c k ts)"

definition imd_after :: "('d \<Rightarrow> 'k::linorder) \<Rightarrow> ('d, 'k) sample \<Rightarrow> timestamp \<Rightarrow> ('d, 'k) datasample_cache \<Rightarrow> instance_meta_data" where
  "imd_after key s ts c = imd_add ts (sample_instance_state s)
     (case bm_get (instance_map c) (sample_key key s) of Some imd \<Rightarrow> imd | None \<Rightarrow> imd_new (sample_instance_state s))"

definition smd_after ::
    "('d \<Rightarrow> 'k::linorder) \<Rightarrow> ('d, 'k) sample \<Rightarrow> guid \<Rightarrow> seqnum \<Rightarrow> timestamp \<Rightarrow> write_options \<Rightarrow> ('d, 'k) datasample_cache \<Rightarrow>
     ('d, 'k) sample_with_meta_data" where
  "smd_after key s g sn ts wo c = \<lparr>smd_generation_counts = latest_generation_available (imd_after key s ts c),
     smd_writer_guid = g, smd_sequence_number = sn, smd_write_options = wo, sample_has_been_read = False, smd_sample = s\<rparr>"

lemma add_sample_spec:
  assumes inv: "dsc_inv key c" and ts: "unlisted c ts"
  obtains c' ks where "add_sample key s g sn ts wo c = Some c'" and "dsc_inv key c'"
    and "ks = keys_to_remove (dsc_qos c) (instance_samples (imd_after key s ts c))" and "dsc_qos c' = dsc_qos c"
    and "datasamples c' = fold bm_remove ks (bm_insert ts (smd_after key s g sn ts wo c) (datasamples c))"
    and "instance_map c' = bm_insert (sample_key key s)
       ((imd_after key s ts c)\<lparr>instance_samples := fold bm_remove ks (instance_samples (imd_after key s ts c))\<rparr>) (instance_map c)"
proof -
  define imd where "imd = imd_after key s ts c"
  define ks where "ks = keys_to_remove (dsc_qos c) (instance_samples imd)"
  define smd where "smd = smd_after key s g sn ts wo c"
  define c' where "c' = c\<lparr>datasamples := fold bm_remove ks (bm_insert ts smd (datasamples c)),
     instance_map := bm_insert (sample_key key s) (imd\<lparr>instance_samples := fold bm_remove ks (instance_samples imd)\<rparr>) (instance_map c)\<rparr>"
  have fresh: "\<not> bm_contains (datasamples c) ts"
    using ts dsc_inv_instance [OF inv, of ts] unfolding unlisted_def listed_def bm_contains_def by (metis option.exhaust)
  then have "add_sample key s g sn ts wo c = Some c'"
    by (simp add: add_sample_def Let_def c'_def smd_def smd_after_def ks_def imd_def imd_after_def)
  moreover have "listed c' k t \<longleftrightarrow> (if k = sample_key key s then t \<notin> set ks \<and> (t = ts \<or> listed c k t) else listed c k t)" for k t
    by (auto simp: listed_def c'_def imd_def imd_after_def imd_add_def imd_new_def split: option.splits)
  with inv ts have "dsc_inv key c'"
    by (auto simp: dsc_inv_def unlisted_def c'_def smd_def smd_after_def)
  ultimately show ?thesis
    using that [of c' ks] by (simp add: c'_def ks_def imd_def smd_def)
qed

lemma add_sample_ok:
  "dsc_inv key c \<Longrightarrow> unlisted c ts \<Longrightarrow> \<exists>c'. add_sample key s g sn ts wo c = Some c' \<and> dsc_inv key c'"
  by (rule add_sample_spec [of key c ts s g sn wo]) auto

subsection \<open>Reading and taking\<close>

definition keys_valid :: "(timestamp \<times> 'k::linorder) list \<Rightarrow> ('d, 'k) datasample_cache \<Rightarrow> bool" where
  "keys_valid keys c \<longleftrightarrow> distinct (map fst keys)
     \<and> (\<forall>(ts, k) \<in> set keys. bm_contains (datasamples c) ts \<and> bm_contains (instance_map c) k)"

text \<open>What is said of the samples with the given keys.\<close>

fun infos_of ::
    "int \<Rightarrow> int \<Rightarrow> ('k::linorder, instance_meta_data) btree_map \<Rightarrow> (timestamp, ('d, 'k) sample_with_meta_data) btree_map \<Rightarrow>
     (timestamp \<times> 'k) list \<Rightarrow> sample_info list" where
  "infos_of mrs mrsic im dsm [] = []"
| "infos_of mrs mrsic im dsm ((ts, k) # ks) =
     make_sample_info (the (bm_get dsm ts)) (the (bm_get im k)) (length ks) mrs mrsic # infos_of mrs mrsic im dsm ks"

definition samples_of :: "(timestamp, ('d, 'k) sample_with_meta_data) btree_map \<Rightarrow> (timestamp \<times> 'k) list \<Rightarrow> ('d, 'k) sample list" where
  "samples_of dsm keys = map (\<lambda>(ts, _). smd_sample (the (bm_get dsm ts))) keys"

lemma samples_of_simps [simp]:
  "samples_of dsm [] = []" "samples_of dsm ((ts, k) # keys) = smd_sample (the (bm_get dsm ts)) # samples_of dsm keys"
  by (simp_all add: samples_of_def)

lemma infos_of_cong:
  "(\<And>ts k. (ts, k) \<in> set keys \<Longrightarrow> bm_get dsm ts = bm_get dsm' ts) \<Longrightarrow> infos_of mrs mrsic im dsm keys = infos_of mrs mrsic im dsm' keys"
proof (induction keys)
  case (Cons e keys)
  have "infos_of mrs mrsic im dsm keys = infos_of mrs mrsic im dsm' keys"
    by (rule Cons.IH, rule Cons.prems, erule list.set_intros(2))
  with Cons.prems [of "fst e" "snd e"] show ?case by (cases e) simp
qed simp

lemma length_infos_of [simp]: "length (infos_of mrs mrsic im dsm keys) = length keys"
  by (induction keys) auto

lemma samples_of_cong:
  "(\<And>ts k. (ts, k) \<in> set keys \<Longrightarrow> bm_get dsm ts = bm_get dsm' ts) \<Longrightarrow> samples_of dsm keys = samples_of dsm' keys"
  by (auto simp: samples_of_def)

definition mark_read ::
    "timestamp set \<Rightarrow> (timestamp, ('d, 'k) sample_with_meta_data) btree_map \<Rightarrow> (timestamp, ('d, 'k) sample_with_meta_data) btree_map" where
  "mark_read T dsm = bm_map (\<lambda>ts smd. if ts \<in> T then smd\<lparr>sample_has_been_read := True\<rparr> else smd) dsm"

text \<open>The generations viewed: for every instance of the keys the highest one.\<close>

definition gens_viewed ::
    "(timestamp \<times> 'k::linorder) list \<Rightarrow> (timestamp, ('d, 'k) sample_with_meta_data) btree_map \<Rightarrow> 'k generations_viewed \<Rightarrow> 'k generations_viewed" where
  "gens_viewed keys dsm gens =
     fold (\<lambda>(ts, k). record_instance_generation_viewed (smd_generation_counts (the (bm_get dsm ts))) k) keys gens"

lemma gens_viewed_cong:
  "(\<And>ts k. (ts, k) \<in> set keys \<Longrightarrow> bm_get dsm ts = bm_get dsm' ts) \<Longrightarrow> gens_viewed keys dsm gens = gens_viewed keys dsm' gens"
  unfolding gens_viewed_def by (rule fold_cong) auto

lemma gens_viewed_keys: "fst ` set (gens_viewed keys dsm gens) = fst ` set gens \<union> snd ` set keys"
  by (induction keys arbitrary: gens)
    (auto simp: gens_viewed_def record_instance_generation_viewed_def dom_map_of_conv_image_fst [symmetric] update_conv')

lemma gens_viewed_distinct: "distinct (map fst gens) \<Longrightarrow> distinct (map fst (gens_viewed keys dsm gens))"
  by (induction keys arbitrary: gens)
    (auto simp: gens_viewed_def record_instance_generation_viewed_def distinct_update)

lemma read_loop_spec:
  assumes "distinct (map fst keys)"
    and "\<forall>(ts, k) \<in> set keys. bm_contains dsm ts \<and> bm_contains im k"
  shows "read_loop mrs mrsic im keys gens dsm = Some (infos_of mrs mrsic im dsm keys, gens_viewed keys dsm gens, mark_read (fst ` set keys) dsm)"
  using assms
proof (induction keys arbitrary: gens dsm)
  case Nil
  have "mark_read {} dsm = dsm" by (rule bm_eqI) (simp add: mark_read_def option.map_ident)
  then show ?case by (simp add: gens_viewed_def)
next
  case (Cons e keys)
  obtain ts k where e: "e = (ts, k)" by (cases e)
  with Cons.prems obtain smd imd where get: "bm_get dsm ts = Some smd" "bm_get im k = Some imd"
    by (auto simp: bm_contains_def)
  let ?dsm = "bm_insert ts (smd\<lparr>sample_has_been_read := True\<rparr>) dsm"
  have other: "bm_get ?dsm t = bm_get dsm t" if "(t, l) \<in> set keys" for t l
    using that Cons.prems(1) e by (force simp: image_iff)
  have mark: "mark_read (fst ` set keys) ?dsm = mark_read (fst ` set (e # keys)) dsm"
    by (rule bm_eqI) (auto simp: mark_read_def get e option.map_ident)
  let ?gens = "record_instance_generation_viewed (smd_generation_counts smd) k gens"
  have "read_loop mrs mrsic im keys ?gens ?dsm =
      Some (infos_of mrs mrsic im ?dsm keys, gens_viewed keys ?dsm ?gens, mark_read (fst ` set keys) ?dsm)"
    using Cons.prems e by (intro Cons.IH) auto
  then show ?case
    using infos_of_cong [of keys ?dsm dsm, OF other] gens_viewed_cong [of keys ?dsm dsm, OF other] mark
    by (simp add: e get gens_viewed_def)
qed

lemma data_samples_sel:
  "length infos = length ss \<Longrightarrow> map ds_value (data_samples infos ss) = ss"
  "length infos = length ss \<Longrightarrow> map ds_sample_info (data_samples infos ss) = infos"
  "length infos = length ss \<Longrightarrow> map (ds_value \<circ> (\<lambda>(i, s). \<lparr>ds_sample_info = i, ds_value = s\<rparr>)) (zip infos ss) = ss"
  by (induction infos ss rule: list_induct2) simp_all

lemma length_samples_of [simp]: "length (samples_of dsm keys) = length keys"
  by (simp add: samples_of_def)

lemma take_loop_spec:
  assumes "distinct (map fst keys)"
    and "\<forall>(ts, k) \<in> set keys. bm_contains dsm ts \<and> bm_contains im k"
  shows "take_loop mrs mrsic im keys gens dsm =
    Some (data_samples (infos_of mrs mrsic im dsm keys) (samples_of dsm keys),
      gens_viewed keys dsm gens, fold bm_remove (map fst keys) dsm)"
  using assms
proof (induction keys arbitrary: gens dsm)
  case Nil
  then show ?case by (simp add: gens_viewed_def samples_of_def)
next
  case (Cons e keys)
  obtain ts k where e: "e = (ts, k)" by (cases e)
  with Cons.prems obtain smd imd where get: "bm_get dsm ts = Some smd" "bm_get im k = Some imd"
    by (auto simp: bm_contains_def)
  let ?dsm = "bm_remove ts dsm" and ?gens = "record_instance_generation_viewed (smd_generation_counts smd) k gens"
  have other: "bm_get ?dsm t = bm_get dsm t" if "(t, l) \<in> set keys" for t l
    using that Cons.prems(1) e by (force simp: image_iff)
  have "take_loop mrs mrsic im keys ?gens ?dsm =
      Some (data_samples (infos_of mrs mrsic im ?dsm keys) (samples_of ?dsm keys),
        gens_viewed keys ?dsm ?gens, fold bm_remove (map fst keys) ?dsm)"
    using Cons.prems e by (intro Cons.IH) (auto simp: image_iff split_beta)
  then show ?case
    using infos_of_cong [of keys ?dsm dsm, OF other] gens_viewed_cong [of keys ?dsm dsm, OF other] samples_of_cong [of keys ?dsm dsm, OF other]
    by (simp add: e get gens_viewed_def)
qed

text \<open>The bare variants do the same without the information.\<close>

lemma bare_loops:
  "read_loop mrs mrsic im keys gens dsm = Some (is, gens', dsm') \<Longrightarrow> read_bare_loop keys gens dsm = Some (gens', dsm')"
  "take_loop mrs mrsic im keys gens dsm = Some (ds, gens', dsm') \<Longrightarrow> take_bare_loop keys gens dsm = Some (map ds_value ds, gens', dsm')"
  by (induction keys arbitrary: gens dsm "is" ds) (auto split: Option.bind_splits)

lemma mark_instances_viewed_spec:
  assumes "distinct (map fst gens)" and "\<forall>k \<in> fst ` set gens. bm_contains im k"
  shows "mark_instances_viewed gens im =
    Some (bm_map (\<lambda>k imd. case map_of gens k of Some g \<Rightarrow> imd\<lparr>last_generation_accessed := g\<rparr> | None \<Rightarrow> imd) im)"
  using assms
proof (induction gens arbitrary: im)
  case Nil
  have "bm_map (\<lambda>k imd. imd) im = im" by (rule bm_eqI) (simp add: option.map_ident)
  then show ?case by simp
next
  case (Cons e gens)
  obtain k g where e: "e = (k, g)" by (cases e)
  with Cons.prems obtain imd where imd: "bm_get im k = Some imd" by (auto simp: bm_contains_def)
  let ?im = "bm_insert k (imd\<lparr>last_generation_accessed := g\<rparr>) im"
  have "map_of gens k = None" using Cons.prems(1) e by (simp add: map_of_eq_None_iff)
  then have "bm_map (\<lambda>k imd. case map_of gens k of Some g \<Rightarrow> imd\<lparr>last_generation_accessed := g\<rparr> | None \<Rightarrow> imd) ?im
      = bm_map (\<lambda>k imd. case map_of (e # gens) k of Some g \<Rightarrow> imd\<lparr>last_generation_accessed := g\<rparr> | None \<Rightarrow> imd) im"
    by (intro bm_eqI) (auto simp: e imd option.map_ident)
  moreover have "mark_instances_viewed gens ?im = Some (bm_map (\<lambda>k imd. case map_of gens k of
      Some g \<Rightarrow> imd\<lparr>last_generation_accessed := g\<rparr> | None \<Rightarrow> imd) ?im)"
    using Cons.prems by (intro Cons.IH) auto
  ultimately show ?case by (simp add: e imd)
qed

definition viewed ::
    "(timestamp \<times> 'k::linorder) list \<Rightarrow> ('d, 'k) datasample_cache \<Rightarrow> ('k, instance_meta_data) btree_map" where
  "viewed keys c = bm_map (\<lambda>k imd. case map_of (gens_viewed keys (datasamples c) []) k of
     Some g \<Rightarrow> imd\<lparr>last_generation_accessed := g\<rparr> | None \<Rightarrow> imd) (instance_map c)"

lemma mark_viewed: "keys_valid keys c \<Longrightarrow> mark_instances_viewed (gens_viewed keys (datasamples c) []) (instance_map c) = Some (viewed keys c)"
  unfolding viewed_def
  by (rule mark_instances_viewed_spec) (auto simp: keys_valid_def gens_viewed_keys intro: gens_viewed_distinct)

lemma listed_viewed [simp]: "listed (c\<lparr>datasamples := dsm, instance_map := viewed keys c\<rparr>) k ts \<longleftrightarrow> listed c k ts"
  by (cases "bm_get (instance_map c) k"; cases "map_of (gens_viewed keys (datasamples c) []) k") (simp_all add: listed_def viewed_def)

text \<open>The totals exist when there is a key.\<close>

definition ranks_of :: "(timestamp \<times> 'k::linorder) list \<Rightarrow> ('d, 'k) datasample_cache \<Rightarrow> sample_info list" where
  "ranks_of keys c = infos_of (the (mrs_total c)) (the (mrsic_total keys c)) (instance_map c) (datasamples c) keys"

lemma totals_exist:
  assumes "keys_valid keys c" and "keys \<noteq> []"
  obtains mrsic mrs where "mrsic_total keys c = Some mrsic" and "mrs_total c = Some mrs"
proof -
  have "last keys \<in> set keys" using assms(2) by simp
  with assms(1) have k: "bm_contains (datasamples c) (fst (last keys))" "bm_contains (instance_map c) (snd (last keys))"
    by (auto simp: keys_valid_def split_beta)
  from k(1) have "bm_last (datasamples c) \<noteq> None" by (auto simp: last_None_iff is_empty_iff)
  with k(2) that show ?thesis by (auto simp: mrsic_total_def mrs_total_def bm_contains_def)
qed

lemma those_map_Some: "(\<And>x. x \<in> set xs \<Longrightarrow> f x = Some (h x)) \<Longrightarrow> those (map f xs) = Some (map h xs)"
  by (induction xs) auto

theorem read_by_keys_spec:
  assumes "keys_valid keys c"
  shows "read_by_keys keys c = Some (data_samples (ranks_of keys c) (samples_of (datasamples c) keys),
     c\<lparr>datasamples := mark_read (fst ` set keys) (datasamples c), instance_map := viewed keys c\<rparr>)"
proof (cases "keys = []")
  case True
  have "mark_read {} (datasamples c) = datasamples c" "viewed [] c = instance_map c"
    by (rule bm_eqI, simp add: mark_read_def viewed_def gens_viewed_def option.map_ident)+
  with True show ?thesis by (simp add: read_by_keys_def ranks_of_def samples_of_def)
next
  case False
  have "stored_samples keys (mark_read (fst ` set keys) (datasamples c)) = Some (samples_of (datasamples c) keys)"
    unfolding stored_samples_def samples_of_def
    using assms by (intro those_map_Some) (auto simp: keys_valid_def mark_read_def bm_contains_def)
  moreover obtain mrsic mrs where "mrsic_total keys c = Some mrsic" "mrs_total c = Some mrs"
    using totals_exist [OF assms False] .
  ultimately show ?thesis
    using False assms mark_viewed [OF assms]
    by (simp add: read_by_keys_def read_loop_spec keys_valid_def ranks_of_def)
qed

theorem take_by_keys_spec:
  assumes "keys_valid keys c"
  shows "take_by_keys keys c = Some (data_samples (ranks_of keys c) (samples_of (datasamples c) keys),
     c\<lparr>datasamples := fold bm_remove (map fst keys) (datasamples c), instance_map := viewed keys c\<rparr>)"
proof (cases "keys = []")
  case True
  have "viewed [] c = instance_map c"
    by (rule bm_eqI, simp add: viewed_def gens_viewed_def option.map_ident)
  with True show ?thesis by (simp add: take_by_keys_def ranks_of_def samples_of_def)
next
  case False
  obtain mrsic mrs where "mrsic_total keys c = Some mrsic" "mrs_total c = Some mrs"
    using totals_exist [OF assms False] .
  then show ?thesis
    using False assms mark_viewed [OF assms]
    by (simp add: take_by_keys_def take_loop_spec keys_valid_def ranks_of_def)
qed

lemma bare_by_keys_spec:
  assumes "keys_valid keys c"
  shows "read_bare_by_keys keys c = map_option (map_prod (map ds_value) id) (read_by_keys keys c)"
    and "take_bare_by_keys keys c = map_option (map_prod (map ds_value) id) (take_by_keys keys c)"
proof -
  let ?im = "instance_map c" and ?dsm = "datasamples c"
  have valid: "distinct (map fst keys)" "\<forall>(ts, k) \<in> set keys. bm_contains ?dsm ts \<and> bm_contains ?im k"
    using assms by (simp_all add: keys_valid_def)
  have ranks: "length (ranks_of keys c) = length keys" by (simp add: ranks_of_def)
  have "read_bare_loop keys [] ?dsm = Some (gens_viewed keys ?dsm [], mark_read (fst ` set keys) ?dsm)"
    by (rule bare_loops(1) [OF read_loop_spec [OF valid]])
  moreover have "stored_samples keys (mark_read (fst ` set keys) ?dsm) = Some (samples_of ?dsm keys)"
    unfolding stored_samples_def samples_of_def
    using assms by (intro those_map_Some) (auto simp: keys_valid_def mark_read_def bm_contains_def)
  moreover have "keys = [] \<Longrightarrow> mark_read {} ?dsm = ?dsm \<and> viewed [] c = instance_map c"
    by (intro conjI; rule bm_eqI; simp add: mark_read_def viewed_def gens_viewed_def option.map_ident)
  ultimately show "read_bare_by_keys keys c = map_option (map_prod (map ds_value) id) (read_by_keys keys c)"
    using mark_viewed [OF assms]
    by (simp add: read_bare_by_keys_def read_by_keys_spec [OF assms] ranks data_samples_sel)
  have "take_bare_loop keys [] ?dsm = Some (samples_of ?dsm keys, gens_viewed keys ?dsm [], fold bm_remove (map fst keys) ?dsm)"
    using bare_loops(2) [OF take_loop_spec [OF valid, of 0 0]] by (simp add: data_samples_sel)
  moreover have "keys = [] \<Longrightarrow> viewed [] c = instance_map c"
    by (rule bm_eqI) (simp add: viewed_def gens_viewed_def option.map_ident)
  ultimately show "take_bare_by_keys keys c = map_option (map_prod (map ds_value) id) (take_by_keys keys c)"
    using mark_viewed [OF assms]
    by (simp add: take_bare_by_keys_def take_by_keys_spec [OF assms] ranks data_samples_sel)
qed

subsection \<open>Selecting\<close>

definition hits ::
    "('d \<Rightarrow> 'k::linorder) \<Rightarrow> read_condition \<Rightarrow> ('d, 'k) datasample_cache \<Rightarrow> (timestamp \<times> ('d, 'k) sample_with_meta_data) list" where
  "hits key rc c = filter (\<lambda>(_, smd). sample_selector rc (the (bm_get (instance_map c) (smd_key key smd))) smd) (bm_entries (datasamples c))"

lemma select_loop_spec:
  "\<forall>(ts, smd) \<in> set es. bm_contains im (smd_key key smd) \<Longrightarrow>
   select_loop key rc im es = Some (map (\<lambda>(ts, smd). (ts, smd_key key smd))
     (filter (\<lambda>(_, smd). sample_selector rc (the (bm_get im (smd_key key smd))) smd) es))"
  by (induction es) (auto simp: bm_contains_def)

lemma select_keys_spec:
  assumes "dsc_inv key c"
  shows "select_keys_for_access key rc c = Some (map (\<lambda>(ts, smd). (ts, smd_key key smd)) (hits key rc c))"
proof -
  have "\<forall>(ts, smd) \<in> set (bm_entries (datasamples c)). bm_contains (instance_map c) (smd_key key smd)"
    using dsc_inv_instance [OF assms] by (fastforce simp: in_entries bm_contains_def)
  from select_loop_spec [OF this] show ?thesis by (simp add: select_keys_for_access_def hits_def)
qed

lemma hits_stored: "(ts, smd) \<in> set (hits key rc c) \<Longrightarrow> bm_get (datasamples c) ts = Some smd"
  by (simp add: hits_def in_entries)

lemma hits_distinct: "distinct (map fst (hits key rc c))"
  unfolding hits_def by (rule distinct_map_filter) simp

lemma selected_valid:
  assumes "dsc_inv key c"
  shows "keys_valid (map (\<lambda>(ts, smd). (ts, smd_key key smd)) (take n (hits key rc c))) c"
proof -
  have "distinct (map fst (take n (hits key rc c)))"
    using hits_distinct [of key rc c] by (simp add: take_map [symmetric])
  moreover have "bm_contains (datasamples c) ts \<and> bm_contains (instance_map c) (smd_key key smd)"
    if "(ts, smd) \<in> set (take n (hits key rc c))" for ts smd
    using dsc_inv_instance [OF assms] hits_stored [OF in_set_takeD [OF that]] by (fastforce simp: bm_contains_def)
  ultimately show ?thesis by (auto simp: keys_valid_def comp_def split_beta)
qed

lemma samples_of_hits:
  "samples_of (datasamples c) (map (\<lambda>(ts, smd). (ts, smd_key key smd)) (take n (hits key rc c)))
    = map (\<lambda>(_, smd). smd_sample smd) (take n (hits key rc c))"
  by (auto simp: samples_of_def dest!: in_set_takeD hits_stored)

lemma infos_of_hits:
  assumes "\<forall>(ts, smd) \<in> set es. bm_get dsm ts = Some smd"
  shows "map (\<lambda>i. (publication_handle i, info_sequence_number i)) (infos_of mrs mrsic im dsm (map (\<lambda>(ts, smd). (ts, smd_key key smd)) es))
    = map (\<lambda>(_, smd). (smd_writer_guid smd, smd_sequence_number smd)) es"
    and "map info_sample_state (infos_of mrs mrsic im dsm (map (\<lambda>(ts, smd). (ts, smd_key key smd)) es))
    = map (\<lambda>(_, smd). if sample_has_been_read smd then SS_Read else SS_NotRead) es"
    and "map info_generation_counts (infos_of mrs mrsic im dsm (map (\<lambda>(ts, smd). (ts, smd_key key smd)) es))
    = map (\<lambda>(_, smd). smd_generation_counts smd) es"
  using assms by (induction es) (auto simp: make_sample_info_def)

lemma entries_fold_remove: "bm_entries (fold bm_remove ks m) = filter (\<lambda>(k, _). k \<notin> set ks) (bm_entries m)"
  by (induction ks arbitrary: m) (auto simp: bm_remove_def intro!: filter_cong)

lemma taken_iff:
  assumes "e \<in> set (bm_entries (datasamples c))"
  shows "(case e of (ts, _) \<Rightarrow> ts \<notin> fst ` set (take n (hits key rc c))) \<longleftrightarrow> e \<notin> set (take n (hits key rc c))"
proof -
  from assms obtain ts smd where e: "e = (ts, smd)" "bm_get (datasamples c) ts = Some smd"
    by (metis in_entries surj_pair)
  have "(ts, smd') \<in> set (take n (hits key rc c)) \<Longrightarrow> smd' = smd" for smd'
    using hits_stored [OF in_set_takeD] e(2) by fastforce
  then show ?thesis by (force simp: e(1))
qed

lemma taken_entries:
  "filter (\<lambda>(ts, _). ts \<notin> fst ` set (take n (hits key rc c))) (bm_entries (datasamples c))
    = filter (\<lambda>e. e \<notin> set (take n (hits key rc c))) (bm_entries (datasamples c))"
  by (intro filter_cong refl taken_iff)

lemma dsc_inv_viewed:
  assumes "dsc_inv key c"
    and "\<And>ts smd. bm_get dsm ts = Some smd \<Longrightarrow> \<exists>smd'. bm_get (datasamples c) ts = Some smd' \<and> smd_sample smd' = smd_sample smd"
  shows "dsc_inv key (c\<lparr>datasamples := dsm, instance_map := viewed keys c\<rparr>)"
  unfolding dsc_inv_def
proof (intro allI impI)
  fix ts smd k
  assume "bm_get (datasamples (c\<lparr>datasamples := dsm, instance_map := viewed keys c\<rparr>)) ts = Some smd"
  then obtain smd' where "bm_get (datasamples c) ts = Some smd'" "smd_sample smd' = smd_sample smd"
    using assms(2) by auto
  then show "listed (c\<lparr>datasamples := dsm, instance_map := viewed keys c\<rparr>) k ts \<longleftrightarrow> k = smd_key key smd"
    using assms(1) by (simp add: dsc_inv_def)
qed

section \<open>Properties\<close>

lemma take_selected:
  assumes "dsc_inv key c"
  shows "\<exists>sel ds c'. select_keys_for_access key rc c = Some sel \<and> take_by_keys (take n sel) c = Some (ds, c')
    \<and> map ds_value ds = map (\<lambda>(_, smd). smd_sample smd) (take n (hits key rc c))
    \<and> map (\<lambda>d. (publication_handle (ds_sample_info d), info_sequence_number (ds_sample_info d))) ds
        = map (\<lambda>(_, smd). (smd_writer_guid smd, smd_sequence_number smd)) (take n (hits key rc c))
    \<and> bm_entries (datasamples c') = filter (\<lambda>e. e \<notin> set (take n (hits key rc c))) (bm_entries (datasamples c))
    \<and> dsc_inv key c'"
proof -
  let ?sel = "map (\<lambda>(ts, smd). (ts, smd_key key smd)) (hits key rc c)" and ?h = "take n (hits key rc c)"
  let ?keys = "map (\<lambda>(ts, smd). (ts, smd_key key smd)) ?h"
  let ?ds = "data_samples (ranks_of ?keys c) (samples_of (datasamples c) ?keys)"
  let ?c' = "c\<lparr>datasamples := fold bm_remove (map fst ?keys) (datasamples c), instance_map := viewed ?keys c\<rparr>"
  have len: "length (ranks_of ?keys c) = length ?keys" by (simp add: ranks_of_def)
  have h: "\<forall>(ts, smd) \<in> set ?h. bm_get (datasamples c) ts = Some smd"
    by (auto dest!: in_set_takeD hits_stored)
  have "select_keys_for_access key rc c = Some ?sel" by (rule select_keys_spec [OF assms])
  moreover have "take_by_keys (take n ?sel) c = Some (?ds, ?c')"
    using take_by_keys_spec [OF selected_valid [OF assms]] by (simp add: take_map)
  moreover have "map ds_value ?ds = map (\<lambda>(_, smd). smd_sample smd) ?h"
    by (simp add: len data_samples_sel samples_of_hits)
  moreover have "map (\<lambda>d. (publication_handle (ds_sample_info d), info_sequence_number (ds_sample_info d))) ?ds
      = map (\<lambda>(_, smd). (smd_writer_guid smd, smd_sequence_number smd)) ?h"
    using arg_cong [OF data_samples_sel(2) [of "ranks_of ?keys c" "samples_of (datasamples c) ?keys"],
        of "map (\<lambda>i. (publication_handle i, info_sequence_number i))"] infos_of_hits(1) [OF h]
    by (simp add: len comp_def ranks_of_def)
  moreover have "bm_entries (datasamples ?c') = filter (\<lambda>e. e \<notin> set ?h) (bm_entries (datasamples c))"
    by (simp add: entries_fold_remove comp_def split_beta image_comp flip: taken_entries)
  moreover have "dsc_inv key ?c'"
    by (rule dsc_inv_viewed [OF assms]) (simp split: if_splits)
  ultimately show ?thesis by blast
qed

text \<open>C24: Taking. With a cache in order, selecting by a condition and taking at most \<open>n\<close> of the selected
  samples does not panic. It hands out exactly the first \<open>n\<close> stored samples that fulfil the condition, in
  the order of their receive times, each with its writer, its number and its state; exactly these are
  removed, and the cache is in order again.\<close>

theorem take_exact:
  assumes "dsc_inv key c"
  shows "\<exists>sel ds c'. select_keys_for_access key rc c = Some sel \<and> take_by_keys (take n sel) c = Some (ds, c')
    \<and> map ds_value ds = map (\<lambda>(_, smd). smd_sample smd) (take n (hits key rc c))
    \<and> map (\<lambda>d. (publication_handle (ds_sample_info d), info_sequence_number (ds_sample_info d))) ds
        = map (\<lambda>(_, smd). (smd_writer_guid smd, smd_sequence_number smd)) (take n (hits key rc c))
    \<and> bm_entries (datasamples c') = filter (\<lambda>e. e \<notin> set (take n (hits key rc c))) (bm_entries (datasamples c))
    \<and> dsc_inv key c'"
  by (rule take_selected [OF assms])

definition sample_dsc :: "(int \<times> int, int) datasample_cache" where
  "sample_dsc = the (add_sample fst (Sample_Value (1, 20)) GUID_UNKNOWN 2 (Timestamp 5 0) (write_options_from None)
     (the (add_sample fst (Sample_Value (1, 10)) GUID_UNKNOWN 1 (Timestamp 4 0) (write_options_from None)
       (dsc_new (qos_none\<lparr>history := Some KeepAll\<rparr>)))))"

lemma sample_dsc_inv: "dsc_inv fst sample_dsc"
  and sample_dsc_eqs: "map (\<lambda>(ts, smd). (ts, smd_sample smd, sample_has_been_read smd)) (bm_entries (datasamples sample_dsc)) =
      [(Timestamp 4 0, Sample_Value (1, 10), False), (Timestamp 5 0, Sample_Value (1, 20), False)]"
proof -
  let ?c0 = "dsc_new (qos_none\<lparr>history := Some KeepAll\<rparr>) :: (int \<times> int, int) datasample_cache"
  have u0: "unlisted ?c0 (Timestamp 4 0)" by (simp add: unlisted_def listed_def dsc_new_def)
  obtain c1 where c1: "add_sample fst (Sample_Value (1, 10)) GUID_UNKNOWN 1 (Timestamp 4 0) (write_options_from None) ?c0 = Some c1"
      "dsc_inv fst c1" "dsc_qos c1 = qos_none\<lparr>history := Some KeepAll\<rparr>"
      "datasamples c1 = bm_insert (Timestamp 4 0) (smd_after fst (Sample_Value (1, 10)) GUID_UNKNOWN 1 (Timestamp 4 0) (write_options_from None) ?c0) bm_empty"
      "instance_map c1 = bm_insert 1 (imd_after fst (Sample_Value (1, 10)) (Timestamp 4 0) ?c0) bm_empty"
    using add_sample_spec [OF dsc_inv_new u0, of fst "Sample_Value (1, 10)" GUID_UNKNOWN 1 "write_options_from None"]
    by (auto simp: keys_to_remove_def sample_keep_history_limit_def sample_keep_resource_limit_def dsc_new_def qos_none_def)
  have u1: "unlisted c1 (Timestamp 5 0)"
    by (simp add: unlisted_def listed_def c1(5) imd_after_def imd_add_def imd_new_def dsc_new_def)
  obtain c2 where c2: "add_sample fst (Sample_Value (1, 20)) GUID_UNKNOWN 2 (Timestamp 5 0) (write_options_from None) c1 = Some c2"
      "dsc_inv fst c2" "datasamples c2 = bm_insert (Timestamp 5 0)
         (smd_after fst (Sample_Value (1, 20)) GUID_UNKNOWN 2 (Timestamp 5 0) (write_options_from None) c1) (datasamples c1)"
    using add_sample_spec [OF c1(2) u1, of "Sample_Value (1, 20)" GUID_UNKNOWN 2 "write_options_from None"]
    by (auto simp: keys_to_remove_def sample_keep_history_limit_def sample_keep_resource_limit_def c1(3) qos_none_def)
  have c2_eq: "sample_dsc = c2" by (simp add: sample_dsc_def c1(1) c2(1))
  show "dsc_inv fst sample_dsc" by (simp add: c2_eq c2(2))
  show "map (\<lambda>(ts, smd). (ts, smd_sample smd, sample_has_been_read smd)) (bm_entries (datasamples sample_dsc)) =
      [(Timestamp 4 0, Sample_Value (1, 10), False), (Timestamp 5 0, Sample_Value (1, 20), False)]"
    by (simp add: c2_eq c2(3) c1(4) smd_after_def less_timestamp_def)
qed

lemma hits_not_read: "hits key ReadCondition_not_read c = filter (\<lambda>(_, smd). \<not> sample_has_been_read smd) (bm_entries (datasamples c))"
  by (auto simp: hits_def ReadCondition_not_read_def sample_selector_def SampleState_any_def intro!: filter_cong)

lemma unread_marked:
  "filter (\<lambda>(_, smd). \<not> sample_has_been_read smd) (map (\<lambda>(ts, smd). (ts, if ts \<in> T then smd\<lparr>sample_has_been_read := True\<rparr> else smd)) es)
    = filter (\<lambda>(ts, _). ts \<notin> T) (filter (\<lambda>(_, smd). \<not> sample_has_been_read smd) es)"
  by (induction es) auto

lemma sample_dsc_hits: "map (\<lambda>(_, smd). smd_sample smd) (take (Suc 0) (hits fst ReadCondition_not_read sample_dsc)) = [Sample_Value (1, 10)]"
proof -
  obtain smd1 smd2 where "bm_entries (datasamples sample_dsc) = [(Timestamp 4 0, smd1), (Timestamp 5 0, smd2)]"
      "smd_sample smd1 = Sample_Value (1, 10)" "\<not> sample_has_been_read smd1"
    using sample_dsc_eqs by (auto simp: map_eq_Cons_conv)
  then show ?thesis by (simp add: hits_not_read)
qed

theorem take_exact_witness:
  "\<exists>sel ds c'. select_keys_for_access fst ReadCondition_not_read sample_dsc = Some sel
     \<and> take_by_keys (take 1 sel) sample_dsc = Some (ds, c') \<and> map ds_value ds = [Sample_Value (1, 10)]"
  using take_exact [OF sample_dsc_inv, of ReadCondition_not_read 1] sample_dsc_hits by auto

text \<open>C25: Reading. Selecting by a condition and reading at most \<open>n\<close> of the selected samples does not panic.
  It hands out exactly the first \<open>n\<close> stored samples that fulfil the condition, in the order of their
  receive times, keeps every sample, and marks exactly these as read, so that what is left for a later
  read of unread samples is exactly what was unread before and has not been handed out now.\<close>

theorem read_exact:
  assumes "dsc_inv key c"
  shows "\<exists>sel ds c'. select_keys_for_access key rc c = Some sel \<and> read_by_keys (take n sel) c = Some (ds, c')
    \<and> map ds_value ds = map (\<lambda>(_, smd). smd_sample smd) (take n (hits key rc c))
    \<and> map (\<lambda>(ts, smd). (ts, smd_sample smd)) (bm_entries (datasamples c')) = map (\<lambda>(ts, smd). (ts, smd_sample smd)) (bm_entries (datasamples c))
    \<and> hits key ReadCondition_not_read c' = filter (\<lambda>e. e \<notin> set (take n (hits key rc c))) (hits key ReadCondition_not_read c)
    \<and> dsc_inv key c'"
proof -
  let ?sel = "map (\<lambda>(ts, smd). (ts, smd_key key smd)) (hits key rc c)" and ?h = "take n (hits key rc c)"
  let ?keys = "map (\<lambda>(ts, smd). (ts, smd_key key smd)) ?h"
  let ?ds = "data_samples (ranks_of ?keys c) (samples_of (datasamples c) ?keys)"
  let ?c' = "c\<lparr>datasamples := mark_read (fst ` set ?keys) (datasamples c), instance_map := viewed ?keys c\<rparr>"
  have keys: "fst ` set ?keys = fst ` set ?h" by (simp add: image_image split_beta)
  have "select_keys_for_access key rc c = Some ?sel" by (rule select_keys_spec [OF assms])
  moreover have "read_by_keys (take n ?sel) c = Some (?ds, ?c')"
    using read_by_keys_spec [OF selected_valid [OF assms]] by (simp add: take_map)
  moreover have "map ds_value ?ds = map (\<lambda>(_, smd). smd_sample smd) ?h"
    by (simp add: ranks_of_def data_samples_sel samples_of_hits)
  moreover have "map (\<lambda>(ts, smd). (ts, smd_sample smd)) (bm_entries (datasamples ?c')) = map (\<lambda>(ts, smd). (ts, smd_sample smd)) (bm_entries (datasamples c))"
    by (auto simp: mark_read_def)
  moreover have "hits key ReadCondition_not_read ?c' = filter (\<lambda>e. e \<notin> set ?h) (hits key ReadCondition_not_read c)"
  proof -
    have "hits key ReadCondition_not_read ?c' = filter (\<lambda>(ts, _). ts \<notin> fst ` set ?h) (hits key ReadCondition_not_read c)"
      using unread_marked [of "fst ` set ?h" "bm_entries (datasamples c)"]
      unfolding hits_not_read mark_read_def keys by simp
    also have "\<dots> = filter (\<lambda>e. e \<notin> set ?h) (hits key ReadCondition_not_read c)"
      by (intro filter_cong refl taken_iff) (simp add: hits_def)
    finally show ?thesis .
  qed
  moreover have "dsc_inv key ?c'"
    by (rule dsc_inv_viewed [OF assms]) (auto simp: mark_read_def split: if_splits)
  ultimately show ?thesis by blast
qed

theorem read_exact_witness:
  "\<exists>sel ds c'. select_keys_for_access fst ReadCondition_not_read sample_dsc = Some sel
     \<and> read_by_keys (take 1 sel) sample_dsc = Some (ds, c') \<and> map ds_value ds = [Sample_Value (1, 10)]"
  using read_exact [OF sample_dsc_inv, of ReadCondition_not_read 1] sample_dsc_hits by auto

text \<open>C29: Access without sample information. Reading and taking bare samples hands out the samples that
  reading and taking with information hands out, and leaves the same cache.\<close>

theorem bare_access_equivalent:
  assumes "dsc_inv key c" and "select_keys_for_access key rc c = Some sel"
  shows "read_bare_by_keys (take n sel) c = map_option (map_prod (map ds_value) id) (read_by_keys (take n sel) c)
    \<and> take_bare_by_keys (take n sel) c = map_option (map_prod (map ds_value) id) (take_by_keys (take n sel) c)"
proof -
  have "take n sel = map (\<lambda>(ts, smd). (ts, smd_key key smd)) (take n (hits key rc c))"
    using assms(2) by (auto simp: select_keys_spec [OF assms(1)] take_map)
  then show ?thesis using bare_by_keys_spec [OF selected_valid [OF assms(1), of n rc]] by simp
qed

theorem bare_access_equivalent_witness:
  "\<exists>sel. select_keys_for_access fst ReadCondition_any sample_dsc = Some sel
     \<and> take_bare_by_keys (take 1 sel) sample_dsc = map_option (map_prod (map ds_value) id) (take_by_keys (take 1 sel) sample_dsc)"
proof -
  obtain sel where sel: "select_keys_for_access fst ReadCondition_any sample_dsc = Some sel"
    using select_keys_spec [OF sample_dsc_inv] by blast
  from bare_access_equivalent [OF sample_dsc_inv this, of 1] sel show ?thesis by blast
qed

section \<open>What is kept of an instance\<close>

text \<open>The limit in force, and what it removes: the oldest listed samples beyond it.\<close>

definition keep_limit :: "qos_policies \<Rightarrow> int option" where
  "keep_limit qos = (case sample_keep_history_limit qos of Some n \<Rightarrow> Some n | None \<Rightarrow> sample_keep_resource_limit qos)"

lemma keys_to_remove_limit:
  assumes "keep_limit qos = Some n" and "int (bm_len tss) < 2 ^ 31 - 1" and "-1 \<le> n" and "n < 2 ^ 31"
  shows "keys_to_remove qos tss = take (nat (int (bm_len tss) - n)) (bs_iter tss)"
proof -
  have "wrap_i32 (wrap_i32 (int (bm_len tss)) - n) = int (bm_len tss) - n"
    using assms(2-4) by (subst (1 2) wrap_i32_id) (auto simp: in_i32_def)
  then show ?thesis using assms(1) by (simp add: keys_to_remove_def keep_limit_def)
qed

lemma remove_oldest:
  "t \<notin> set (take m (bm_keys s)) \<and> bm_contains s t \<longleftrightarrow> t \<in> set (drop m (bm_keys s))"
proof -
  have "distinct (bm_keys s)" by (simp add: bm_keys_def)
  then have "set (take m (bm_keys s)) \<inter> set (drop m (bm_keys s)) = {}" by (rule set_take_disj_set_drop_if_distinct) simp
  moreover have "bm_contains s t \<longleftrightarrow> t \<in> set (take m (bm_keys s)) \<or> t \<in> set (drop m (bm_keys s))"
    by (metis Un_iff append_take_drop_id keys_get set_append)
  ultimately show ?thesis by auto
qed

lemma oldest_first: "t \<in> set (take m (bm_keys s)) \<Longrightarrow> t' \<in> set (drop m (bm_keys s)) \<Longrightarrow> t < t'"
  using keys_sorted [of s] by (metis append_take_drop_id sorted_wrt_append)

text \<open>C31: The history depth. Adding a sample whose receive time is new does not panic. Afterwards at most as
  many samples of its instance are stored as the history depth (or the resource limit) allows; what was
  dropped of the instance is older than all that is kept of it; and no sample of another instance is touched.\<close>

theorem history_depth_kept:
  assumes "dsc_inv key c" and "unlisted c ts" and "keep_limit (dsc_qos c) = Some n" and "0 \<le> n" and "n < 2 ^ 31"
    and "int (bm_len (instance_samples (imd_after key s ts c))) < 2 ^ 31 - 1"
  shows "\<exists>c'. add_sample key s g sn ts wo c = Some c' \<and> dsc_inv key c'
    \<and> int (card {t. \<exists>smd. bm_get (datasamples c') t = Some smd \<and> smd_key key smd = sample_key key s}) \<le> n
    \<and> (\<forall>t t'. listed c (sample_key key s) t \<and> \<not> listed c' (sample_key key s) t \<and> listed c' (sample_key key s) t' \<longrightarrow> t < t')
    \<and> (\<forall>t smd. bm_get (datasamples c) t = Some smd \<and> smd_key key smd \<noteq> sample_key key s \<longrightarrow> bm_get (datasamples c') t = Some smd)"
proof -
  let ?k = "sample_key key s" and ?imd = "imd_after key s ts c"
  let ?L = "bs_iter (instance_samples ?imd)" and ?m = "nat (int (bm_len (instance_samples ?imd)) - n)"
  obtain c' where c': "add_sample key s g sn ts wo c = Some c'" "dsc_inv key c'"
      "datasamples c' = fold bm_remove (take ?m ?L) (bm_insert ts (smd_after key s g sn ts wo c) (datasamples c))"
      "instance_map c' = bm_insert ?k (?imd\<lparr>instance_samples := fold bm_remove (take ?m ?L) (instance_samples ?imd)\<rparr>) (instance_map c)"
    using add_sample_spec [OF assms(1,2), of s g sn wo] keys_to_remove_limit [OF assms(3,6)] assms(4,5) by auto
  have new: "listed c' ?k t \<longleftrightarrow> t \<in> set (drop ?m ?L)" for t
    by (simp add: listed_def c'(4) remove_oldest)
  have old: "t \<in> set ?L \<longleftrightarrow> t = ts \<or> listed c ?k t" for t
    by (auto simp: listed_def imd_after_def imd_add_def imd_new_def split: option.splits)
  have "{t. \<exists>smd. bm_get (datasamples c') t = Some smd \<and> smd_key key smd = ?k} \<subseteq> set (drop ?m ?L)"
    using dsc_inv_instance [OF c'(2)] new by (fastforce simp: listed_def)
  then have "card {t. \<exists>smd. bm_get (datasamples c') t = Some smd \<and> smd_key key smd = ?k} \<le> card (set (drop ?m ?L))"
    by (intro card_mono) auto
  also have "\<dots> \<le> length (drop ?m ?L)" by (rule card_length)
  also have "\<dots> \<le> nat n" by (simp add: bm_len_def bm_keys_def)
  finally have "int (card {t. \<exists>smd. bm_get (datasamples c') t = Some smd \<and> smd_key key smd = ?k}) \<le> n"
    using assms(4) by simp
  moreover have "t < t'" if "listed c ?k t" "\<not> listed c' ?k t" "listed c' ?k t'" for t t'
  proof -
    have "t \<in> set (take ?m ?L)" using that(1,2) old new by (metis Un_iff append_take_drop_id set_append)
    with that(3) show ?thesis by (simp add: new oldest_first)
  qed
  moreover have "bm_get (datasamples c') t = Some smd" if "bm_get (datasamples c) t = Some smd" "smd_key key smd \<noteq> ?k" for t smd
  proof -
    have "\<not> listed c ?k t" using assms(1) that unfolding dsc_inv_def by metis
    have "t \<noteq> ts" using assms(2) dsc_inv_instance [OF assms(1) that(1)] unfolding unlisted_def listed_def by blast
    then have "t \<notin> set (take ?m ?L)" using old [of t] \<open>\<not> listed c ?k t\<close> by (metis in_set_takeD)
    then show ?thesis using that(1) \<open>t \<noteq> ts\<close> by (simp add: c'(3))
  qed
  ultimately show ?thesis using c'(1,2) by blast
qed

theorem history_depth_kept_witness:
  "\<exists>c'. add_sample fst (Sample_Value (1, 10)) GUID_UNKNOWN 1 (Timestamp 4 0) (write_options_from None) (dsc_new qos_none :: (int \<times> int, int) datasample_cache) = Some c'
    \<and> int (card {t. \<exists>smd. bm_get (datasamples c') t = Some smd \<and> smd_key fst smd = 1}) \<le> 1"
proof -
  let ?c = "dsc_new qos_none :: (int \<times> int, int) datasample_cache"
  have "unlisted ?c (Timestamp 4 0)" "keep_limit (dsc_qos ?c) = Some 1"
      "int (bm_len (instance_samples (imd_after fst (Sample_Value (1, 10)) (Timestamp 4 0) ?c))) < 2 ^ 31 - 1"
    by (simp_all add: unlisted_def listed_def dsc_new_def keep_limit_def sample_keep_history_limit_def qos_none_def
        imd_after_def imd_add_def imd_new_def bm_len_def)
  from history_depth_kept [OF dsc_inv_new this(1,2) _ _ this(3), of GUID_UNKNOWN 1 "write_options_from None"]
  show ?thesis by auto
qed

text \<open>A reader that keeps all samples and sets the limit per instance to unlimited gets nothing: the
  limit of -1 is taken as a number, so that every addition removes all samples of the instance, the new
  one included.\<close>

theorem unlimited_per_instance_keeps_none:
  assumes "dsc_inv key c" and "unlisted c ts" and "history (dsc_qos c) = Some KeepAll"
    and "resource_limits (dsc_qos c) = Some rl" and "max_samples_per_instance rl = LENGTH_UNLIMITED"
    and "int (bm_len (instance_samples (imd_after key s ts c))) < 2 ^ 31 - 1"
  shows "\<exists>c'. add_sample key s g sn ts wo c = Some c'
    \<and> (\<forall>t smd. bm_get (datasamples c') t = Some smd \<longrightarrow> smd_key key smd \<noteq> sample_key key s)"
proof -
  let ?k = "sample_key key s" and ?imd = "imd_after key s ts c"
  let ?L = "bs_iter (instance_samples ?imd)"
  have lim: "keep_limit (dsc_qos c) = Some (-1)"
    using assms(3-5) by (simp add: keep_limit_def sample_keep_history_limit_def sample_keep_resource_limit_def LENGTH_UNLIMITED_def)
  have "keys_to_remove (dsc_qos c) (instance_samples ?imd) = ?L"
    using keys_to_remove_limit [OF lim assms(6)] by (simp add: bm_len_def bm_keys_def)
  then obtain c' where c': "add_sample key s g sn ts wo c = Some c'" "dsc_inv key c'"
      "instance_map c' = bm_insert ?k (?imd\<lparr>instance_samples := fold bm_remove ?L (instance_samples ?imd)\<rparr>) (instance_map c)"
    using add_sample_spec [OF assms(1,2), of s g sn wo] by auto
  have "\<not> listed c' ?k t" for t by (simp add: listed_def c'(3))
  with dsc_inv_instance [OF c'(2)] c'(1) show ?thesis by (fastforce simp: listed_def)
qed

theorem unlimited_per_instance_keeps_none_witness:
  "\<exists>rl c'. max_samples_per_instance rl = LENGTH_UNLIMITED
    \<and> add_sample fst (Sample_Value (1, 10)) GUID_UNKNOWN 1 (Timestamp 4 0) (write_options_from None)
        (dsc_new (qos_none\<lparr>history := Some KeepAll, resource_limits := Some rl\<rparr>) :: (int \<times> int, int) datasample_cache) = Some c'
    \<and> bm_get (datasamples c') (Timestamp 4 0) = None"
proof -
  let ?rl = "\<lparr>max_samples = LENGTH_UNLIMITED, max_instances = LENGTH_UNLIMITED, max_samples_per_instance = LENGTH_UNLIMITED\<rparr>"
  let ?c = "dsc_new (qos_none\<lparr>history := Some KeepAll, resource_limits := Some ?rl\<rparr>) :: (int \<times> int, int) datasample_cache"
  have c: "unlisted ?c (Timestamp 4 0)" "history (dsc_qos ?c) = Some KeepAll" "resource_limits (dsc_qos ?c) = Some ?rl"
      "int (bm_len (instance_samples (imd_after fst (Sample_Value (1, 10)) (Timestamp 4 0) ?c))) < 2 ^ 31 - 1"
    by (simp_all add: unlisted_def listed_def dsc_new_def qos_none_def imd_after_def imd_add_def imd_new_def bm_len_def)
  obtain c' where c': "add_sample fst (Sample_Value (1, 10)) GUID_UNKNOWN 1 (Timestamp 4 0) (write_options_from None) ?c = Some c'"
      "\<forall>t smd. bm_get (datasamples c') t = Some smd \<longrightarrow> smd_key fst smd \<noteq> 1"
    using unlimited_per_instance_keeps_none [OF dsc_inv_new c(1-3) _ c(4), of GUID_UNKNOWN 1 "write_options_from None"] by auto
  have "bm_get (datasamples c') t = None" for t
  proof (rule ccontr)
    assume "bm_get (datasamples c') t \<noteq> None"
    then obtain smd where smd: "bm_get (datasamples c') t = Some smd" by blast
    with c'(1) have "smd_key fst smd = 1"
      by (auto simp: add_sample_def Let_def dsc_new_def split: if_splits)
    with c'(2) smd show False by blast
  qed
  with c'(1) show ?thesis by (intro exI [of _ ?rl] exI [of _ c']) simp
qed

section \<open>Instances as their history tells\<close>

text \<open>
  The caches that a new one can become, with the samples added so far: samples are added at receive times
  that are listed nowhere, and selected samples are read or taken in between.
\<close>

inductive dsc_reach :: "('d \<Rightarrow> 'k::linorder) \<Rightarrow> qos_policies \<Rightarrow> ('d, 'k) sample list \<Rightarrow> ('d, 'k) datasample_cache \<Rightarrow> bool"
  for key :: "'d \<Rightarrow> 'k::linorder" and qos :: qos_policies where
  reach_new: "dsc_reach key qos [] (dsc_new qos)"
| reach_add: "dsc_reach key qos log c \<Longrightarrow> unlisted c ts \<Longrightarrow> add_sample key s g sn ts wo c = Some c' \<Longrightarrow> dsc_reach key qos (log @ [s]) c'"
| reach_read: "dsc_reach key qos log c \<Longrightarrow> keys_valid keys c \<Longrightarrow> read_by_keys keys c = Some (ds, c') \<Longrightarrow> dsc_reach key qos log c'"
| reach_take: "dsc_reach key qos log c \<Longrightarrow> keys_valid keys c \<Longrightarrow> take_by_keys keys c = Some (ds, c') \<Longrightarrow> dsc_reach key qos log c'"

text \<open>The specification: the samples of one instance in the order they came, and how often a value follows a disposal.\<close>

definition instance_log :: "('d \<Rightarrow> 'k) \<Rightarrow> 'k \<Rightarrow> ('d, 'k) sample list \<Rightarrow> ('d, 'k) sample list" where
  "instance_log key k log = filter (\<lambda>s. sample_key key s = k) log"

fun rebirths :: "('d, 'k) sample list \<Rightarrow> nat" where
  "rebirths (s # s' # ss) =
     (if sample_instance_state s = Inst_NotAliveDisposed \<and> sample_instance_state s' = Inst_Alive then 1 else 0) + rebirths (s' # ss)"
| "rebirths _ = 0"

definition imd_matches :: "instance_meta_data \<Rightarrow> ('d, 'k) sample list \<Rightarrow> bool" where
  "imd_matches imd l \<longleftrightarrow> l \<noteq> [] \<and> imd_instance_state imd = sample_instance_state (last l)
     \<and> latest_generation_available imd = \<lparr>disposed_generation_count = wrap_i32 (int (rebirths l)), no_writers_generation_count = 0\<rparr>"

lemma rebirths_snoc:
  "rebirths (l @ [s]) = rebirths l + (if l \<noteq> [] \<and> sample_instance_state (last l) = Inst_NotAliveDisposed \<and> sample_instance_state s = Inst_Alive then 1 else 0)"
  by (induction l rule: rebirths.induct) simp_all

lemma wrap_i32_Suc: "wrap_i32 (1 + wrap_i32 a) = wrap_i32 (1 + a)"
proof -
  have "(1 + ((a + 2 ^ 31) mod 2 ^ 32 - 2 ^ 31)) + 2 ^ 31 = 1 + (a + 2 ^ 31) mod 2 ^ 32" by simp
  then show ?thesis unfolding wrap_i32_def by (simp only: mod_add_right_eq add.assoc)
qed

lemma imd_matches_samples [simp]: "imd_matches (imd\<lparr>instance_samples := tss\<rparr>) l \<longleftrightarrow> imd_matches imd l"
  by (simp add: imd_matches_def)

lemma instance_log_simps [simp]:
  "instance_log key k [] = []"
  "instance_log key k (log @ [s]) = instance_log key k log @ (if sample_key key s = k then [s] else [])"
  by (simp_all add: instance_log_def)

lemma imd_after_matches:
  assumes "case bm_get (instance_map c) (sample_key key s) of None \<Rightarrow> l = [] | Some imd \<Rightarrow> imd_matches imd l"
  shows "imd_matches (imd_after key s ts c) (l @ [s])"
proof (cases "bm_get (instance_map c) (sample_key key s)")
  case None
  with assms show ?thesis
    by (cases s) (simp_all add: imd_matches_def imd_after_def imd_add_def imd_new_def gc_zero_def wrap_i32_def)
next
  case (Some imd)
  with assms have "imd_matches imd l" by simp
  with Some show ?thesis
    by (cases s; cases "last l")
      (simp_all add: imd_matches_def imd_after_def imd_add_def rebirths_snoc wrap_i32_Suc add.commute)
qed

lemma viewed_matches: "(case bm_get (viewed keys c) k of None \<Rightarrow> l = [] | Some imd \<Rightarrow> imd_matches imd l)
    \<longleftrightarrow> (case bm_get (instance_map c) k of None \<Rightarrow> l = [] | Some imd \<Rightarrow> imd_matches imd l)"
  by (auto simp: viewed_def imd_matches_def split: option.splits)

lemma dsc_reach_matches:
  "dsc_reach key qos log c \<Longrightarrow> dsc_inv key c
    \<and> (\<forall>k. case bm_get (instance_map c) k of None \<Rightarrow> instance_log key k log = [] | Some imd \<Rightarrow> imd_matches imd (instance_log key k log))"
proof (induction rule: dsc_reach.induct)
  case reach_new
  then show ?case using dsc_inv_new [of key qos] by (simp add: dsc_new_def)
next
  case (reach_add log c ts s g sn wo c')
  obtain c1 ks where c1: "add_sample key s g sn ts wo c = Some c1" "dsc_inv key c1"
      "instance_map c1 = bm_insert (sample_key key s)
         ((imd_after key s ts c)\<lparr>instance_samples := fold bm_remove ks (instance_samples (imd_after key s ts c))\<rparr>) (instance_map c)"
    using add_sample_spec [OF conjunct1 [OF reach_add.IH] reach_add.hyps(2), of s g sn wo] by blast
  have "imd_matches (imd_after key s ts c) (instance_log key (sample_key key s) log @ [s])"
    using reach_add.IH by (intro imd_after_matches) blast
  then have "case bm_get (instance_map c1) k of None \<Rightarrow> instance_log key k (log @ [s]) = []
      | Some imd \<Rightarrow> imd_matches imd (instance_log key k (log @ [s]))" for k
    using c1(3) reach_add.IH [THEN conjunct2, THEN spec, of k] by (cases "k = sample_key key s") (auto split: option.splits)
  then show ?case using c1(1,2) reach_add.hyps(3) by simp
next
  case (reach_read log c keys ds c')
  then have "c' = c\<lparr>datasamples := mark_read (fst ` set keys) (datasamples c), instance_map := viewed keys c\<rparr>"
    by (simp add: read_by_keys_spec)
  moreover have "dsc_inv key (c\<lparr>datasamples := mark_read (fst ` set keys) (datasamples c), instance_map := viewed keys c\<rparr>)"
    using reach_read.IH by (intro dsc_inv_viewed) (auto simp: mark_read_def split: if_splits)
  ultimately show ?case using reach_read.IH by (simp add: viewed_matches)
next
  case (reach_take log c keys ds c')
  then have "c' = c\<lparr>datasamples := fold bm_remove (map fst keys) (datasamples c), instance_map := viewed keys c\<rparr>"
    by (simp add: take_by_keys_spec)
  moreover have "dsc_inv key (c\<lparr>datasamples := fold bm_remove (map fst keys) (datasamples c), instance_map := viewed keys c\<rparr>)"
    using reach_take.IH by (intro dsc_inv_viewed) (auto split: if_splits)
  ultimately show ?case using reach_take.IH by (simp add: viewed_matches)
qed

text \<open>C30: Instances follow their history. Whatever is added, read and taken, an instance is known exactly
  when one of its samples was added; its state is that of its last sample; its disposed generation count
  is the number of times a value followed a disposal (as a 32 bit number), and it never counts a
  generation that ended because no writer was left.\<close>

theorem instance_follows_history:
  assumes "dsc_reach key qos log c"
  shows "case bm_get (instance_map c) k of
      None \<Rightarrow> instance_log key k log = []
    | Some imd \<Rightarrow> instance_log key k log \<noteq> []
        \<and> imd_instance_state imd = sample_instance_state (last (instance_log key k log))
        \<and> disposed_generation_count (latest_generation_available imd) = wrap_i32 (int (rebirths (instance_log key k log)))
        \<and> no_writers_generation_count (latest_generation_available imd) = 0"
  using dsc_reach_matches [OF assms, THEN conjunct2, THEN spec, of k] by (auto simp: imd_matches_def split: option.splits)

theorem instance_follows_history_witness:
  "\<exists>c imd. dsc_reach fst qos_none [Sample_Dispose 1, Sample_Value (1, 10 :: int)] (c :: (int \<times> int, int) datasample_cache)
     \<and> bm_get (instance_map c) 1 = Some imd \<and> disposed_generation_count (latest_generation_available imd) = 1"
proof -
  let ?c0 = "dsc_new qos_none :: (int \<times> int, int) datasample_cache" and ?wo = "write_options_from None"
  have u0: "unlisted ?c0 (Timestamp 4 0)" by (simp add: unlisted_def listed_def dsc_new_def)
  obtain c1 where c1: "add_sample fst (Sample_Dispose 1) GUID_UNKNOWN 1 (Timestamp 4 0) ?wo ?c0 = Some c1"
    using add_sample_ok [OF dsc_inv_new u0] by blast
  have r1: "dsc_reach fst qos_none [Sample_Dispose 1] c1" using reach_add [OF reach_new u0 c1] by simp
  have "bm_get (instance_map c1) k = None" if "k \<noteq> 1" for k
    using c1 that by (auto simp: add_sample_def Let_def dsc_new_def split: if_splits)
  moreover have "\<forall>imd. bm_get (instance_map c1) 1 = Some imd \<longrightarrow> \<not> bs_contains (instance_samples imd) (Timestamp 5 0)"
    using c1 by (auto simp: add_sample_def Let_def dsc_new_def imd_add_def imd_new_def split: if_splits)
  ultimately have u1: "unlisted c1 (Timestamp 5 0)" unfolding unlisted_def listed_def by (metis option.distinct(1))
  obtain c2 where c2: "add_sample fst (Sample_Value (1, 10)) GUID_UNKNOWN 2 (Timestamp 5 0) ?wo c1 = Some c2"
    using add_sample_ok [OF conjunct1 [OF dsc_reach_matches [OF r1]] u1] by blast
  have r2: "dsc_reach fst qos_none [Sample_Dispose 1, Sample_Value (1, 10)] c2" using reach_add [OF r1 u1 c2] by simp
  from instance_follows_history [OF this, of 1] show ?thesis
    using r2 by (auto simp: instance_log_def wrap_i32_def split: option.splits)
qed

end
