(* ===== verification/Data_Reader.thy ===== *)
theory Data_Reader
  imports Dds_Cache Datasample_Cache "HOL-Library.Multiset"
begin

text \<open>
  The readers that the application holds: the simple data reader, which takes changes from the topic
  cache one by one and deserializes them (src/src/dds/with_key/simpledatareader.rs), and the data reader
  on top of it, which keeps the deserialized samples until they are taken
  (src/src/dds/with_key/datareader.rs); the hash of a key (src/src/dds/key.rs).

  The data type, its keys and its deserializer are the application's and are parameters, as are the CDR
  encoding and the MD5 digest behind the key hash. The topic cache is the one that the reader sees behind
  its lock and does not change during a call. \<open>clock n\<close> is the \<open>n\<close>-th reading of the clock.
  \<^const>\<open>None\<close> is a panic or a loop that does not end; errors that are returned are values.
\<close>

section \<open>Key hashes\<close>

record 'k key_traits =
  key_cdr_bytes :: "'k \<Rightarrow> bytes option"
  key_max_size :: "nat option"
  md5_compute :: "bytes \<Rightarrow> bytes"

definition hash_key :: "'k key_traits \<Rightarrow> bool \<Rightarrow> 'k \<Rightarrow> key_hash" where
  "hash_key kt force_md5 k =
     (let cdr_bytes = (case key_cdr_bytes kt k of Some bs \<Rightarrow> bs | None \<Rightarrow> replicate 16 0)
      in KeyHash (if force_md5 \<or> (case key_max_size kt of Some n \<Rightarrow> n > 16 | None \<Rightarrow> True)
                  then md5_compute kt cdr_bytes
                  else take 16 (cdr_bytes @ replicate (16 - length cdr_bytes) 0)))"

section \<open>The simple data reader\<close>

record ('d, 'k) deserializer_adapter =
  supported_encodings :: "representation_identifier list"
  from_bytes_with :: "bytes \<Rightarrow> representation_identifier \<Rightarrow> 'd option"
  key_from_bytes_with :: "bytes \<Rightarrow> representation_identifier \<Rightarrow> 'k option"
  keyed_key :: "'d \<Rightarrow> 'k"
  keyed_traits :: "'k key_traits"

datatype read_error = ReadError_Deserialization | ReadError_UnknownKey

type_synonym 'a read_result = "read_error + 'a"

text \<open>The state of reading, with the number of clock readings made so far.\<close>

record 'k read_state =
  latest_instant :: timestamp
  last_read_sn :: "(guid, seqnum) btree_map"
  hash_to_key_map :: "key_hash \<rightharpoonup> 'k"
  rs_clock_reads :: nat

definition read_state_new :: "'k read_state" where
  "read_state_new = \<lparr>latest_instant = Timestamp_ZERO, last_read_sn = bm_empty, hash_to_key_map = Map.empty, rs_clock_reads = 0\<rparr>"

text \<open>The first change that the iterator of a reliable read yields: writer by writer, ranges evaluated on demand.\<close>

fun next_reliable ::
    "topic_cache \<Rightarrow> (guid, seqnum) btree_map \<Rightarrow> (guid \<times> (seqnum, timestamp) btree_map) list \<Rightarrow> (timestamp \<times> cache_change) option option" where
  "next_reliable tc lr [] = Some None"
| "next_reliable tc lr ((g, snm) # ws) =
     do { es \<leftarrow> reliable_range tc lr g snm;
          case List.map_filter (\<lambda>(_, ts). map_option (Pair ts) (tc_get_change tc ts)) es of
            [] \<Rightarrow> next_reliable tc lr ws
          | change # _ \<Rightarrow> Some (Some change) }"

definition try_take_undecoded ::
    "bool \<Rightarrow> (nat \<Rightarrow> timestamp) \<Rightarrow> topic_cache \<Rightarrow> 'k read_state \<Rightarrow> (timestamp \<times> cache_change) option option" where
  "try_take_undecoded reliable clock tc rs =
     (if reliable then next_reliable tc (last_read_sn rs) (bm_entries (tc_sequence_numbers tc))
      else map_option (\<lambda>ccs. case ccs of [] \<Rightarrow> None | change # _ \<Rightarrow> Some change)
             (get_changes_in_range_best_effort tc (latest_instant rs) (clock (rs_clock_reads rs))))"

definition update_hash_to_key_map ::
    "('d, 'k) deserializer_adapter \<Rightarrow> ('d, 'k) sample \<Rightarrow> (key_hash \<rightharpoonup> 'k) \<Rightarrow> (key_hash \<rightharpoonup> 'k)" where
  "update_hash_to_key_map A s h =
     (let instance_key = sample_key (keyed_key A) s in h(hash_key (keyed_traits A) False instance_key \<mapsto> instance_key))"

definition deserialize_with ::
    "('d, 'k) deserializer_adapter \<Rightarrow> timestamp \<Rightarrow> cache_change \<Rightarrow> (key_hash \<rightharpoonup> 'k) \<Rightarrow>
     ('d, 'k) deserialized_cache_change read_result \<times> (key_hash \<rightharpoonup> 'k)" where
  "deserialize_with A ts cc h =
     (case data_value cc of
        Data_Payload sp \<Rightarrow>
          (case find (\<lambda>r. r = representation_identifier sp) (supported_encodings A) of
             Some recognized_rep_id \<Rightarrow>
               (case from_bytes_with A (sp_value sp) recognized_rep_id of
                  Some payload \<Rightarrow> let p = Sample_Value payload in (Inr (dcc_new ts cc p), update_hash_to_key_map A p h)
                | None \<Rightarrow> (Inl ReadError_Deserialization, h))
           | None \<Rightarrow> (Inl ReadError_Deserialization, h))
      | DisposeByKey _ serialized_key \<Rightarrow>
          (case key_from_bytes_with A (sp_value serialized_key) (representation_identifier serialized_key) of
             Some key \<Rightarrow> let k = Sample_Dispose key in (Inr (dcc_new ts cc k), update_hash_to_key_map A k h)
           | None \<Rightarrow> (Inl ReadError_Deserialization, h))
      | DisposeByKeyHash _ kh \<Rightarrow>
          (case h kh of
             Some key \<Rightarrow> (Inr (dcc_new ts cc (Sample_Dispose key)), h)
           | None \<Rightarrow> (Inl ReadError_UnknownKey, h)))"

fun is_unknown_key :: "'a read_result \<Rightarrow> bool" where
  "is_unknown_key (Inl ReadError_UnknownKey) = True"
| "is_unknown_key _ = False"

text \<open>The read pointers after a change has been handed out, and the map of key hashes.\<close>

definition advance_read_state :: "timestamp \<Rightarrow> cache_change \<Rightarrow> (key_hash \<rightharpoonup> 'k) \<Rightarrow> 'k read_state \<Rightarrow> 'k read_state" where
  "advance_read_state ts cc h rs = rs\<lparr>latest_instant := max (latest_instant rs) ts,
     last_read_sn := bm_insert (writer_guid cc) (sequence_number cc) (last_read_sn rs), hash_to_key_map := h\<rparr>"

text \<open>The loop: a change whose key hash is unknown is skipped, but the read pointers stay.\<close>

partial_function (option) try_take_loop ::
    "('d, 'k) deserializer_adapter \<Rightarrow> bool \<Rightarrow> (nat \<Rightarrow> timestamp) \<Rightarrow> topic_cache \<Rightarrow> 'k read_state \<Rightarrow>
     (('d, 'k) deserialized_cache_change option read_result \<times> 'k read_state) option" where
  "try_take_loop A reliable clock tc rs =
     do { undecoded \<leftarrow> try_take_undecoded reliable clock tc rs;
          let rs1 = (if reliable then rs else rs\<lparr>rs_clock_reads := rs_clock_reads rs + 1\<rparr>)
          in case undecoded of
               None \<Rightarrow> Some (Inr None, rs1)
             | Some (ts, cc) \<Rightarrow>
                 let (result, h) = deserialize_with A ts cc (hash_to_key_map rs1)
                 in if is_unknown_key result then try_take_loop A reliable clock tc (rs1\<lparr>hash_to_key_map := h\<rparr>)
                    else Some (map_sum id Some result, advance_read_state ts cc h rs1) }"

definition try_take_one ::
    "('d, 'k) deserializer_adapter \<Rightarrow> qos_policies \<Rightarrow> (nat \<Rightarrow> timestamp) \<Rightarrow> topic_cache \<Rightarrow> 'k read_state \<Rightarrow>
     (('d, 'k) deserialized_cache_change option read_result \<times> 'k read_state) option" where
  "try_take_one A qos clock tc rs = try_take_loop A (is_reliable qos) clock tc rs"

section \<open>The data reader\<close>

record (overloaded) ('d, 'k) data_reader =
  dr_qos :: qos_policies
  dr_read_state :: "'k read_state"
  dr_datasample_cache :: "('d, 'k) datasample_cache"

type_synonym ('a, 'd, 'k) dr_result = "('a read_result \<times> ('d, 'k) data_reader) option"

definition from_simple_data_reader :: "qos_policies \<Rightarrow> 'k::linorder read_state \<Rightarrow> ('d, 'k) data_reader" where
  "from_simple_data_reader qos rs = \<lparr>dr_qos = qos, dr_read_state = rs, dr_datasample_cache = dsc_new qos\<rparr>"

partial_function (option) fill_and_lock_local_datasample_cache ::
    "('d, 'k::linorder) deserializer_adapter \<Rightarrow> (nat \<Rightarrow> timestamp) \<Rightarrow> topic_cache \<Rightarrow> ('d, 'k) data_reader \<Rightarrow> (unit, 'd, 'k) dr_result" where
  "fill_and_lock_local_datasample_cache A clock tc dr =
     do { (taken, rs) \<leftarrow> try_take_one A (dr_qos dr) clock tc (dr_read_state dr);
          let dr1 = dr\<lparr>dr_read_state := rs\<rparr>
          in case taken of
               Inl e \<Rightarrow> Some (Inl e, dr1)
             | Inr None \<Rightarrow> Some (Inr (), dr1)
             | Inr (Some dcc) \<Rightarrow>
                 do { c \<leftarrow> fill_from_deserialized_cache_change (keyed_key A) dcc (dr_datasample_cache dr1);
                      fill_and_lock_local_datasample_cache A clock tc (dr1\<lparr>dr_datasample_cache := c\<rparr>) } }"

text \<open>The common shape of the access functions: fill, select, access; an error of the filling is returned.\<close>

definition fill_then ::
    "('d, 'k::linorder) deserializer_adapter \<Rightarrow> (nat \<Rightarrow> timestamp) \<Rightarrow> topic_cache \<Rightarrow>
     (('d, 'k) datasample_cache \<Rightarrow> ('a \<times> ('d, 'k) datasample_cache) option) \<Rightarrow> ('d, 'k) data_reader \<Rightarrow> ('a, 'd, 'k) dr_result" where
  "fill_then A clock tc access dr =
     do { (filled, dr1) \<leftarrow> fill_and_lock_local_datasample_cache A clock tc dr;
          case filled of
            Inl e \<Rightarrow> Some (Inl e, dr1)
          | Inr _ \<Rightarrow> do { (result, c) \<leftarrow> access (dr_datasample_cache dr1);
                         Some (Inr result, dr1\<lparr>dr_datasample_cache := c\<rparr>) } }"

definition dr_read ::
    "('d, 'k::linorder) deserializer_adapter \<Rightarrow> (nat \<Rightarrow> timestamp) \<Rightarrow> topic_cache \<Rightarrow> nat \<Rightarrow> read_condition \<Rightarrow> ('d, 'k) data_reader \<Rightarrow>
     (('d, 'k) data_sample list, 'd, 'k) dr_result" where
  "dr_read A clock tc max_n rc = fill_then A clock tc
     (\<lambda>c. do { selected \<leftarrow> select_keys_for_access (keyed_key A) rc c; read_by_keys (take max_n selected) c })"

definition dr_take ::
    "('d, 'k::linorder) deserializer_adapter \<Rightarrow> (nat \<Rightarrow> timestamp) \<Rightarrow> topic_cache \<Rightarrow> nat \<Rightarrow> read_condition \<Rightarrow> ('d, 'k) data_reader \<Rightarrow>
     (('d, 'k) data_sample list, 'd, 'k) dr_result" where
  "dr_take A clock tc max_n rc = fill_then A clock tc
     (\<lambda>c. do { selected \<leftarrow> select_keys_for_access (keyed_key A) rc c; take_by_keys (take max_n selected) c })"

text \<open>\<open>Vec::pop\<close> of a result, which gives the last element.\<close>

definition pop_result :: "('a list, 'd, 'k) dr_result \<Rightarrow> ('a option, 'd, 'k) dr_result" where
  "pop_result res = map_option (\<lambda>(r, dr). (map_sum id (\<lambda>ds. if ds = [] then None else Some (last ds)) r, dr)) res"

definition read_next_sample ::
    "('d, 'k::linorder) deserializer_adapter \<Rightarrow> (nat \<Rightarrow> timestamp) \<Rightarrow> topic_cache \<Rightarrow> ('d, 'k) data_reader \<Rightarrow>
     (('d, 'k) data_sample option, 'd, 'k) dr_result" where
  "read_next_sample A clock tc dr = pop_result (dr_read A clock tc 1 ReadCondition_not_read dr)"

definition take_next_sample ::
    "('d, 'k::linorder) deserializer_adapter \<Rightarrow> (nat \<Rightarrow> timestamp) \<Rightarrow> topic_cache \<Rightarrow> ('d, 'k) data_reader \<Rightarrow>
     (('d, 'k) data_sample option, 'd, 'k) dr_result" where
  "take_next_sample A clock tc dr = pop_result (dr_take A clock tc 1 ReadCondition_not_read dr)"

definition read_bare ::
    "('d, 'k::linorder) deserializer_adapter \<Rightarrow> (nat \<Rightarrow> timestamp) \<Rightarrow> topic_cache \<Rightarrow> nat \<Rightarrow> read_condition \<Rightarrow> ('d, 'k) data_reader \<Rightarrow>
     (('d, 'k) sample list, 'd, 'k) dr_result" where
  "read_bare A clock tc max_n rc = fill_then A clock tc
     (\<lambda>c. do { selected \<leftarrow> select_keys_for_access (keyed_key A) rc c; read_bare_by_keys (take max_n selected) c })"

definition take_bare ::
    "('d, 'k::linorder) deserializer_adapter \<Rightarrow> (nat \<Rightarrow> timestamp) \<Rightarrow> topic_cache \<Rightarrow> nat \<Rightarrow> read_condition \<Rightarrow> ('d, 'k) data_reader \<Rightarrow>
     (('d, 'k) sample list, 'd, 'k) dr_result" where
  "take_bare A clock tc max_n rc = fill_then A clock tc
     (\<lambda>c. do { selected \<leftarrow> select_keys_for_access (keyed_key A) rc c; take_bare_by_keys (take max_n selected) c })"

definition usize_max :: nat where
  "usize_max = 2 ^ 64 - 1"

definition conditional_iterator ::
    "('d, 'k::linorder) deserializer_adapter \<Rightarrow> (nat \<Rightarrow> timestamp) \<Rightarrow> topic_cache \<Rightarrow> read_condition \<Rightarrow> ('d, 'k) data_reader \<Rightarrow>
     (('d, 'k) sample list, 'd, 'k) dr_result" where
  "conditional_iterator A clock tc rc dr = read_bare A clock tc usize_max rc dr"

definition dr_iterator ::
    "('d, 'k::linorder) deserializer_adapter \<Rightarrow> (nat \<Rightarrow> timestamp) \<Rightarrow> topic_cache \<Rightarrow> ('d, 'k) data_reader \<Rightarrow>
     (('d, 'k) sample list, 'd, 'k) dr_result" where
  "dr_iterator A clock tc dr = read_bare A clock tc usize_max ReadCondition_not_read dr"

definition into_conditional_iterator ::
    "('d, 'k::linorder) deserializer_adapter \<Rightarrow> (nat \<Rightarrow> timestamp) \<Rightarrow> topic_cache \<Rightarrow> read_condition \<Rightarrow> ('d, 'k) data_reader \<Rightarrow>
     (('d, 'k) sample list, 'd, 'k) dr_result" where
  "into_conditional_iterator A clock tc rc dr = take_bare A clock tc usize_max rc dr"

definition into_iterator ::
    "('d, 'k::linorder) deserializer_adapter \<Rightarrow> (nat \<Rightarrow> timestamp) \<Rightarrow> topic_cache \<Rightarrow> ('d, 'k) data_reader \<Rightarrow>
     (('d, 'k) sample list, 'd, 'k) dr_result" where
  "into_iterator A clock tc dr = take_bare A clock tc usize_max ReadCondition_not_read dr"

subsection \<open>Access by instance\<close>

datatype select_by_key = Select_This | Select_Next

definition infer_key :: "'k::linorder option \<Rightarrow> select_by_key \<Rightarrow> ('d, 'k) datasample_cache \<Rightarrow> 'k option" where
  "infer_key instance_key this_or_next c =
     (case instance_key of
        Some k \<Rightarrow> (case this_or_next of Select_This \<Rightarrow> Some k | Select_Next \<Rightarrow> next_key k c)
      | None \<Rightarrow> map_option fst (bm_first (instance_map c)))"

definition read_instance ::
    "('d, 'k::linorder) deserializer_adapter \<Rightarrow> (nat \<Rightarrow> timestamp) \<Rightarrow> topic_cache \<Rightarrow> nat \<Rightarrow> read_condition \<Rightarrow> 'k option \<Rightarrow> select_by_key \<Rightarrow>
     ('d, 'k) data_reader \<Rightarrow> (('d, 'k) data_sample list, 'd, 'k) dr_result" where
  "read_instance A clock tc max_n rc instance_key this_or_next = fill_then A clock tc
     (\<lambda>c. case infer_key instance_key this_or_next c of
            None \<Rightarrow> Some ([], c)
          | Some key \<Rightarrow> read_by_keys (take max_n (select_instance_keys_for_access key rc c)) c)"

definition take_instance ::
    "('d, 'k::linorder) deserializer_adapter \<Rightarrow> (nat \<Rightarrow> timestamp) \<Rightarrow> topic_cache \<Rightarrow> nat \<Rightarrow> read_condition \<Rightarrow> 'k option \<Rightarrow> select_by_key \<Rightarrow>
     ('d, 'k) data_reader \<Rightarrow> (('d, 'k) data_sample list, 'd, 'k) dr_result" where
  "take_instance A clock tc max_n rc instance_key this_or_next = fill_then A clock tc
     (\<lambda>c. case infer_key instance_key this_or_next c of
            None \<Rightarrow> Some ([], c)
          | Some key \<Rightarrow> take_by_keys (take max_n (select_instance_keys_for_access key rc c)) c)"

subsection \<open>Asynchronous access\<close>

text \<open>
  \<open>poll_next\<close> of the two streams: when nothing is there, the waker is stored and the cache is tried
  again. Between the two attempts the cache may change; \<open>tc2\<close> is the cache of the second one. The flag
  tells whether the waker was stored.
\<close>

datatype 'a poll = Poll_Ready 'a | Poll_Pending

definition sdr_poll_next ::
    "('d, 'k) deserializer_adapter \<Rightarrow> qos_policies \<Rightarrow> (nat \<Rightarrow> timestamp) \<Rightarrow> topic_cache \<Rightarrow> topic_cache \<Rightarrow> 'k read_state \<Rightarrow>
     (('d, 'k) deserialized_cache_change read_result poll \<times> bool \<times> 'k read_state) option" where
  "sdr_poll_next A qos clock tc tc2 rs =
     do { (r, rs1) \<leftarrow> try_take_one A qos clock tc rs;
          case r of
            Inl e \<Rightarrow> Some (Poll_Ready (Inl e), False, rs1)
          | Inr (Some d) \<Rightarrow> Some (Poll_Ready (Inr d), False, rs1)
          | Inr None \<Rightarrow>
              do { (r2, rs2) \<leftarrow> try_take_one A qos clock tc2 rs1;
                   Some (case r2 of Inl e \<Rightarrow> Poll_Ready (Inl e) | Inr (Some d) \<Rightarrow> Poll_Ready (Inr d) | Inr None \<Rightarrow> Poll_Pending,
                         True, rs2) } }"

definition dr_poll_next ::
    "('d, 'k::linorder) deserializer_adapter \<Rightarrow> (nat \<Rightarrow> timestamp) \<Rightarrow> topic_cache \<Rightarrow> topic_cache \<Rightarrow> ('d, 'k) data_reader \<Rightarrow>
     (('d, 'k) sample read_result poll \<times> bool \<times> ('d, 'k) data_reader) option" where
  "dr_poll_next A clock tc tc2 dr =
     do { (r, dr1) \<leftarrow> pop_result (take_bare A clock tc 1 ReadCondition_not_read dr);
          case r of
            Inl e \<Rightarrow> Some (Poll_Ready (Inl e), False, dr1)
          | Inr (Some d) \<Rightarrow> Some (Poll_Ready (Inr d), False, dr1)
          | Inr None \<Rightarrow>
              do { (r2, dr2) \<leftarrow> pop_result (take_bare A clock tc2 1 ReadCondition_not_read dr1);
                   Some (case r2 of Inl e \<Rightarrow> Poll_Ready (Inl e) | Inr (Some d) \<Rightarrow> Poll_Ready (Inr d) | Inr None \<Rightarrow> Poll_Pending,
                         True, dr2) } }"

section \<open>What is left to read\<close>

definition lr_ok :: "(guid, seqnum) btree_map \<Rightarrow> bool" where
  "lr_ok lr \<longleftrightarrow> (\<forall>g. in_i64 (last_read lr g) \<and> last_read lr g < i64_max)"

definition markers_bounded :: "topic_cache \<Rightarrow> bool" where
  "markers_bounded tc \<longleftrightarrow> (\<forall>g. reliable_before tc g \<le> i64_max)"

definition unread :: "topic_cache \<Rightarrow> (guid, seqnum) btree_map \<Rightarrow> (timestamp \<times> cache_change) list" where
  "unread tc lr = (case get_changes_in_range_reliable tc lr of Some ccs \<Rightarrow> ccs | None \<Rightarrow> [])"

lemma unread_spec:
  assumes "tc_inv tc" and "lr_ok lr"
  shows "(ts, cc) \<in> set (unread tc lr) \<longleftrightarrow> tc_get_change tc ts = Some cc
      \<and> last_read lr (writer_guid cc) < sequence_number cc \<and> sequence_number cc < reliable_before tc (writer_guid cc)"
    and "sorted_wrt (\<lambda>a b. sn_ordered (snd a) (snd b)) (unread tc lr)"
proof -
  obtain rs where "get_changes_in_range_reliable tc lr = Some rs"
      "\<forall>ts cc. (ts, cc) \<in> set rs \<longleftrightarrow> tc_get_change tc ts = Some cc
         \<and> last_read lr (writer_guid cc) < sequence_number cc \<and> sequence_number cc < reliable_before tc (writer_guid cc)"
      "sorted_wrt (\<lambda>a b. sn_ordered (snd a) (snd b)) rs"
    using reliable_read_spec [OF assms(1)] assms(2) unfolding lr_ok_def by blast
  then show "(ts, cc) \<in> set (unread tc lr) \<longleftrightarrow> tc_get_change tc ts = Some cc
      \<and> last_read lr (writer_guid cc) < sequence_number cc \<and> sequence_number cc < reliable_before tc (writer_guid cc)"
    and "sorted_wrt (\<lambda>a b. sn_ordered (snd a) (snd b)) (unread tc lr)"
    by (simp_all add: unread_def)
qed

lemma sorted_wrt_unique:
  assumes "sorted_wrt R xs" and "sorted_wrt R ys" and "set xs = set ys" and asym: "\<And>a b. R a b \<Longrightarrow> \<not> R b a"
  shows "xs = ys"
  using assms(1-3)
proof (induction xs arbitrary: ys)
  case (Cons x xs)
  then obtain y ys' where ys: "ys = y # ys'" by (cases ys) auto
  have "x = y"
  proof (rule ccontr)
    assume "x \<noteq> y"
    then have "R x y" "R y x" using Cons.prems by (auto simp: ys)
    with asym show False by blast
  qed
  moreover have "x \<notin> set xs" "y \<notin> set ys'" using Cons.prems(1,2) asym by (auto simp: ys)
  ultimately have "set xs = set ys'" using Cons.prems(3) by (auto simp: ys)
  with Cons \<open>x = y\<close> show ?case by (simp add: ys)
qed simp

lemma next_reliable_first:
  assumes "lr_ok lr"
  shows "next_reliable tc lr es = Some (case List.map_filter (with_change tc)
      (concat (map (\<lambda>(g, snm). filter (\<lambda>(sn, _). last_read lr g < sn \<and> sn < reliable_before tc g) (bm_entries snm)) es)) of
    [] \<Rightarrow> None | change # _ \<Rightarrow> Some change)"
proof (induction es)
  case (Cons e es)
  obtain g snm where e: "e = (g, snm)" by (cases e)
  have "reliable_range tc lr g snm = Some (filter (\<lambda>(sn, _). last_read lr g < sn \<and> sn < reliable_before tc g) (bm_entries snm))"
    using assms by (intro reliable_range_eq) (simp_all add: lr_ok_def)
  then show ?case
    using Cons.IH by (auto simp: e map_filter_append split: list.split)
qed (simp add: List.map_filter_simps)

lemma undecoded_reliable:
  assumes "lr_ok (last_read_sn rs)"
  shows "try_take_undecoded True clock tc rs = Some (case unread tc (last_read_sn rs) of [] \<Rightarrow> None | change # _ \<Rightarrow> Some change)"
proof -
  let ?h = "\<lambda>(g, snm). filter (\<lambda>(sn, _ :: timestamp). last_read (last_read_sn rs) g < sn \<and> sn < reliable_before tc g) (bm_entries snm)"
  have "flat_map_opt (\<lambda>(g, snm). reliable_range tc (last_read_sn rs) g snm) (bm_entries (tc_sequence_numbers tc))
      = Some (concat (map ?h (bm_entries (tc_sequence_numbers tc))))"
    using assms by (intro flat_map_opt_Some) (auto simp: lr_ok_def reliable_range_eq)
  then have "unread tc (last_read_sn rs) = List.map_filter (with_change tc) (concat (map ?h (bm_entries (tc_sequence_numbers tc))))"
    by (simp add: unread_def get_changes_in_range_reliable_def)
  then show ?thesis by (simp add: try_take_undecoded_def next_reliable_first [OF assms])
qed

text \<open>Handing out the first unread change leaves the others.\<close>

lemma unread_rest:
  assumes "tc_inv tc" and "lr_ok lr" and "markers_bounded tc" and "unread tc lr = (ts, cc) # ccs"
  shows "lr_ok (bm_insert (writer_guid cc) (sequence_number cc) lr)"
    and "unread tc (bm_insert (writer_guid cc) (sequence_number cc) lr) = ccs"
proof -
  let ?lr = "bm_insert (writer_guid cc) (sequence_number cc) lr"
  have cc: "tc_get_change tc ts = Some cc" "last_read lr (writer_guid cc) < sequence_number cc"
      "sequence_number cc < reliable_before tc (writer_guid cc)"
    using unread_spec(1) [OF assms(1,2), of ts cc] by (simp_all add: assms(4))
  have lr: "last_read ?lr g = (if g = writer_guid cc then sequence_number cc else last_read lr g)" for g
    by (simp add: last_read_def)
  show ok: "lr_ok ?lr"
  proof -
    have all: "in_i64 (last_read lr g) \<and> last_read lr g < i64_max" for g using assms(2) by (simp add: lr_ok_def)
    have "reliable_before tc (writer_guid cc) \<le> i64_max" using assms(3) by (simp add: markers_bounded_def)
    with all [of "writer_guid cc"] have "in_i64 (sequence_number cc) \<and> sequence_number cc < i64_max"
      using cc(2,3) by (simp add: in_i64_def)
    with all show ?thesis by (simp add: lr_ok_def lr)
  qed
  have sorted: "sorted_wrt (\<lambda>a b. sn_ordered (snd a) (snd b)) ((ts, cc) # ccs)"
    using unread_spec(2) [OF assms(1,2)] by (simp add: assms(4))
  have mem: "(t, b) \<in> set (unread tc ?lr) \<longleftrightarrow> (t, b) \<in> set ccs" for t b
  proof -
    have "(t, b) \<in> set (unread tc ?lr) \<longleftrightarrow> (t, b) \<in> set (unread tc lr) \<and> (writer_guid b = writer_guid cc \<longrightarrow> sequence_number cc < sequence_number b)"
      using cc(2) by (auto simp: unread_spec(1) [OF assms(1) ok] unread_spec(1) [OF assms(1,2)] lr)
    also have "\<dots> \<longleftrightarrow> (t, b) \<in> set ccs"
      using sorted by (auto simp: assms(4) sn_ordered_def)
    finally show ?thesis .
  qed
  show "unread tc ?lr = ccs"
  proof (rule sorted_wrt_unique [OF unread_spec(2) [OF assms(1) ok]])
    show "sorted_wrt (\<lambda>a b. sn_ordered (snd a) (snd b)) ccs" using sorted by simp
    show "set (unread tc ?lr) = set ccs" using mem by auto
    show "sn_ordered (snd a) (snd b) \<Longrightarrow> \<not> sn_ordered (snd b) (snd a)" for a b :: "timestamp \<times> cache_change"
      by (auto simp: sn_ordered_def)
  qed
qed

section \<open>Taking one by one\<close>

lemma try_take_reliable:
  assumes "lr_ok (last_read_sn rs)"
  shows "unread tc (last_read_sn rs) = [] \<Longrightarrow> try_take_loop A True clock tc rs = Some (Inr None, rs)"
    and "unread tc (last_read_sn rs) = (ts, cc) # ccs \<Longrightarrow> deserialize_with A ts cc (hash_to_key_map rs) = (result, h) \<Longrightarrow>
      \<not> is_unknown_key result \<Longrightarrow> try_take_loop A True clock tc rs = Some (map_sum id Some result, advance_read_state ts cc h rs)"
  by (subst try_take_loop.simps, simp add: undecoded_reliable [OF assms])+

lemma deserialize_unknown: "deserialize_with A ts cc h = (result, h') \<Longrightarrow> is_unknown_key result \<Longrightarrow> h' = h"
  by (auto simp: deserialize_with_def Let_def split: dds_data.splits option.splits)

text \<open>At a disposal whose key hash is unknown the loop finds the same change again and again.\<close>

lemma try_take_stuck:
  assumes "try_take_loop A rel clock tc rs = Some y"
  shows "rel \<and> lr_ok (last_read_sn rs) \<and> unread tc (last_read_sn rs) = (ts, cc) # ccs \<longrightarrow>
    \<not> is_unknown_key (fst (deserialize_with A ts cc (hash_to_key_map rs)))"
proof (rule try_take_loop.raw_induct [where P = "\<lambda>A rel clock tc rs y.
    rel \<and> lr_ok (last_read_sn rs) \<and> unread tc (last_read_sn rs) = (ts, cc) # ccs \<longrightarrow>
    \<not> is_unknown_key (fst (deserialize_with A ts cc (hash_to_key_map rs)))", OF _ assms])
  fix f :: "('a, 'b) deserializer_adapter \<Rightarrow> bool \<Rightarrow> (nat \<Rightarrow> timestamp) \<Rightarrow> topic_cache \<Rightarrow> 'b read_state \<Rightarrow>
      (('a, 'b) deserialized_cache_change option read_result \<times> 'b read_state) option"
    and A rel clock tc rs y
  assume IH: "\<And>A rel clock tc rs y. f A rel clock tc rs = Some y \<Longrightarrow>
      rel \<and> lr_ok (last_read_sn rs) \<and> unread tc (last_read_sn rs) = (ts, cc) # ccs \<longrightarrow>
      \<not> is_unknown_key (fst (deserialize_with A ts cc (hash_to_key_map rs)))"
    and run: "Option.bind (try_take_undecoded rel clock tc rs) (\<lambda>undecoded.
      let rs1 = if rel then rs else rs\<lparr>rs_clock_reads := rs_clock_reads rs + 1\<rparr>
      in case undecoded of None \<Rightarrow> Some (Inr None, rs1)
         | Some (ts, cc) \<Rightarrow> let (result, h) = deserialize_with A ts cc (hash_to_key_map rs1)
             in if is_unknown_key result then f A rel clock tc (rs1\<lparr>hash_to_key_map := h\<rparr>)
                else Some (map_sum id Some result, advance_read_state ts cc h rs1)) = Some y"
  show "rel \<and> lr_ok (last_read_sn rs) \<and> unread tc (last_read_sn rs) = (ts, cc) # ccs \<longrightarrow>
    \<not> is_unknown_key (fst (deserialize_with A ts cc (hash_to_key_map rs)))"
  proof (intro impI notI)
    assume c: "rel \<and> lr_ok (last_read_sn rs) \<and> unread tc (last_read_sn rs) = (ts, cc) # ccs"
      and u: "is_unknown_key (fst (deserialize_with A ts cc (hash_to_key_map rs)))"
    obtain result h where d: "deserialize_with A ts cc (hash_to_key_map rs) = (result, h)" by (cases "deserialize_with A ts cc (hash_to_key_map rs)")
    with u have "h = hash_to_key_map rs" using deserialize_unknown [OF d] by simp
    with run c u d have "f A rel clock tc rs = Some y" by (simp add: undecoded_reliable)
    from IH [OF this] c u show False by blast
  qed
qed

lemma unknown_key_iff:
  "is_unknown_key (fst (deserialize_with A ts cc h)) \<longleftrightarrow> (\<exists>ck kh. data_value cc = DisposeByKeyHash ck kh \<and> h kh = None)"
  by (auto simp: deserialize_with_def Let_def split: dds_data.splits option.splits)

lemma last_read_advance [simp]:
  "last_read_sn (advance_read_state ts cc h rs) = bm_insert (writer_guid cc) (sequence_number cc) (last_read_sn rs)"
  "hash_to_key_map (advance_read_state ts cc h rs) = h"
  by (simp_all add: advance_read_state_def)

lemma last_read_insert: "last_read (bm_insert g sn lr) g' = (if g' = g then sn else last_read lr g')"
  by (simp add: last_read_def)

text \<open>What a call that returns has done.\<close>

lemma try_take_cases:
  assumes "lr_ok (last_read_sn rs)" and "try_take_loop A True clock tc rs = Some (out, rs')"
  obtains (nothing) "unread tc (last_read_sn rs) = []" "out = Inr None" "rs' = rs"
    | (change) ts cc ccs result h where "unread tc (last_read_sn rs) = (ts, cc) # ccs"
        "deserialize_with A ts cc (hash_to_key_map rs) = (result, h)" "\<not> is_unknown_key result"
        "out = map_sum id Some result" "rs' = advance_read_state ts cc h rs"
proof (cases "unread tc (last_read_sn rs)")
  case Nil
  then have "out = Inr None" "rs' = rs" using assms(2) try_take_reliable(1) [OF assms(1), of tc A clock] by simp_all
  with Nil show ?thesis by (rule nothing)
next
  case (Cons e ccs)
  obtain ts cc where e: "e = (ts, cc)" by (cases e)
  obtain result h where d: "deserialize_with A ts cc (hash_to_key_map rs) = (result, h)" by fastforce
  have "\<not> is_unknown_key result"
    using try_take_stuck [OF assms(2), of ts cc ccs] assms(1) Cons e d by simp
  with change [OF _ d] Cons e try_take_reliable(2) [OF assms(1), of tc ts cc ccs A result h clock] d assms(2) show ?thesis by simp
qed

text \<open>C33: When a reliable reader returns. Taking one change ends, with a change, an error or nothing, exactly
  unless the next change to read is a disposal by a key hash that the reader has not seen: then the loop
  meets the same change for ever, and holds the lock of the topic cache.\<close>

theorem try_take_one_returns_iff:
  assumes "is_reliable qos" and "lr_ok (last_read_sn rs)"
  shows "(\<exists>r. try_take_one A qos clock tc rs = Some r) \<longleftrightarrow>
    \<not> (\<exists>ts cc ccs ck kh. unread tc (last_read_sn rs) = (ts, cc) # ccs \<and> data_value cc = DisposeByKeyHash ck kh
        \<and> hash_to_key_map rs kh = None)"
proof (cases "unread tc (last_read_sn rs)")
  case Nil
  then show ?thesis using assms by (simp add: try_take_one_def try_take_reliable(1))
next
  case (Cons e ccs)
  obtain ts cc where e: "e = (ts, cc)" by (cases e)
  obtain result h where d: "deserialize_with A ts cc (hash_to_key_map rs) = (result, h)" by fastforce
  have "(\<exists>r. try_take_one A qos clock tc rs = Some r) \<longleftrightarrow> \<not> is_unknown_key result"
    using try_take_stuck [of A True clock tc rs _ ts cc ccs] try_take_reliable(2) [OF assms(2) _ d] assms Cons d
    by (fastforce simp: try_take_one_def e)
  moreover have "is_unknown_key result \<longleftrightarrow> (\<exists>ck kh. data_value cc = DisposeByKeyHash ck kh \<and> hash_to_key_map rs kh = None)"
    using unknown_key_iff [of A ts cc "hash_to_key_map rs"] d by simp
  ultimately show ?thesis using Cons by (simp add: e)
qed

text \<open>A topic cache with one change, which is a disposal by key hash, received without gaps.\<close>

definition sample_adapter :: "(int \<times> int, int) deserializer_adapter" where
  "sample_adapter = \<lparr>supported_encodings = [CDR_LE],
     from_bytes_with = (\<lambda>bs _. case bs of [k, v] \<Rightarrow> Some (uint k, uint v) | _ \<Rightarrow> None),
     key_from_bytes_with = (\<lambda>bs _. case bs of [k] \<Rightarrow> Some (uint k) | _ \<Rightarrow> None), keyed_key = fst,
     keyed_traits = \<lparr>key_cdr_bytes = (\<lambda>k. Some [word_of_int k]), key_max_size = Some 1, md5_compute = id\<rparr>\<rparr>"

definition one_change_cache :: "timestamp \<Rightarrow> cache_change \<Rightarrow> topic_cache" where
  "one_change_cache ts cc = (tc_new ''square'' ''Square'' qos_none)\<lparr>tc_changes := bm_insert ts cc bm_empty,
     tc_sequence_numbers := bm_insert (writer_guid cc) (bm_insert (sequence_number cc) ts bm_empty) bm_empty,
     received_reliably_before := bm_insert (writer_guid cc) (sequence_number cc + 1) bm_empty\<rparr>"

lemma lr_ok_empty: "lr_ok bm_empty"
  by (simp add: lr_ok_def last_read_def sn_zero_def in_i64_def i64_min_def i64_max_def)

lemma one_change_unread:
  assumes "sequence_number cc = 1"
  shows "unread (one_change_cache ts cc) bm_empty = [(ts, cc)]"
    and "tc_inv (one_change_cache ts cc)" and "markers_bounded (one_change_cache ts cc)"
proof -
  show "unread (one_change_cache ts cc) bm_empty = [(ts, cc)]"
    by (simp add: unread_def get_changes_in_range_reliable_def one_change_cache_def reliable_range_def reliable_before_def
        bm_range_ee_def assms sn_zero_def plus_1_def List.map_filter_simps tc_get_change_def rust_int)
  show "tc_inv (one_change_cache ts cc)"
    by (auto simp: tc_inv_def tc_index_def one_change_cache_def tc_get_change_def split: if_splits option.splits)
  show "markers_bounded (one_change_cache ts cc)"
    by (auto simp: markers_bounded_def reliable_before_def one_change_cache_def assms i64_max_def sn_default_def split: option.splits)
qed

theorem try_take_one_returns_iff_witness:
  "try_take_one sample_adapter sample_reliable_qos (\<lambda>_. Timestamp 9 0)
     (one_change_cache (Timestamp 5 0) (cc_new GUID_UNKNOWN 1 (write_options_from None) (DisposeByKeyHash NotAliveDisposed (KeyHash (replicate 16 0)))))
     read_state_new = None"
proof -
  let ?cc = "cc_new GUID_UNKNOWN 1 (write_options_from None) (DisposeByKeyHash NotAliveDisposed (KeyHash (replicate 16 0)))"
  have "is_reliable sample_reliable_qos" by (simp add: is_reliable_def sample_reliable_qos_def)
  moreover have "lr_ok (last_read_sn (read_state_new :: int read_state))" by (simp add: read_state_new_def lr_ok_empty)
  moreover have "unread (one_change_cache (Timestamp 5 0) ?cc) (last_read_sn (read_state_new :: int read_state)) = [(Timestamp 5 0, ?cc)]"
    by (simp add: read_state_new_def one_change_unread cc_new_def)
  ultimately have "\<not> (\<exists>r. try_take_one sample_adapter sample_reliable_qos (\<lambda>_. Timestamp 9 0) (one_change_cache (Timestamp 5 0) ?cc) read_state_new = Some r)"
    using try_take_one_returns_iff [of sample_reliable_qos read_state_new sample_adapter "\<lambda>_. Timestamp 9 0" "one_change_cache (Timestamp 5 0) ?cc"]
    by (simp add: cc_new_def read_state_new_def)
  then show ?thesis by (meson option.exhaust)
qed

subsection \<open>A sequence of takes\<close>

text \<open>The changes among the results of a sequence of calls, each on the topic cache of its time.\<close>

fun taken_change :: "('d, 'k) deserialized_cache_change option read_result \<Rightarrow> ('d, 'k) deserialized_cache_change option" where
  "taken_change (Inr (Some dcc)) = Some dcc"
| "taken_change _ = None"

definition delivered_after :: "('d, 'k) deserialized_cache_change \<Rightarrow> ('d, 'k) deserialized_cache_change \<Rightarrow> bool" where
  "delivered_after d d' \<longleftrightarrow> (dcc_writer_guid d = dcc_writer_guid d' \<longrightarrow> dcc_sequence_number d < dcc_sequence_number d')"

lemma deserialize_dcc:
  "deserialize_with A ts cc h = (Inr dcc, h') \<Longrightarrow> dcc_writer_guid dcc = writer_guid cc \<and> dcc_sequence_number dcc = sequence_number cc
     \<and> dcc_receive_instant dcc = ts \<and> dcc_write_options dcc = write_options cc"
  by (auto simp: deserialize_with_def dcc_new_def Let_def split: dds_data.splits option.splits)

lemma take_advances:
  assumes "tc_inv tc" and "markers_bounded tc" and "lr_ok (last_read_sn rs)" and "try_take_loop A True clock tc rs = Some (out, rs')"
  shows "lr_ok (last_read_sn rs') \<and> (\<forall>g. last_read (last_read_sn rs) g \<le> last_read (last_read_sn rs') g)
    \<and> (\<forall>d. taken_change out = Some d \<longrightarrow> last_read (last_read_sn rs) (dcc_writer_guid d) < dcc_sequence_number d
        \<and> last_read (last_read_sn rs') (dcc_writer_guid d) = dcc_sequence_number d)"
  using assms(3,4)
proof (cases rule: try_take_cases)
  case nothing
  then show ?thesis using assms(3) by simp
next
  case (change ts cc ccs result h)
  have cc: "last_read (last_read_sn rs) (writer_guid cc) < sequence_number cc"
    using unread_spec(1) [OF assms(1,3), of ts cc] by (simp add: change(1))
  have "dcc_writer_guid d = writer_guid cc \<and> dcc_sequence_number d = sequence_number cc" if "taken_change out = Some d" for d
    using that change(2,4) deserialize_dcc [of A ts cc "hash_to_key_map rs" d h] by (cases result) auto
  with cc show ?thesis
    using unread_rest(1) [OF assms(1,3,2) change(1)] by (simp add: change(5) last_read_insert)
qed

lemma takes_in_order:
  assumes "run_opt (try_take_loop A True clock) tcs rs = Some (outs, rs')" and "\<forall>tc \<in> set tcs. tc_inv tc \<and> markers_bounded tc"
    and "lr_ok (last_read_sn rs)"
  shows "sorted_wrt delivered_after (List.map_filter taken_change outs)
    \<and> (\<forall>d \<in> set (List.map_filter taken_change outs). last_read (last_read_sn rs) (dcc_writer_guid d) < dcc_sequence_number d)"
  using assms
proof (induction tcs arbitrary: rs outs)
  case (Cons tc tcs)
  then obtain out rs1 outs' where run: "try_take_loop A True clock tc rs = Some (out, rs1)"
      "run_opt (try_take_loop A True clock) tcs rs1 = Some (outs', rs')" "outs = out # outs'"
    by (auto split: option.splits)
  have adv: "lr_ok (last_read_sn rs1)" "last_read (last_read_sn rs) g \<le> last_read (last_read_sn rs1) g"
      "taken_change out = Some d \<Longrightarrow> last_read (last_read_sn rs) (dcc_writer_guid d) < dcc_sequence_number d
        \<and> last_read (last_read_sn rs1) (dcc_writer_guid d) = dcc_sequence_number d" for g d
    using take_advances [OF _ _ Cons.prems(3) run(1)] Cons.prems(2) by simp_all
  have IH: "sorted_wrt delivered_after (List.map_filter taken_change outs')"
      "\<forall>d \<in> set (List.map_filter taken_change outs'). last_read (last_read_sn rs1) (dcc_writer_guid d) < dcc_sequence_number d"
    using Cons.IH [OF run(2)] Cons.prems(2) adv(1) by simp_all
  have rest: "last_read (last_read_sn rs) (dcc_writer_guid d) < dcc_sequence_number d" if "d \<in> set (List.map_filter taken_change outs')" for d
    using IH(2) that adv(2) [of "dcc_writer_guid d"] by fastforce
  show ?case
  proof (cases "taken_change out")
    case None
    with IH rest show ?thesis by (simp add: run(3) List.map_filter_simps)
  next
    case (Some d)
    then have "delivered_after d d'" if "d' \<in> set (List.map_filter taken_change outs')" for d'
      using IH(2) that adv(3) [OF Some] by (fastforce simp: delivered_after_def)
    with Some IH(1) rest adv(3) [OF Some] show ?thesis by (simp add: run(3) List.map_filter_simps)
  qed
qed (simp add: List.map_filter_simps)

text \<open>C19: In order and at most once. Over any sequence of calls, whatever the topic cache has become between
  them, a reliable simple data reader hands out the changes of each writer with strictly increasing
  sequence numbers: none twice, none before an earlier one.\<close>

theorem simple_reader_in_order:
  assumes "is_reliable qos" and "lr_ok (last_read_sn rs)" and "\<forall>tc \<in> set tcs. tc_inv tc \<and> markers_bounded tc"
    and "run_opt (try_take_one A qos clock) tcs rs = Some (outs, rs')"
  shows "sorted_wrt (\<lambda>d d'. dcc_writer_guid d = dcc_writer_guid d' \<longrightarrow> dcc_sequence_number d < dcc_sequence_number d')
    (List.map_filter taken_change outs)"
  using takes_in_order [of A clock tcs rs outs rs'] assms
  unfolding try_take_one_def [abs_def] delivered_after_def [abs_def] by simp

definition sample_payload_cc :: "seqnum \<Rightarrow> u8 \<Rightarrow> cache_change" where
  "sample_payload_cc sn v = cc_new GUID_UNKNOWN sn (write_options_from None)
     (Data_Payload \<lparr>representation_identifier = CDR_LE, representation_options = (0, 0), sp_value = [1, v]\<rparr>)"

lemma sample_payload_cc_sel [simp]: "sequence_number (sample_payload_cc sn v) = sn" "writer_guid (sample_payload_cc sn v) = GUID_UNKNOWN"
  by (simp_all add: sample_payload_cc_def cc_new_def)

lemma sample_payload_decoded:
  "\<exists>d h'. deserialize_with sample_adapter ts (sample_payload_cc sn v) h = (Inr d, h') \<and> dcc_sample d = Sample_Value (1, uint v)
     \<and> dcc_sequence_number d = sn"
  by (simp add: deserialize_with_def sample_payload_cc_def cc_new_def sample_adapter_def dcc_new_def Let_def)

lemma sample_reliable: "is_reliable sample_reliable_qos"
  by (simp add: is_reliable_def sample_reliable_qos_def)

theorem simple_reader_in_order_witness:
  "\<exists>outs rs' d. run_opt (try_take_one sample_adapter sample_reliable_qos (\<lambda>_. Timestamp 9 0)) [one_change_cache (Timestamp 5 0) (sample_payload_cc 1 7)] read_state_new
       = Some (outs, rs')
     \<and> List.map_filter taken_change outs = [d] \<and> dcc_sample d = Sample_Value (1, 7)
     \<and> sorted_wrt (\<lambda>d d'. dcc_writer_guid d = dcc_writer_guid d' \<longrightarrow> dcc_sequence_number d < dcc_sequence_number d') (List.map_filter taken_change outs)"
proof -
  let ?tc = "one_change_cache (Timestamp 5 0) (sample_payload_cc 1 7)" and ?rs = "read_state_new :: int read_state"
  have lr: "lr_ok (last_read_sn ?rs)" by (simp add: read_state_new_def lr_ok_empty)
  have un: "unread ?tc (last_read_sn ?rs) = [(Timestamp 5 0, sample_payload_cc 1 7)]"
    by (simp add: read_state_new_def one_change_unread)
  obtain d h' where d: "deserialize_with sample_adapter (Timestamp 5 0) (sample_payload_cc 1 7) (hash_to_key_map ?rs) = (Inr d, h')"
      "dcc_sample d = Sample_Value (1, 7)"
    using sample_payload_decoded [of "Timestamp 5 0" 1 7 "hash_to_key_map ?rs"] by auto
  have run: "run_opt (try_take_one sample_adapter sample_reliable_qos (\<lambda>_. Timestamp 9 0)) [?tc] ?rs
      = Some ([Inr (Some d)], advance_read_state (Timestamp 5 0) (sample_payload_cc 1 7) h' ?rs)"
    using try_take_reliable(2) [OF lr un d(1)] sample_reliable by (simp add: try_take_one_def)
  have "\<forall>tc \<in> set [?tc]. tc_inv tc \<and> markers_bounded tc" by (simp add: one_change_unread)
  from simple_reader_in_order [OF sample_reliable lr this run] run d(2) show ?thesis by (simp add: List.map_filter_simps)
qed

section \<open>Filling the sample cache\<close>

text \<open>The reference: go through a list of changes, deserialize and add each, and stop at the first error.\<close>

fun fill_changes ::
    "('d, 'k::linorder) deserializer_adapter \<Rightarrow> (timestamp \<times> cache_change) list \<Rightarrow> ('d, 'k) data_reader \<Rightarrow> (unit, 'd, 'k) dr_result" where
  "fill_changes A [] dr = Some (Inr (), dr)"
| "fill_changes A ((ts, cc) # ccs) dr =
     (let (result, h) = deserialize_with A ts cc (hash_to_key_map (dr_read_state dr));
          dr1 = dr\<lparr>dr_read_state := advance_read_state ts cc h (dr_read_state dr)\<rparr>
      in case result of
           Inl ReadError_UnknownKey \<Rightarrow> None
         | Inl e \<Rightarrow> Some (Inl e, dr1)
         | Inr dcc \<Rightarrow> do { c \<leftarrow> fill_from_deserialized_cache_change (keyed_key A) dcc (dr_datasample_cache dr1);
                          fill_changes A ccs (dr1\<lparr>dr_datasample_cache := c\<rparr>) })"

lemma fill_is_fill_changes:
  assumes "tc_inv tc" and "markers_bounded tc" and "is_reliable (dr_qos dr)" and "lr_ok (last_read_sn (dr_read_state dr))"
    and "unread tc (last_read_sn (dr_read_state dr)) = ccs"
  shows "fill_and_lock_local_datasample_cache A clock tc dr = fill_changes A ccs dr"
  using assms(3-5)
proof (induction ccs arbitrary: dr)
  case Nil
  then show ?case
    by (subst fill_and_lock_local_datasample_cache.simps) (simp add: try_take_one_def try_take_reliable(1))
next
  case (Cons e ccs)
  obtain ts cc where e: "e = (ts, cc)" by (cases e)
  let ?rs = "dr_read_state dr"
  obtain result h where d: "deserialize_with A ts cc (hash_to_key_map ?rs) = (result, h)" by fastforce
  have un: "unread tc (last_read_sn ?rs) = (ts, cc) # ccs" using Cons.prems(3) by (simp add: e)
  show ?case
  proof (cases "is_unknown_key result")
    case True
    then have "result = Inl ReadError_UnknownKey" by (cases result rule: is_unknown_key.cases) auto
    moreover have "try_take_one A (dr_qos dr) clock tc ?rs = None"
      using try_take_stuck [of A True clock tc ?rs _ ts cc ccs] Cons.prems un d True
      by (cases "try_take_one A (dr_qos dr) clock tc ?rs") (auto simp: try_take_one_def)
    ultimately show ?thesis by (subst fill_and_lock_local_datasample_cache.simps) (simp add: e d)
  next
    case False
    have take: "try_take_one A (dr_qos dr) clock tc ?rs = Some (map_sum id Some result, advance_read_state ts cc h ?rs)"
      using try_take_reliable(2) [OF Cons.prems(2) un d False] Cons.prems(1) by (simp add: try_take_one_def)
    show ?thesis
    proof (cases result)
      case (Inl err)
      with False have "err = ReadError_Deserialization" by (cases err) auto
      with Inl take show ?thesis by (subst fill_and_lock_local_datasample_cache.simps) (simp add: e d)
    next
      case (Inr dcc)
      have "fill_and_lock_local_datasample_cache A clock tc (dr\<lparr>dr_read_state := advance_read_state ts cc h ?rs, dr_datasample_cache := c\<rparr>)
          = fill_changes A ccs (dr\<lparr>dr_read_state := advance_read_state ts cc h ?rs, dr_datasample_cache := c\<rparr>)" for c
        using unread_rest [OF assms(1) Cons.prems(2) assms(2) un] Cons.prems(1) by (intro Cons.IH) simp_all
      with Inr take show ?thesis by (subst fill_and_lock_local_datasample_cache.simps) (simp add: e d)
    qed
  qed
qed

text \<open>C27: Filling is going through the unread changes. For a reliable reader the loop that takes changes one by
  one, each time asking the topic cache anew, is the same as going once through the list of unread
  changes, in their order, and adding each to the sample cache, up to the first that cannot be decoded.\<close>

theorem fill_goes_through_unread:
  assumes "tc_inv tc" and "markers_bounded tc" and "is_reliable (dr_qos dr)" and "lr_ok (last_read_sn (dr_read_state dr))"
  shows "fill_and_lock_local_datasample_cache A clock tc dr = fill_changes A (unread tc (last_read_sn (dr_read_state dr))) dr"
  by (rule fill_is_fill_changes [OF assms refl])

definition sample_keep_all_qos :: qos_policies where
  "sample_keep_all_qos = sample_reliable_qos\<lparr>history := Some KeepAll\<rparr>"

definition sample_data_reader :: "(int \<times> int, int) data_reader" where
  "sample_data_reader = from_simple_data_reader sample_keep_all_qos read_state_new"

lemma sample_data_reader_facts:
  "is_reliable (dr_qos sample_data_reader)" "lr_ok (last_read_sn (dr_read_state sample_data_reader))"
  "last_read_sn (dr_read_state sample_data_reader) = bm_empty"
  using sample_reliable
  by (simp_all add: sample_data_reader_def from_simple_data_reader_def sample_keep_all_qos_def is_reliable_def read_state_new_def lr_ok_empty)

theorem fill_goes_through_unread_witness:
  "fill_and_lock_local_datasample_cache sample_adapter (\<lambda>_. Timestamp 9 0) (one_change_cache (Timestamp 5 0) (sample_payload_cc 1 7)) sample_data_reader
     = fill_changes sample_adapter [(Timestamp 5 0, sample_payload_cc 1 7)] sample_data_reader"
  using fill_goes_through_unread [OF _ _ sample_data_reader_facts(1,2), of "one_change_cache (Timestamp 5 0) (sample_payload_cc 1 7)" sample_adapter "\<lambda>_. Timestamp 9 0"]
  by (simp add: sample_data_reader_facts(3) one_change_unread)

section \<open>What the application gets\<close>

text \<open>A change that the application can decode, and its sample. (A disposal by key hash is not among them.)\<close>

definition decode :: "('d, 'k) deserializer_adapter \<Rightarrow> cache_change \<Rightarrow> ('d, 'k) sample option" where
  "decode A cc =
     (case data_value cc of
        Data_Payload sp \<Rightarrow> if representation_identifier sp \<in> set (supported_encodings A)
          then map_option Sample_Value (from_bytes_with A (sp_value sp) (representation_identifier sp)) else None
      | DisposeByKey _ sk \<Rightarrow> map_option Sample_Dispose (key_from_bytes_with A (sp_value sk) (representation_identifier sk))
      | DisposeByKeyHash _ _ \<Rightarrow> None)"

lemma find_same: "find (\<lambda>r. r = a) xs = (if a \<in> set xs then Some a else None)"
  by (induction xs) auto

lemma deserialize_decode: "decode A cc = Some s \<Longrightarrow> \<exists>h'. deserialize_with A ts cc h = (Inr (dcc_new ts cc s), h')"
  by (auto simp: decode_def deserialize_with_def find_same Let_def split: dds_data.splits option.splits if_splits)

text \<open>
  The data reader and the topic cache are in step: the sample cache is in order, and the change that the
  topic cache holds at a time that the sample cache lists has been read.
\<close>

definition dr_ok :: "('d, 'k::linorder) deserializer_adapter \<Rightarrow> topic_cache \<Rightarrow> ('d, 'k) data_reader \<Rightarrow> bool" where
  "dr_ok A tc dr \<longleftrightarrow> dsc_inv (keyed_key A) (dr_datasample_cache dr) \<and> dsc_qos (dr_datasample_cache dr) = dr_qos dr
     \<and> lr_ok (last_read_sn (dr_read_state dr))
     \<and> (\<forall>ts cc. \<not> unlisted (dr_datasample_cache dr) ts \<and> tc_get_change tc ts = Some cc \<longrightarrow>
          sequence_number cc \<le> last_read (last_read_sn (dr_read_state dr)) (writer_guid cc))"

lemma dr_ok_new: "dr_ok A tc (from_simple_data_reader qos read_state_new)"
  by (simp add: dr_ok_def from_simple_data_reader_def dsc_inv_new read_state_new_def lr_ok_empty)
    (simp add: dsc_new_def unlisted_def listed_def)

text \<open>What the application sees of a stored sample, of a change and of a sample that it gets.\<close>

definition entry_facts :: "timestamp \<times> ('d, 'k) sample_with_meta_data \<Rightarrow> guid \<times> seqnum \<times> ('d, 'k) sample" where
  "entry_facts e = (smd_writer_guid (snd e), smd_sequence_number (snd e), smd_sample (snd e))"

definition change_facts :: "('d, 'k) deserializer_adapter \<Rightarrow> timestamp \<times> cache_change \<Rightarrow> guid \<times> seqnum \<times> ('d, 'k) sample" where
  "change_facts A e = (writer_guid (snd e), sequence_number (snd e), the (decode A (snd e)))"

definition sample_facts :: "('d, 'k) data_sample \<Rightarrow> guid \<times> seqnum \<times> ('d, 'k) sample" where
  "sample_facts d = (publication_handle (ds_sample_info d), info_sequence_number (ds_sample_info d), ds_value d)"

lemma add_step:
  assumes ok: "dr_ok A tc dr" and tc: "tc_inv tc" "markers_bounded tc" and un: "unread tc (last_read_sn (dr_read_state dr)) = (ts, cc) # ccs"
    and d: "deserialize_with A ts cc (hash_to_key_map (dr_read_state dr)) = (Inr (dcc_new ts cc s), h)"
  obtains c where "fill_from_deserialized_cache_change (keyed_key A) (dcc_new ts cc s) (dr_datasample_cache dr) = Some c"
    and "dr_ok A tc (dr\<lparr>dr_read_state := advance_read_state ts cc h (dr_read_state dr), dr_datasample_cache := c\<rparr>)"
    and "keep_limit (dr_qos dr) = None \<longrightarrow> (\<exists>smd. entry_facts (ts, smd) = (writer_guid cc, sequence_number cc, s) \<and> \<not> sample_has_been_read smd
      \<and> datasamples c = bm_insert ts smd (datasamples (dr_datasample_cache dr)) \<and> \<not> bm_contains (datasamples (dr_datasample_cache dr)) ts)"
proof -
  let ?c = "dr_datasample_cache dr" and ?key = "keyed_key A" and ?lr = "last_read_sn (dr_read_state dr)"
  have inv: "dsc_inv ?key ?c" "dsc_qos ?c = dr_qos dr" "lr_ok ?lr" using ok by (simp_all add: dr_ok_def)
  have cc: "tc_get_change tc ts = Some cc" "last_read ?lr (writer_guid cc) < sequence_number cc"
    using unread_spec(1) [OF tc(1) inv(3), of ts cc] by (simp_all add: un)
  have ts: "unlisted ?c ts" using ok cc unfolding dr_ok_def by (meson not_le)
  obtain c ks where c: "add_sample ?key s (writer_guid cc) (sequence_number cc) ts (write_options cc) ?c = Some c" "dsc_inv ?key c"
      "ks = keys_to_remove (dsc_qos ?c) (instance_samples (imd_after ?key s ts ?c))" "dsc_qos c = dsc_qos ?c"
      "datasamples c = fold bm_remove ks (bm_insert ts (smd_after ?key s (writer_guid cc) (sequence_number cc) ts (write_options cc) ?c) (datasamples ?c))"
      "instance_map c = bm_insert (sample_key ?key s)
         ((imd_after ?key s ts ?c)\<lparr>instance_samples := fold bm_remove ks (instance_samples (imd_after ?key s ts ?c))\<rparr>) (instance_map ?c)"
    by (rule add_sample_spec [OF inv(1) ts])
  have listed: "unlisted c t" if "t \<noteq> ts" "unlisted ?c t" for t
    using that unfolding unlisted_def listed_def c(6)
    by (auto simp: imd_after_def imd_add_def imd_new_def split: option.splits)
  have ok': "dr_ok A tc (dr\<lparr>dr_read_state := advance_read_state ts cc h (dr_read_state dr), dr_datasample_cache := c\<rparr>)"
  proof -
    have "sequence_number b \<le> last_read (bm_insert (writer_guid cc) (sequence_number cc) ?lr) (writer_guid b)"
      if "\<not> unlisted c t" "tc_get_change tc t = Some b" for t b
    proof (cases "t = ts")
      case True
      with that(2) cc(1) show ?thesis by (simp add: last_read_insert)
    next
      case False
      with that listed ok have "sequence_number b \<le> last_read ?lr (writer_guid b)" by (auto simp: dr_ok_def)
      with cc(2) show ?thesis by (auto simp: last_read_insert)
    qed
    then show ?thesis
      using c(2,4) inv(2) unread_rest(1) [OF tc(1) inv(3) tc(2) un] by (simp add: dr_ok_def) blast
  qed
  have fill: "fill_from_deserialized_cache_change ?key (dcc_new ts cc s) ?c = Some c"
    using c(1) by (simp add: fill_from_deserialized_cache_change_def dcc_new_def)
  have entry: "\<exists>smd. entry_facts (ts, smd) = (writer_guid cc, sequence_number cc, s) \<and> \<not> sample_has_been_read smd \<and> datasamples c = bm_insert ts smd (datasamples ?c)
      \<and> \<not> bm_contains (datasamples ?c) ts" if "keep_limit (dr_qos dr) = None"
  proof -
    have "ks = []" using that c(3) inv(2) by (simp add: keys_to_remove_def keep_limit_def)
    moreover have "\<not> bm_contains (datasamples ?c) ts"
      using ts dsc_inv_instance [OF inv(1)] unfolding unlisted_def listed_def bm_contains_def by (metis option.exhaust)
    ultimately show ?thesis
      using c(5) by (intro exI [of _ "smd_after ?key s (writer_guid cc) (sequence_number cc) ts (write_options cc) ?c"])
        (simp add: entry_facts_def smd_after_def)
  qed
  show ?thesis by (rule that [OF fill ok']) (use entry in blast)
qed

lemma mset_al_insert: "k \<notin> fst ` set xs \<Longrightarrow> mset (al_insert k v xs) = add_mset (k, v) (mset xs)"
  by (induction k v xs rule: al_insert.induct) auto

abbreviation unread_samples :: "('d, 'k::linorder) datasample_cache \<Rightarrow> (timestamp \<times> ('d, 'k) sample_with_meta_data) list" where
  "unread_samples c \<equiv> filter (\<lambda>(_, smd). \<not> sample_has_been_read smd) (bm_entries (datasamples c))"

lemma unread_samples_insert:
  assumes "datasamples c = bm_insert ts smd (datasamples c0)" and "\<not> bm_contains (datasamples c0) ts" and "\<not> sample_has_been_read smd"
  shows "mset (unread_samples c) = add_mset (ts, smd) (mset (unread_samples c0))"
proof -
  have "ts \<notin> fst ` set (bm_entries (datasamples c0))"
    using assms(2) keys_get [of ts "datasamples c0"] by (simp add: bm_keys_def)
  then have "mset (bm_entries (datasamples c)) = add_mset (ts, smd) (mset (bm_entries (datasamples c0)))"
    by (simp add: assms(1) mset_al_insert)
  then show ?thesis using assms(3) by simp
qed

lemma fill_ok:
  assumes "dr_ok A tc dr" and "tc_inv tc" and "markers_bounded tc" and "unread tc (last_read_sn (dr_read_state dr)) = ccs"
    and "\<forall>e \<in> set ccs. decode A (snd e) \<noteq> None"
  shows "\<exists>dr'. fill_changes A ccs dr = Some (Inr (), dr') \<and> dr_ok A tc dr' \<and> dr_qos dr' = dr_qos dr
    \<and> unread tc (last_read_sn (dr_read_state dr')) = []
    \<and> (keep_limit (dr_qos dr) = None \<longrightarrow> mset (map entry_facts (unread_samples (dr_datasample_cache dr')))
         = mset (map entry_facts (unread_samples (dr_datasample_cache dr))) + mset (map (change_facts A) ccs))"
  using assms(1,4,5)
proof (induction ccs arbitrary: dr)
  case (Cons e ccs)
  obtain ts cc where e: "e = (ts, cc)" by (cases e)
  have un: "unread tc (last_read_sn (dr_read_state dr)) = (ts, cc) # ccs" using Cons.prems(2) by (simp add: e)
  obtain s where s: "decode A cc = Some s" using Cons.prems(3) by (auto simp: e)
  obtain h where d: "deserialize_with A ts cc (hash_to_key_map (dr_read_state dr)) = (Inr (dcc_new ts cc s), h)"
    using deserialize_decode [OF s] by blast
  obtain c where c: "fill_from_deserialized_cache_change (keyed_key A) (dcc_new ts cc s) (dr_datasample_cache dr) = Some c"
      "dr_ok A tc (dr\<lparr>dr_read_state := advance_read_state ts cc h (dr_read_state dr), dr_datasample_cache := c\<rparr>)"
      "keep_limit (dr_qos dr) = None \<longrightarrow> (\<exists>smd. entry_facts (ts, smd) = (writer_guid cc, sequence_number cc, s) \<and> \<not> sample_has_been_read smd
        \<and> datasamples c = bm_insert ts smd (datasamples (dr_datasample_cache dr)) \<and> \<not> bm_contains (datasamples (dr_datasample_cache dr)) ts)"
    by (rule add_step [OF Cons.prems(1) assms(2,3) un d])
  let ?dr = "dr\<lparr>dr_read_state := advance_read_state ts cc h (dr_read_state dr), dr_datasample_cache := c\<rparr>"
  have lr: "lr_ok (last_read_sn (dr_read_state dr))" using Cons.prems(1) by (simp add: dr_ok_def)
  have "mset (map entry_facts (unread_samples c)) = add_mset (change_facts A e) (mset (map entry_facts (unread_samples (dr_datasample_cache dr))))"
    if lim: "keep_limit (dr_qos dr) = None"
  proof -
    obtain smd where smd: "entry_facts (ts, smd) = (writer_guid cc, sequence_number cc, s)" "\<not> sample_has_been_read smd"
        "datasamples c = bm_insert ts smd (datasamples (dr_datasample_cache dr))" "\<not> bm_contains (datasamples (dr_datasample_cache dr)) ts"
      using c(3) lim by blast
    show ?thesis
      using unread_samples_insert [OF smd(3,4,2)] smd(1) s by (simp add: e change_facts_def)
  qed
  moreover obtain dr' where "fill_changes A ccs ?dr = Some (Inr (), dr')" "dr_ok A tc dr'" "dr_qos dr' = dr_qos ?dr"
      "unread tc (last_read_sn (dr_read_state dr')) = []"
      "keep_limit (dr_qos ?dr) = None \<longrightarrow> mset (map entry_facts (unread_samples (dr_datasample_cache dr')))
         = mset (map entry_facts (unread_samples (dr_datasample_cache ?dr))) + mset (map (change_facts A) ccs)"
    using Cons.IH [OF c(2)] unread_rest(2) [OF assms(2) lr assms(3) un] Cons.prems(3) by auto
  ultimately show ?case using c(1) by (simp add: e d)
qed simp

text \<open>Taking does not change what is listed.\<close>

lemma taken_still_listed:
  assumes "dsc_inv key c" and "select_keys_for_access key rc c = Some sel" and "take_by_keys (take n sel) c = Some (ds, c')"
  shows "unlisted c' ts \<longleftrightarrow> unlisted c ts" and "dsc_qos c' = dsc_qos c"
proof -
  have "take n sel = map (\<lambda>(ts, smd). (ts, smd_key key smd)) (take n (hits key rc c))"
    using assms(2) by (auto simp: select_keys_spec [OF assms(1)] take_map)
  then show "unlisted c' ts \<longleftrightarrow> unlisted c ts" "dsc_qos c' = dsc_qos c"
    using assms(3) take_by_keys_spec [OF selected_valid [OF assms(1)], of n rc] by (auto simp: unlisted_def)
qed

lemma sample_facts_map:
  assumes "map ds_value ds = map (\<lambda>(_, smd). smd_sample smd) es"
    and "map (\<lambda>d. (publication_handle (ds_sample_info d), info_sequence_number (ds_sample_info d))) ds
      = map (\<lambda>(_, smd). (smd_writer_guid smd, smd_sequence_number smd)) es"
  shows "map sample_facts ds = map entry_facts es"
proof -
  have "length ds = length es" using assms(1) by (metis length_map)
  then show ?thesis using assms
    by (induction ds es rule: list_induct2) (auto simp: sample_facts_def entry_facts_def)
qed

lemma take_delivers:
  assumes "tc_inv tc" and "markers_bounded tc" and "is_reliable (dr_qos dr)" and "keep_limit (dr_qos dr) = None" and "dr_ok A tc dr"
    and "\<forall>e \<in> set (unread tc (last_read_sn (dr_read_state dr))). decode A (snd e) \<noteq> None"
    and "length (unread_samples (dr_datasample_cache dr)) + length (unread tc (last_read_sn (dr_read_state dr))) \<le> n"
  shows "\<exists>ds dr'. dr_take A clock tc n ReadCondition_not_read dr = Some (Inr ds, dr')
    \<and> mset (map sample_facts ds) = mset (map entry_facts (unread_samples (dr_datasample_cache dr)))
        + mset (map (change_facts A) (unread tc (last_read_sn (dr_read_state dr))))
    \<and> unread_samples (dr_datasample_cache dr') = [] \<and> unread tc (last_read_sn (dr_read_state dr')) = [] \<and> dr_ok A tc dr'"
proof -
  let ?lr = "last_read_sn (dr_read_state dr)" and ?key = "keyed_key A"
  have lr: "lr_ok ?lr" using assms(5) by (simp add: dr_ok_def)
  obtain dr1 where dr1: "fill_changes A (unread tc ?lr) dr = Some (Inr (), dr1)" "dr_ok A tc dr1" "dr_qos dr1 = dr_qos dr"
      "unread tc (last_read_sn (dr_read_state dr1)) = []"
      "mset (map entry_facts (unread_samples (dr_datasample_cache dr1)))
         = mset (map entry_facts (unread_samples (dr_datasample_cache dr))) + mset (map (change_facts A) (unread tc ?lr))"
    using fill_ok [OF assms(5,1,2) refl assms(6)] assms(4) by blast
  let ?c = "dr_datasample_cache dr1" and ?h = "unread_samples (dr_datasample_cache dr1)"
  have inv: "dsc_inv ?key ?c" using dr1(2) by (simp add: dr_ok_def)
  from take_selected [OF inv, of ReadCondition_not_read n] obtain sel ds c' where
    sel: "select_keys_for_access ?key ReadCondition_not_read ?c = Some sel" "take_by_keys (take n sel) ?c = Some (ds, c')"
      "map ds_value ds = map (\<lambda>(_, smd). smd_sample smd) (take n ?h)"
      "map (\<lambda>d. (publication_handle (ds_sample_info d), info_sequence_number (ds_sample_info d))) ds
        = map (\<lambda>(_, smd). (smd_writer_guid smd, smd_sequence_number smd)) (take n ?h)"
      "bm_entries (datasamples c') = filter (\<lambda>e. e \<notin> set (take n ?h)) (bm_entries (datasamples ?c))" "dsc_inv ?key c'"
    unfolding hits_not_read by blast
  have "length ?h \<le> n" using assms(7) arg_cong [OF dr1(5), of size] by (simp only: size_union size_mset length_map)
  then have all: "take n ?h = ?h" by simp
  let ?dr' = "dr1\<lparr>dr_datasample_cache := c'\<rparr>"
  have "dr_take A clock tc n ReadCondition_not_read dr = Some (Inr ds, ?dr')"
    using fill_is_fill_changes [OF assms(1,2,3) lr refl, of A clock] dr1(1) sel(1,2) by (simp add: dr_take_def fill_then_def)
  moreover have "mset (map sample_facts ds) = mset (map entry_facts (unread_samples (dr_datasample_cache dr))) + mset (map (change_facts A) (unread tc ?lr))"
    using sample_facts_map [OF sel(3,4)] dr1(5) all by simp
  moreover have "unread_samples c' = []"
    unfolding sel(5) all by (auto simp: filter_empty_conv)
  moreover have "dr_ok A tc ?dr'"
    using dr1(2) sel(6) taken_still_listed [OF inv sel(1,2)] by (simp add: dr_ok_def)
  ultimately show ?thesis using dr1(4) by (intro exI [of _ ds] exI [of _ ?dr']) simp
qed

text \<open>C18: Every sample once. For a reliable data reader that keeps all samples, a call of \<open>take\<close> for unread
  samples returns, given that the unread changes can be decoded. If its limit allows, it hands out, each
  exactly once and with its writer, number and value, the samples that were unread in the sample cache and
  all changes of the topic cache that can be read; nothing is left to be read, and the reader stays in
  step with the topic cache.\<close>

theorem take_delivers_once:
  assumes "tc_inv tc" and "markers_bounded tc" and "is_reliable (dr_qos dr)" and "keep_limit (dr_qos dr) = None" and "dr_ok A tc dr"
    and "\<forall>e \<in> set (unread tc (last_read_sn (dr_read_state dr))). decode A (snd e) \<noteq> None"
    and "length (unread_samples (dr_datasample_cache dr)) + length (unread tc (last_read_sn (dr_read_state dr))) \<le> n"
  shows "\<exists>ds dr'. dr_take A clock tc n ReadCondition_not_read dr = Some (Inr ds, dr')
    \<and> mset (map sample_facts ds) = mset (map entry_facts (unread_samples (dr_datasample_cache dr)))
        + mset (map (change_facts A) (unread tc (last_read_sn (dr_read_state dr))))
    \<and> unread_samples (dr_datasample_cache dr') = [] \<and> unread tc (last_read_sn (dr_read_state dr')) = [] \<and> dr_ok A tc dr'"
  by (rule take_delivers [OF assms])

lemma sample_data_reader_ok: "dr_ok A tc sample_data_reader" "keep_limit (dr_qos sample_data_reader) = None"
    "unread_samples (dr_datasample_cache sample_data_reader) = []"
  unfolding sample_data_reader_def
  by (rule dr_ok_new) (simp_all add: from_simple_data_reader_def keep_limit_def sample_keep_history_limit_def
      sample_keep_resource_limit_def sample_keep_all_qos_def sample_reliable_qos_def qos_none_def dsc_new_def)

lemma decode_sample: "decode sample_adapter (sample_payload_cc sn v) = Some (Sample_Value (1, uint v))"
  by (simp add: decode_def sample_payload_cc_def cc_new_def sample_adapter_def)

theorem take_delivers_once_witness:
  "\<exists>ds dr'. dr_take sample_adapter (\<lambda>_. Timestamp 9 0) (one_change_cache (Timestamp 5 0) (sample_payload_cc 1 7)) 10 ReadCondition_not_read sample_data_reader
       = Some (Inr ds, dr') \<and> map sample_facts ds = [(GUID_UNKNOWN, 1, Sample_Value (1, 7))]"
proof -
  let ?tc = "one_change_cache (Timestamp 5 0) (sample_payload_cc 1 7)"
  have un: "unread ?tc (last_read_sn (dr_read_state sample_data_reader)) = [(Timestamp 5 0, sample_payload_cc 1 7)]"
    by (simp add: sample_data_reader_facts(3) one_change_unread)
  obtain ds dr' where ds: "dr_take sample_adapter (\<lambda>_. Timestamp 9 0) ?tc 10 ReadCondition_not_read sample_data_reader = Some (Inr ds, dr')"
      "mset (map sample_facts ds) = {#(GUID_UNKNOWN, 1, Sample_Value (1, 7))#}"
    using take_delivers_once [of ?tc sample_data_reader sample_adapter 10 "\<lambda>_. Timestamp 9 0"] sample_data_reader_ok(1) [of sample_adapter ?tc]
      sample_data_reader_ok(2,3) sample_data_reader_facts(1) one_change_unread(2,3) [of "sample_payload_cc 1 7" "Timestamp 5 0"] un
    by (auto simp: decode_sample change_facts_def)
  from ds(2) have "map sample_facts ds = [(GUID_UNKNOWN, 1, Sample_Value (1, 7))]" by (metis mset_single_iff_right mset.simps)
  with ds(1) show ?thesis by (intro exI conjI)
qed

lemma depth_one_keeps_latest:
  fixes key :: "'d \<Rightarrow> 'k::linorder"
  assumes lim: "keep_limit qos = Some 1" and ts: "ts2 < ts1" and k: "sample_key key s1 = sample_key key s2"
  obtains c1 c2 where "add_sample key s1 g1 sn1 ts1 wo1 (dsc_new qos) = Some c1" and "add_sample key s2 g2 sn2 ts2 wo2 c1 = Some c2"
    and "dsc_inv key c2" and "bm_entries (datasamples c2) = [(ts1, smd_after key s1 g1 sn1 ts1 wo1 (dsc_new qos))]"
proof -
  let ?c0 = "dsc_new qos :: ('d, 'k) datasample_cache" and ?i1 = "imd_after key s1 ts1 (dsc_new qos)"
  have u0: "unlisted ?c0 ts1" by (simp add: unlisted_def listed_def dsc_new_def)
  have i1: "instance_samples ?i1 = bm_insert ts1 () bm_empty" by (simp add: imd_after_def imd_add_def imd_new_def dsc_new_def)
  have "keys_to_remove qos (bm_insert ts1 () bm_empty) = []"
    using keys_to_remove_limit [OF lim, of "bm_insert ts1 () bm_empty"] by (simp add: bm_len_def)
  then obtain c1 where c1: "add_sample key s1 g1 sn1 ts1 wo1 ?c0 = Some c1" "dsc_inv key c1"
      "dsc_qos c1 = qos" "datasamples c1 = bm_insert ts1 (smd_after key s1 g1 sn1 ts1 wo1 ?c0) bm_empty"
      "instance_map c1 = bm_insert (sample_key key s1) (?i1\<lparr>instance_samples := bm_insert ts1 () bm_empty\<rparr>) bm_empty"
    using add_sample_spec [OF dsc_inv_new u0, of key s1 g1 sn1 wo1] i1 by (auto simp: dsc_new_def)
  have u1: "unlisted c1 ts2" using ts by (auto simp: unlisted_def listed_def c1(5) i1)
  have i2: "instance_samples (imd_after key s2 ts2 c1) = bm_insert ts2 () (bm_insert ts1 () bm_empty)"
    by (simp add: imd_after_def imd_add_def c1(5) i1 k)
  have "keys_to_remove qos (bm_insert ts2 () (bm_insert ts1 () bm_empty)) = [ts2]"
    using keys_to_remove_limit [OF lim, of "bm_insert ts2 () (bm_insert ts1 () bm_empty)"] ts
    by (simp add: bm_len_def bm_keys_def)
  then obtain c2 where c2: "add_sample key s2 g2 sn2 ts2 wo2 c1 = Some c2" "dsc_inv key c2"
      "datasamples c2 = bm_remove ts2 (bm_insert ts2 (smd_after key s2 g2 sn2 ts2 wo2 c1) (datasamples c1))"
    using add_sample_spec [OF c1(2) u1, of s2 g2 sn2 wo2] i2 c1(3) by auto
  have "bm_entries (datasamples c2) = [(ts1, smd_after key s1 g1 sn1 ts1 wo1 ?c0)]"
    using ts by (simp add: c2(3) c1(4) bm_remove_def)
  with c1(1) c2(1,2) show ?thesis by (rule that)
qed

text \<open>A repaired sample hides a newer one. Changes are filed by the time they were received. With a history
  depth of one, when the change with the lower number was repaired and so received after the one with the
  higher number, and both are of one instance, the application gets the older value only: the newer one
  was dropped as the older of the two.\<close>

theorem repaired_sample_hides_newer:
  assumes "tc_inv tc" and "markers_bounded tc" and "is_reliable qos" and "keep_limit qos = Some 1"
    and "unread tc bm_empty = [(ts1, cc1), (ts2, cc2)]" and "writer_guid cc1 = writer_guid cc2" and "ts2 < ts1"
    and "decode A cc1 = Some s1" and "decode A cc2 = Some s2" and "sample_key (keyed_key A) s1 = sample_key (keyed_key A) s2"
    and "1 \<le> n"
  shows "sequence_number cc1 < sequence_number cc2
    \<and> (\<exists>ds dr'. dr_take A clock tc n ReadCondition_not_read (from_simple_data_reader qos read_state_new) = Some (Inr ds, dr')
         \<and> map sample_facts ds = [(writer_guid cc1, sequence_number cc1, s1)] \<and> unread tc (last_read_sn (dr_read_state dr')) = [])"
proof -
  let ?dr = "from_simple_data_reader qos read_state_new :: ('a, 'b) data_reader" and ?key = "keyed_key A"
  let ?rs = "read_state_new :: 'b read_state" and ?c0 = "dsc_new qos :: ('a, 'b) datasample_cache"
  have dr: "dr_read_state ?dr = ?rs" "dr_datasample_cache ?dr = ?c0" "dr_qos ?dr = qos"
    by (simp_all add: from_simple_data_reader_def)
  have lr: "lr_ok (last_read_sn ?rs)" "last_read_sn ?rs = bm_empty" by (simp_all add: read_state_new_def lr_ok_empty)
  have "sn_ordered cc1 cc2" using unread_spec(2) [OF assms(1) lr_ok_empty] by (simp add: assms(5))
  then have sn: "sequence_number cc1 < sequence_number cc2" using assms(6) by (simp add: sn_ordered_def)
  obtain h1 where d1: "deserialize_with A ts1 cc1 (hash_to_key_map ?rs) = (Inr (dcc_new ts1 cc1 s1), h1)"
    using deserialize_decode [OF assms(8)] by blast
  obtain h2 where d2: "deserialize_with A ts2 cc2 h1 = (Inr (dcc_new ts2 cc2 s2), h2)"
    using deserialize_decode [OF assms(9)] by blast
  obtain c1 c2 where c: "add_sample ?key s1 (writer_guid cc1) (sequence_number cc1) ts1 (write_options cc1) ?c0 = Some c1"
      "add_sample ?key s2 (writer_guid cc2) (sequence_number cc2) ts2 (write_options cc2) c1 = Some c2" "dsc_inv ?key c2"
      "bm_entries (datasamples c2) = [(ts1, smd_after ?key s1 (writer_guid cc1) (sequence_number cc1) ts1 (write_options cc1) ?c0)]"
    by (rule depth_one_keeps_latest [OF assms(4,7,10)])
  let ?dr2 = "?dr\<lparr>dr_read_state := advance_read_state ts2 cc2 h2 (advance_read_state ts1 cc1 h1 ?rs), dr_datasample_cache := c2\<rparr>"
  have "fill_changes A [(ts1, cc1), (ts2, cc2)] ?dr = Some (Inr (), ?dr2)"
    using d1 d2 c(1,2) by (simp add: dr fill_from_deserialized_cache_change_def dcc_new_def)
  moreover have "fill_and_lock_local_datasample_cache A clock tc ?dr = fill_changes A [(ts1, cc1), (ts2, cc2)] ?dr"
    using assms(3,5) lr by (intro fill_is_fill_changes [OF assms(1,2)]) (simp_all add: dr)
  moreover obtain sel ds c' where sel: "select_keys_for_access ?key ReadCondition_not_read c2 = Some sel" "take_by_keys (take n sel) c2 = Some (ds, c')"
      "map ds_value ds = map (\<lambda>(_, smd). smd_sample smd) (take n (unread_samples c2))"
      "map (\<lambda>d. (publication_handle (ds_sample_info d), info_sequence_number (ds_sample_info d))) ds
        = map (\<lambda>(_, smd). (smd_writer_guid smd, smd_sequence_number smd)) (take n (unread_samples c2))"
    using take_selected [OF c(3), of ReadCondition_not_read n] unfolding hits_not_read by blast
  ultimately have "dr_take A clock tc n ReadCondition_not_read ?dr = Some (Inr ds, ?dr2\<lparr>dr_datasample_cache := c'\<rparr>)"
    by (simp add: dr_take_def fill_then_def)
  moreover have "map sample_facts ds = [(writer_guid cc1, sequence_number cc1, s1)]"
    using sample_facts_map [OF sel(3,4)] assms(11) by (cases n) (simp_all add: c(4) smd_after_def entry_facts_def)
  moreover have "unread tc (last_read_sn (dr_read_state (?dr2\<lparr>dr_datasample_cache := c'\<rparr>))) = []"
    using unread_rest [OF assms(1) lr_ok_empty assms(2,5)]
      unread_rest(2) [OF assms(1) _ assms(2), of "bm_insert (writer_guid cc1) (sequence_number cc1) bm_empty" ts2 cc2 "[]"] by (simp add: lr(2))
  ultimately show ?thesis using sn by (intro conjI exI)
qed

definition late_repair_cache :: topic_cache where
  "late_repair_cache = (tc_new ''square'' ''Square'' qos_none)\<lparr>
     tc_changes := bm_insert (Timestamp 5 0) (sample_payload_cc 2 20) (bm_insert (Timestamp 6 0) (sample_payload_cc 1 10) bm_empty),
     tc_sequence_numbers := bm_insert GUID_UNKNOWN (bm_insert 1 (Timestamp 6 0) (bm_insert 2 (Timestamp 5 0) bm_empty)) bm_empty,
     received_reliably_before := bm_insert GUID_UNKNOWN 3 bm_empty\<rparr>"

theorem repaired_sample_hides_newer_witness:
  "\<exists>ds dr'. dr_take sample_adapter (\<lambda>_. Timestamp 9 0) late_repair_cache 10 ReadCondition_not_read
       (from_simple_data_reader sample_reliable_qos read_state_new) = Some (Inr ds, dr')
     \<and> map sample_facts ds = [(GUID_UNKNOWN, 1, Sample_Value (1, 10))]"
proof -
  have inv: "tc_inv late_repair_cache"
    by (auto simp: tc_inv_def tc_index_def late_repair_cache_def tc_get_change_def split: if_splits option.splits)
  have marks: "markers_bounded late_repair_cache"
    by (auto simp: markers_bounded_def reliable_before_def late_repair_cache_def i64_max_def sn_default_def split: option.splits)
  have un: "unread late_repair_cache bm_empty = [(Timestamp 6 0, sample_payload_cc 1 10), (Timestamp 5 0, sample_payload_cc 2 20)]"
    by (simp add: unread_def get_changes_in_range_reliable_def late_repair_cache_def reliable_range_def reliable_before_def
        bm_range_ee_def sn_zero_def plus_1_def List.map_filter_simps tc_get_change_def rust_int)
  have lim: "keep_limit sample_reliable_qos = Some 1"
    by (simp add: keep_limit_def sample_keep_history_limit_def sample_reliable_qos_def qos_none_def)
  have key: "keyed_key sample_adapter = fst" by (simp add: sample_adapter_def)
  from repaired_sample_hides_newer [OF inv marks sample_reliable lim un _ _ decode_sample decode_sample, of 10 "\<lambda>_. Timestamp 9 0"]
  show ?thesis by (auto simp: less_timestamp_def key)
qed

end
