(* ===== verification/Application.thy ===== *)
theory Application
  imports Exchange Data_Reader
begin

text \<open>
  The RTPS reader (Reader, Reader_Delivery), the topic cache it fills and the data reader on top of it
  (Data_Reader), run together: the events of the network and the calls of the application come in any
  order. Shown here: the calls return as long as no unread change is a dispose by key hash, what the
  application gets has no holes before it, and a sample whose predecessors are known is handed out.
\<close>

section \<open>What one event changes in the topic cache\<close>

lemma add_change_others:
  assumes inv: "tc_inv tc" and add: "tc_add_change now instant cc tc = Some tc'" and ts: "ts \<noteq> instant" "tc_get_change tc' ts = Some c"
  shows "tc_get_change tc ts = Some c"
proof -
  obtain tc1 where tc1: "(if as_usize (sequence_number cc) mod 64 = 0
      then tc_remove_changes_before now Timestamp_ZERO tc else Some tc) = Some tc1"
    using add unfolding tc_add_change_def add_change_internal_def
    by (cases "if as_usize (sequence_number cc) mod 64 = 0 then tc_remove_changes_before now Timestamp_ZERO tc else Some tc") auto
  have inv1: "tc_inv tc1" and sub: "tc_get_change tc1 ts = Some c \<Longrightarrow> tc_get_change tc ts = Some c"
    using tc1 inv gc_spec(2,3) [OF inv, of now Timestamp_ZERO tc1] gc_retained_get [of Timestamp_ZERO tc]
    by (auto simp: tc_get_change_def split: if_splits)
  show ?thesis
  proof (cases "find_by_sn tc1 cc")
    case None
    with add tc1 ts show ?thesis
      using sub add_new_inv(2) [OF inv1 None, of instant ts]
      by (simp add: tc_add_change_def add_change_internal_def Let_def cong: option.case_cong)
  next
    case (Some t)
    with add tc1 have "tc' = tc1"
      by (simp add: tc_add_change_def add_change_internal_def find_by_sn_index)
    with ts sub show ?thesis by simp
  qed
qed

lemma store_others:
  assumes "tc_inv tc" and "store_and_notify now dv wo g sn r tc = Some (r', tc', es)" and "ts \<noteq> now" and "tc_get_change tc' ts = Some c"
  shows "tc_get_change tc ts = Some c"
  using assms by (auto simp: store_and_notify_def make_cache_change_def bind_eq_Some_conv intro: add_change_others split: if_splits option.splits)

lemma received_others:
  assumes "tc_inv tc" and "process_received_data now dv wo g sn r tc = Some (r', tc', es)" and "ts \<noteq> now" and "tc_get_change tc' ts = Some c"
  shows "tc_get_change tc ts = Some c"
  using assms by (auto simp: process_received_data_def intro: store_others split: if_splits option.splits)

lemma step_others:
  assumes "tc_inv tc" and "reader_step x now ev r tc = Some (r', tc', es)" and "ts \<noteq> now" and "tc_get_change tc' ts = Some c"
  shows "tc_get_change tc ts = Some c"
proof (cases ev)
  case (RV_Data d flags mrs)
  then show ?thesis using assms by (auto simp: handle_data_msg_def Let_def intro: received_others split: option.splits)
next
  case (RV_DataFrag d flags mrs)
  then show ?thesis using assms
    by (auto simp: handle_datafrag_msg_def Let_def bind_eq_Some_conv intro: received_others split: option.splits if_splits)
next
  case (RV_Heartbeat hb final mrs)
  then show ?thesis using assms
    by (auto simp: handle_heartbeat_msg_def Let_def bind_eq_Some_conv split: if_splits option.splits dest: heartbeat_worker_changes)
next
  case (RV_Gap gp mrs)
  then show ?thesis using assms
    by (auto simp: handle_gap_msg_def Let_def bind_eq_Some_conv split_beta split: if_splits option.splits)
qed (use assms in \<open>auto simp: handle_heartbeatfrag_msg_def split_beta Let_def\<close>)

section \<open>Marks and times of a reachable cache\<close>

lemma tells_bounded:
  assumes "reader_event_ok S ev" and "(g, y) \<in> tells x now r ev"
  shows "y < i64_max"
proof (cases ev)
  case (RV_Gap gp mrs)
  then have gp: "gap_in_range gp" and y: "y \<in> gap_numbers gp" using assms by auto
  then have "in_i64 (bitmap_base (gap_list gp) + int (num_bits (gap_list gp)))" by (auto simp: gap_in_range_def in_i64_def)
  with gp have "ns_elems SeqNum (gap_list gp) = Some (map (\<lambda>i. bitmap_base (gap_list gp) + int i) (filter (ns_bit (gap_list gp)) [0..<num_bits (gap_list gp)]))"
    using ns_between_set [of SeqNum "gap_list gp"] by (simp add: gap_in_range_def ns_wf_def ns_elems_eq)
  with gp y show ?thesis by (auto simp: gap_numbers_def gap_in_range_def in_i64_def)
qed (use assms in \<open>auto simp: in_i64_def Let_def split: if_splits option.splits\<close>)

lemma reach_times:
  assumes "ext_ok x" and "samples_ok S" and "reader_reach x S told now r tc"
  shows "(\<forall>g y. (g, y) \<in> told \<longrightarrow> y < i64_max) \<and> (\<forall>ts cc. tc_get_change tc ts = Some cc \<longrightarrow> ts \<le> now)"
  using assms(3)
proof induction
  case (reach_new now g name dtype qos0 stateless qos r)
  show ?case by (simp add: tc_new_def update_keep_limits_def tc_get_change_def Let_def)
next
  case (reach_step told now r tc now' ev r' tc' es)
  have "tc_inv tc" by (rule reader_invD(1) [OF reader_reach_inv [OF reach_step.hyps(1) assms(1,2)]])
  note others = step_others [OF this reach_step.hyps(4)]
  from reach_step.IH reach_step.hyps(2) others
  have "ts \<le> now'" if "tc_get_change tc' ts = Some cc" for ts cc
    using that by (metis order_refl order_trans)
  then show ?case
    using reach_step.IH tells_bounded [OF reach_step.hyps(3)] by auto
qed

lemma told_bounds_markers:
  assumes "markers_ok told tc" and "\<forall>g y. (g, y) \<in> told \<longrightarrow> y < i64_max"
  shows "markers_bounded tc"
  unfolding markers_bounded_def
proof (rule allI, rule ccontr)
  fix g
  assume "\<not> reliable_before tc g \<le> i64_max"
  moreover have "1 \<le> i64_max" by (simp add: i64_max_def)
  ultimately have "(g, i64_max) \<in> told" using assms(1) by (simp add: markers_ok_def)
  with assms(2) show False by blast
qed

section \<open>What the application does to its reader\<close>

lemma added_entries:
  assumes "fill_from_deserialized_cache_change key (dcc_new ts cc s) c = Some c'"
  shows "e \<in> set (bm_entries (datasamples c')) \<Longrightarrow> e \<in> set (bm_entries (datasamples c)) \<or> entry_facts e = (writer_guid cc, sequence_number cc, s)"
    and "\<not> unlisted c' t \<Longrightarrow> t = ts \<or> \<not> unlisted c t"
proof -
  let ?k = "sample_key key s"
  let ?imd = "imd_add ts (sample_instance_state s) (case bm_get (instance_map c) ?k of Some imd \<Rightarrow> imd | None \<Rightarrow> imd_new (sample_instance_state s))"
  obtain ks smd where c': "c' = c\<lparr>datasamples := fold bm_remove ks (bm_insert ts smd (datasamples c)),
      instance_map := bm_insert ?k (?imd\<lparr>instance_samples := fold bm_remove ks (instance_samples ?imd)\<rparr>) (instance_map c)\<rparr>"
      "entry_facts (ts, smd) = (writer_guid cc, sequence_number cc, s)"
    using assms by (auto simp: fill_from_deserialized_cache_change_def add_sample_def dcc_new_def entry_facts_def Let_def split: if_splits)
  show "e \<in> set (bm_entries (datasamples c'))
      \<Longrightarrow> e \<in> set (bm_entries (datasamples c)) \<or> entry_facts e = (writer_guid cc, sequence_number cc, s)"
    using c'(2) by (cases e) (auto simp: c'(1) in_entries split: if_splits)
  show "\<not> unlisted c' t \<Longrightarrow> t = ts \<or> \<not> unlisted c t"
    unfolding unlisted_def listed_def c'(1)
    by (auto simp: imd_add_def imd_new_def split: option.splits if_splits)
qed

text \<open>Every number up to that of the sample has been delivered or declared irrelevant.\<close>

definition no_holes :: "(guid \<times> seqnum) set \<Rightarrow> guid \<times> seqnum \<times> ('d, 'k) sample \<Rightarrow> bool" where
  "no_holes told f \<longleftrightarrow> (\<forall>y. 1 \<le> y \<and> y \<le> fst (snd f) \<longrightarrow> (fst f, y) \<in> told)"

abbreviation stored_facts :: "('d, 'k::linorder) data_reader \<Rightarrow> (guid \<times> seqnum \<times> ('d, 'k) sample) set" where
  "stored_facts dr \<equiv> entry_facts ` set (bm_entries (datasamples (dr_datasample_cache dr)))"

definition app_inv ::
    "('d, 'k::linorder) deserializer_adapter \<Rightarrow> qos_policies \<Rightarrow> (guid \<times> seqnum) set \<Rightarrow> timestamp \<Rightarrow> topic_cache \<Rightarrow> ('d, 'k) data_reader \<Rightarrow> bool" where
  "app_inv A qos told now tc dr \<longleftrightarrow> dr_ok A tc dr \<and> dr_qos dr = qos
     \<and> (\<forall>ts. \<not> unlisted (dr_datasample_cache dr) ts \<longrightarrow> ts \<le> now) \<and> (\<forall>f \<in> stored_facts dr. no_holes told f)"

definition cache_inv :: "(guid \<times> seqnum) set \<Rightarrow> timestamp \<Rightarrow> topic_cache \<Rightarrow> bool" where
  "cache_inv told now tc \<longleftrightarrow> tc_inv tc \<and> markers_ok told tc \<and> markers_bounded tc \<and> (\<forall>ts cc. tc_get_change tc ts = Some cc \<longrightarrow> ts \<le> now)"

lemma fill_keeps:
  assumes "cache_inv told now tc" and "app_inv A qos told now tc dr" and "unread tc (last_read_sn (dr_read_state dr)) = ccs"
  shows "fill_changes A ccs dr = Some (res, dr') \<Longrightarrow> app_inv A qos told now tc dr'"
    and "\<forall>e \<in> set ccs. \<nexists>c kh. data_value (snd e) = DisposeByKeyHash c kh \<Longrightarrow> fill_changes A ccs dr \<noteq> None"
proof -
  have tc: "tc_inv tc" "markers_bounded tc" using assms(1) by (simp_all add: cache_inv_def)
  have "(fill_changes A ccs dr = Some (res, dr') \<longrightarrow> app_inv A qos told now tc dr')
    \<and> ((\<forall>e \<in> set ccs. \<nexists>c kh. data_value (snd e) = DisposeByKeyHash c kh) \<longrightarrow> fill_changes A ccs dr \<noteq> None)"
    using assms(2,3)
  proof (induction ccs arbitrary: dr)
    case (Cons e ccs)
    obtain ts cc where e: "e = (ts, cc)" by (cases e)
    let ?rs = "dr_read_state dr"
    have ok: "dr_ok A tc dr" and lr: "lr_ok (last_read_sn ?rs)" using Cons.prems(1) by (simp_all add: app_inv_def dr_ok_def)
    have un: "unread tc (last_read_sn ?rs) = (ts, cc) # ccs" using Cons.prems(2) by (simp add: e)
    have cc: "tc_get_change tc ts = Some cc" "last_read (last_read_sn ?rs) (writer_guid cc) < sequence_number cc"
        "sequence_number cc < reliable_before tc (writer_guid cc)"
      using unread_spec(1) [OF tc(1) lr, of ts cc] by (simp_all add: un)
    obtain result h where d: "deserialize_with A ts cc (hash_to_key_map ?rs) = (result, h)" by fastforce
    have rest: "lr_ok (last_read_sn (advance_read_state ts cc h ?rs))" "unread tc (last_read_sn (advance_read_state ts cc h ?rs)) = ccs"
      using unread_rest [OF tc(1) lr tc(2) un] by (simp_all add: advance_read_state_def)
    show ?case
    proof (cases result)
      case (Inl err)
      have "dr_ok A tc (dr\<lparr>dr_read_state := advance_read_state ts cc h ?rs\<rparr>)"
        using ok rest(1) cc(2) by (auto simp: dr_ok_def advance_read_state_def last_read_insert) (metis less_imp_le order_trans)
      with Inl d Cons.prems(1) show ?thesis
        by (auto simp: e app_inv_def deserialize_with_def Let_def split: read_error.splits dds_data.splits option.splits)
    next
      case (Inr dcc)
      then obtain s where s: "dcc = dcc_new ts cc s"
        using d by (auto simp: deserialize_with_def Let_def split: dds_data.splits option.splits)
      obtain c where c: "fill_from_deserialized_cache_change (keyed_key A) (dcc_new ts cc s) (dr_datasample_cache dr) = Some c"
          "dr_ok A tc (dr\<lparr>dr_read_state := advance_read_state ts cc h ?rs, dr_datasample_cache := c\<rparr>)"
        by (rule add_step [OF ok tc un d [unfolded Inr s]])
      have "no_holes told (writer_guid cc, sequence_number cc, s)" and "ts \<le> now"
        using assms(1) cc by (auto simp: cache_inv_def markers_ok_def no_holes_def)
      then have "app_inv A qos told now tc (dr\<lparr>dr_read_state := advance_read_state ts cc h ?rs, dr_datasample_cache := c\<rparr>)"
        using c(2) Cons.prems(1) added_entries [OF c(1)] by (fastforce simp: app_inv_def)
      from Cons.IH [OF this] rest(2) show ?thesis using c(1) by (simp add: e d Inr s)
    qed
  qed auto
  then show "fill_changes A ccs dr = Some (res, dr') \<Longrightarrow> app_inv A qos told now tc dr'"
    and "\<forall>e \<in> set ccs. \<nexists>c kh. data_value (snd e) = DisposeByKeyHash c kh \<Longrightarrow> fill_changes A ccs dr \<noteq> None"
    by blast+
qed

lemma access_keeps:
  assumes inv: "dsc_inv key c" and sel: "select_keys_for_access key rc c = Some sel"
  obtains ds c' where "(if tk then take_by_keys else read_by_keys) (take n sel) c = Some (ds, c')" and "dsc_inv key c'"
    and "dsc_qos c' = dsc_qos c" and "\<forall>ts. unlisted c' ts \<longleftrightarrow> unlisted c ts"
    and "entry_facts ` set (bm_entries (datasamples c')) \<subseteq> entry_facts ` set (bm_entries (datasamples c))"
    and "sample_facts ` set ds \<subseteq> entry_facts ` set (bm_entries (datasamples c))"
proof -
  let ?h = "take n (hits key rc c)"
  let ?keys = "map (\<lambda>(ts, smd). (ts, smd_key key smd)) ?h"
  let ?ds = "data_samples (ranks_of ?keys c) (samples_of (datasamples c) ?keys)"
  define dsm where "dsm = (if tk then fold bm_remove (map fst ?keys) (datasamples c) else mark_read (fst ` set ?keys) (datasamples c))"
  let ?c' = "c\<lparr>datasamples := dsm, instance_map := viewed ?keys c\<rparr>"
  have keys: "take n sel = ?keys" using sel by (auto simp: select_keys_spec [OF inv] take_map)
  have valid: "keys_valid ?keys c" by (rule selected_valid [OF inv])
  have h: "\<forall>(ts, smd) \<in> set ?h. bm_get (datasamples c) ts = Some smd" by (auto dest!: in_set_takeD hits_stored)
  have smd: "\<exists>smd'. bm_get (datasamples c) ts = Some smd' \<and> smd_sample smd' = smd_sample smd \<and> entry_facts (ts, smd') = entry_facts (ts, smd)"
    if "bm_get dsm ts = Some smd" for ts smd
    using that by (auto simp: dsm_def mark_read_def entry_facts_def split: if_splits)
  have "(if tk then take_by_keys else read_by_keys) (take n sel) c = Some (?ds, ?c')"
    using take_by_keys_spec [OF valid] read_by_keys_spec [OF valid] by (simp add: keys dsm_def)
  moreover have "dsc_inv key ?c'" by (rule dsc_inv_viewed [OF inv]) (use smd in blast)
  moreover have "\<forall>ts. unlisted ?c' ts \<longleftrightarrow> unlisted c ts" unfolding unlisted_def by simp
  moreover have "entry_facts ` set (bm_entries (datasamples ?c')) \<subseteq> entry_facts ` set (bm_entries (datasamples c))"
  proof
    fix f assume "f \<in> entry_facts ` set (bm_entries (datasamples ?c'))"
    then obtain ts smd where "bm_get dsm ts = Some smd" "f = entry_facts (ts, smd)"
      by (auto simp: in_entries)
    with smd show "f \<in> entry_facts ` set (bm_entries (datasamples c))" by (metis image_eqI in_entries)
  qed
  moreover have "sample_facts ` set ?ds \<subseteq> entry_facts ` set (bm_entries (datasamples c))"
  proof -
    have len: "length (ranks_of ?keys c) = length ?keys" by (simp add: ranks_of_def)
    have "map sample_facts ?ds = map entry_facts ?h"
    proof (rule sample_facts_map)
      show "map ds_value ?ds = map (\<lambda>(_, smd). smd_sample smd) ?h" by (simp add: len data_samples_sel samples_of_hits)
      show "map (\<lambda>d. (publication_handle (ds_sample_info d), info_sequence_number (ds_sample_info d))) ?ds
          = map (\<lambda>(_, smd). (smd_writer_guid smd, smd_sequence_number smd)) ?h"
        using arg_cong [OF data_samples_sel(2) [of "ranks_of ?keys c" "samples_of (datasamples c) ?keys"],
            of "map (\<lambda>i. (publication_handle i, info_sequence_number i))"] infos_of_hits(1) [OF h]
        by (simp add: len comp_def ranks_of_def)
    qed
    from arg_cong [OF this, of set] have "sample_facts ` set ?ds = entry_facts ` set ?h" by (simp only: set_map)
    moreover have "entry_facts ` set ?h \<subseteq> entry_facts ` set (bm_entries (datasamples c))"
      by (rule image_mono) (use h in \<open>auto simp: in_entries\<close>)
    ultimately show ?thesis by (simp only:)
  qed
  moreover have "dsc_qos ?c' = dsc_qos c" by simp
  ultimately show thesis by (intro that)
qed

text \<open>A call of the application: \<open>take\<close> or \<open>read\<close>.\<close>

definition app_call ::
    "bool \<Rightarrow> ('d, 'k::linorder) deserializer_adapter \<Rightarrow> (nat \<Rightarrow> timestamp) \<Rightarrow> topic_cache \<Rightarrow> nat \<Rightarrow> read_condition \<Rightarrow> ('d, 'k) data_reader \<Rightarrow>
     (('d, 'k) data_sample list, 'd, 'k) dr_result" where
  "app_call tk A clock tc n rc dr = (if tk then dr_take A clock tc n rc dr else dr_read A clock tc n rc dr)"

lemma app_call_fill:
  "app_call tk A clock tc n rc dr = fill_then A clock tc
     (\<lambda>c. do { sel \<leftarrow> select_keys_for_access (keyed_key A) rc c; (if tk then take_by_keys else read_by_keys) (take n sel) c }) dr"
  by (simp add: app_call_def dr_take_def dr_read_def)

lemma app_call_ok:
  assumes tc: "cache_inv told now tc" and inv: "app_inv A qos told now tc dr" and rel: "is_reliable qos"
  shows "app_call tk A clock tc n rc dr = Some (res, dr') \<Longrightarrow> app_inv A qos told now tc dr'
      \<and> (\<forall>ds. res = Inr ds \<longrightarrow> (\<forall>d \<in> set ds. no_holes told (sample_facts d)))"
    and "\<forall>e \<in> set (unread tc (last_read_sn (dr_read_state dr))). \<nexists>c kh. data_value (snd e) = DisposeByKeyHash c kh
      \<Longrightarrow> app_call tk A clock tc n rc dr \<noteq> None"
proof -
  let ?un = "unread tc (last_read_sn (dr_read_state dr))"
  have fill: "fill_and_lock_local_datasample_cache A clock tc dr = fill_changes A ?un dr"
    using tc inv rel by (intro fill_is_fill_changes refl) (simp_all add: cache_inv_def app_inv_def dr_ok_def)
  have call: "\<exists>res dr'. app_call tk A clock tc n rc dr = Some (res, dr') \<and> app_inv A qos told now tc dr'
      \<and> (\<forall>ds. res = Inr ds \<longrightarrow> (\<forall>d \<in> set ds. no_holes told (sample_facts d)))"
    if f: "fill_changes A ?un dr = Some (filled, dr1)" for filled dr1
  proof -
    have inv1: "app_inv A qos told now tc dr1" by (rule fill_keeps(1) [OF tc inv refl f])
    let ?c = "dr_datasample_cache dr1"
    have c: "dsc_inv (keyed_key A) ?c" using inv1 by (simp add: app_inv_def dr_ok_def)
    obtain sel where sel: "select_keys_for_access (keyed_key A) rc ?c = Some sel" using select_keys_spec [OF c] by blast
    obtain ds c' where acc: "(if tk then take_by_keys else read_by_keys) (take n sel) ?c = Some (ds, c')" "dsc_inv (keyed_key A) c'"
        "dsc_qos c' = dsc_qos ?c" "\<forall>ts. unlisted c' ts \<longleftrightarrow> unlisted ?c ts"
        "entry_facts ` set (bm_entries (datasamples c')) \<subseteq> entry_facts ` set (bm_entries (datasamples ?c))"
        "sample_facts ` set ds \<subseteq> entry_facts ` set (bm_entries (datasamples ?c))"
      by (rule access_keeps [OF c sel])
    have "app_inv A qos told now tc (dr1\<lparr>dr_datasample_cache := c'\<rparr>)"
      using inv1 acc(2-5) by (auto simp: app_inv_def dr_ok_def)
    moreover have "\<forall>d \<in> set ds. no_holes told (sample_facts d)" using inv1 acc(6) by (auto simp: app_inv_def)
    ultimately show ?thesis
      using inv1 sel acc(1) by (cases filled) (simp_all add: app_call_fill fill_then_def fill f split del: if_split)
  qed
  show "app_call tk A clock tc n rc dr = Some (res, dr') \<Longrightarrow> app_inv A qos told now tc dr'
      \<and> (\<forall>ds. res = Inr ds \<longrightarrow> (\<forall>d \<in> set ds. no_holes told (sample_facts d)))"
    using call by (cases "fill_changes A ?un dr") (auto simp: app_call_fill fill_then_def fill)
  show "\<forall>e \<in> set ?un. \<nexists>c kh. data_value (snd e) = DisposeByKeyHash c kh \<Longrightarrow> app_call tk A clock tc n rc dr \<noteq> None"
    using call fill_keeps(2) [OF tc inv refl] by (cases "fill_changes A ?un dr") auto
qed

section \<open>Network and application in any order\<close>

text \<open>
  The data reader starts at any moment of the life of its RTPS reader. The time stamps of the events
  that follow are later than those before, which is what the cache of samples relies on.
\<close>

inductive app_reach ::
    "ext \<Rightarrow> sent_samples \<Rightarrow> ('d, 'k::linorder) deserializer_adapter \<Rightarrow> qos_policies \<Rightarrow>
     (guid \<times> seqnum) set \<Rightarrow> timestamp \<Rightarrow> rtps_reader \<Rightarrow> topic_cache \<Rightarrow> ('d, 'k) data_reader \<Rightarrow> bool" for x S A qos where
  app_start: "reader_reach x S told now r tc \<Longrightarrow> app_reach x S A qos told now r tc (from_simple_data_reader qos read_state_new)"
| app_event: "app_reach x S A qos told now r tc dr \<Longrightarrow> now < now' \<Longrightarrow> reader_event_ok S ev \<Longrightarrow>
     reader_step x now' ev r tc = Some (r', tc', es) \<Longrightarrow> app_reach x S A qos (told \<union> tells x now' r ev) now' r' tc' dr"
| app_access: "app_reach x S A qos told now r tc dr \<Longrightarrow> app_call tk A clock tc n rc dr = Some (res, dr') \<Longrightarrow>
     app_reach x S A qos told now r tc dr'"

lemma app_reach_reader: "app_reach x S A qos told now r tc dr \<Longrightarrow> reader_reach x S told now r tc"
  by (induction rule: app_reach.induct) (auto intro: reach_step less_imp_le)

lemma reach_cache_inv:
  assumes "ext_ok x" and "samples_ok S" and "reader_reach x S told now r tc"
  shows "cache_inv told now tc"
  using reader_invD(1,3) [OF reader_reach_inv [OF assms(3,1,2)]] reach_times [OF assms]
  by (auto simp: cache_inv_def intro: told_bounds_markers)

lemma no_holes_mono: "no_holes told f \<Longrightarrow> told \<subseteq> told' \<Longrightarrow> no_holes told' f"
  by (auto simp: no_holes_def)

lemma app_reach_inv:
  assumes "ext_ok x" and "samples_ok S" and "is_reliable qos" and "app_reach x S A qos told now r tc dr"
  shows "app_inv A qos told now tc dr"
  using assms(4)
proof (induction rule: app_reach.induct)
  case (app_start told now r tc)
  show ?case
    using dr_ok_new [of A tc qos]
    by (simp add: app_inv_def from_simple_data_reader_def) (simp add: dsc_new_def unlisted_def listed_def)
next
  case (app_event told now r tc dr now' ev r' tc' es)
  have "tc_inv tc"
    using reach_cache_inv [OF assms(1,2) app_reach_reader [OF app_event.hyps(1)]] by (simp add: cache_inv_def)
  note others = step_others [OF this app_event.hyps(4)]
  have "tc_get_change tc ts = Some cc" if "\<not> unlisted (dr_datasample_cache dr) ts" "tc_get_change tc' ts = Some cc" for ts cc
    using others [OF _ that(2)] app_event.IH app_event.hyps(2) that(1) by (fastforce simp: app_inv_def)
  then have "dr_ok A tc' dr" using app_event.IH unfolding app_inv_def dr_ok_def by blast
  with app_event.IH app_event.hyps(2) show ?case
    by (auto simp: app_inv_def intro: no_holes_mono order_trans less_imp_le)
next
  case (app_access told now r tc dr tk clock n rc res dr')
  then show ?case
    using app_call_ok(1) [OF reach_cache_inv [OF assms(1,2) app_reach_reader] _ assms(3)] by blast
qed

section \<open>Properties\<close>

text \<open>C9: The application gets no sample with a hole before it. Whatever the order of network events and of
  calls of the application, a call of \<open>take\<close> or \<open>read\<close> of a reliable data reader returns, unless one of
  the unread changes is a dispose by key hash; and of every sample it hands out, all earlier numbers of the
  same writer have been delivered or declared irrelevant to the RTPS reader.\<close>

theorem application_gets_no_holes:
  assumes "ext_ok x" and "samples_ok S" and "is_reliable qos" and "app_reach x S A qos told now r tc dr"
    and "\<forall>e \<in> set (unread tc (last_read_sn (dr_read_state dr))). \<nexists>c kh. data_value (snd e) = DisposeByKeyHash c kh"
  shows "\<exists>res dr'. app_call tk A clock tc n rc dr = Some (res, dr')
    \<and> (\<forall>ds. res = Inr ds \<longrightarrow> (\<forall>d \<in> set ds. \<forall>y. 1 \<le> y \<and> y \<le> info_sequence_number (ds_sample_info d) \<longrightarrow>
         (publication_handle (ds_sample_info d), y) \<in> told))"
proof -
  note tc = reach_cache_inv [OF assms(1,2) app_reach_reader [OF assms(4)]]
  note inv = app_reach_inv [OF assms(1-4)]
  from app_call_ok(2) [OF tc inv assms(3,5)] obtain res dr' where call: "app_call tk A clock tc n rc dr = Some (res, dr')"
    by fastforce
  from app_call_ok(1) [OF tc inv assms(3) this] show ?thesis
    by (intro exI [of _ res] exI [of _ dr'] conjI call) (auto simp: no_holes_def sample_facts_def)
qed

text \<open>A reader that has received one sample, and an application whose values are single bytes.\<close>

definition letter_adapter :: "(int \<times> int, int) deserializer_adapter" where
  "letter_adapter = sample_adapter\<lparr>from_bytes_with := (\<lambda>bs _. case bs of [v] \<Rightarrow> Some (0, uint v) | _ \<Rightarrow> None)\<rparr>"

lemma sample_data_value:
  "data_to_dds_data sample_ext (sample_data sn) 5 = Some dv \<Longrightarrow>
     dv = Data_Payload \<lparr>representation_identifier = CDR_LE, representation_options = (0, 0), sp_value = [65]\<rparr>"
  by (auto simp: data_to_dds_data_def sample_data_def sample_ext_def sp_from_bytes_def slice_def H_LEN_def CDR_LE_def Let_def)

lemma sorted_single: "sorted_wrt P xs \<Longrightarrow> \<not> P a a \<Longrightarrow> set xs = {a} \<Longrightarrow> xs = [a]"
  by (cases xs rule: remdups_adj.cases) auto

lemma sample_app_reach:
  obtains r tc wp ts cc where "app_reach sample_ext no_samples letter_adapter sample_keep_all_qos {(sample_writer, 1)} (Timestamp 100 0) r tc sample_data_reader"
    "bm_get (matched_writers r) sample_writer = Some wp" "\<forall>y. 1 \<le> y \<and> y \<le> 1 \<longrightarrow> should_ignore_change wp y"
    "tc_get_change tc ts = Some cc" "writer_guid cc = sample_writer" "sequence_number cc = 1"
    "decode letter_adapter cc = Some (Sample_Value (0, 65))" "\<nexists>k kh. data_value cc = DisposeByKeyHash k kh"
    "unread tc (last_read_sn (dr_read_state sample_data_reader)) = [(ts, cc)]"
proof -
  let ?lr = "last_read_sn (dr_read_state sample_data_reader)"
  obtain r tc wp ts cc where h: "reader_reach sample_ext no_samples {(sample_writer, 1)} (Timestamp 100 0) r tc"
    "bm_get (matched_writers r) sample_writer = Some wp" "\<forall>y. 1 \<le> y \<and> y \<le> 1 \<longrightarrow> should_ignore_change wp y"
    "tc_get_change tc ts = Some cc" "writer_guid cc = sample_writer" "sequence_number cc = 1"
    "data_to_dds_data sample_ext (sample_data 1) 5 = Some (data_value cc)" "\<forall>t c. tc_get_change tc t = Some c \<longrightarrow> c = cc"
    by (rule sample_data_reach)
  note inv = reader_reach_inv [OF h(1) ext_ok_sample samples_ok_none]
  note dv = sample_data_value [OF h(7)]
  have lr: "lr_ok ?lr" by (simp add: sample_data_reader_facts(3) lr_ok_empty)
  have in_un: "(ts, cc) \<in> set (unread tc ?lr)"
    using complete_read [OF inv last_read_empty(1), of cc wp ts] h(2-6) by (auto simp: unread_def sample_data_reader_facts(3) last_read_empty)
  have "e = (ts, cc)" if "e \<in> set (unread tc ?lr)" for e
  proof -
    obtain t c where e: "e = (t, c)" by (cases e)
    have get: "tc_get_change tc t = Some c" using that unread_spec(1) [OF reader_invD(1) [OF inv] lr, of t c] by (simp add: e)
    moreover have "c = cc" using h(8) get by blast
    ultimately show ?thesis
      using tc_invD(2) [OF reader_invD(1) [OF inv] get] tc_invD(2) [OF reader_invD(1) [OF inv] h(4)] by (simp add: e)
  qed
  with in_un have "set (unread tc ?lr) = {(ts, cc)}" by blast
  then have "unread tc ?lr = [(ts, cc)]"
    by (intro sorted_single [OF unread_spec(2) [OF reader_invD(1) [OF inv] lr]]) (simp_all add: sn_ordered_def)
  then show thesis
    using app_start [OF h(1), of letter_adapter sample_keep_all_qos] h(2-6) dv
    by (intro that [of r tc wp ts cc]) (simp_all add: sample_data_reader_def decode_def letter_adapter_def sample_adapter_def)
qed

theorem application_gets_no_holes_witness:
  "\<exists>r tc res dr'. app_reach sample_ext no_samples letter_adapter sample_keep_all_qos {(sample_writer, 1)} (Timestamp 100 0) r tc sample_data_reader
     \<and> app_call False letter_adapter (\<lambda>_. Timestamp 200 0) tc 5 ReadCondition_any sample_data_reader = Some (res, dr')"
proof -
  obtain r tc ts cc where h: "app_reach sample_ext no_samples letter_adapter sample_keep_all_qos {(sample_writer, 1)} (Timestamp 100 0) r tc sample_data_reader"
    "\<nexists>k kh. data_value cc = DisposeByKeyHash k kh" "unread tc (last_read_sn (dr_read_state sample_data_reader)) = [(ts, cc)]"
    by (rule sample_app_reach)
  have "is_reliable sample_keep_all_qos" using sample_data_reader_facts(1) by (simp add: sample_data_reader_def from_simple_data_reader_def)
  from application_gets_no_holes [OF ext_ok_sample samples_ok_none this h(1), of False "\<lambda>_. Timestamp 200 0" 5 ReadCondition_any] h
  show ?thesis by auto
qed



end
