(* ===== verification/Spec2Isabelle.thy ===== *)
theory Spec2Isabelle
  imports Rust_Prelude Sequence_Number Time_Duration Guid Locators Writer_Proxy External Wire_Elements Payload Qos
    Submessages Messages Fragment_Assembler Reader_Proxy Status_Events History_Buffer Writer Writer_Correct Writer_Delivery Dds_Cache Reader
    Reader_Correct Reader_Delivery Message_Receiver Exchange Datasample_Cache Data_Reader Application
begin

text \<open>
  Verification of the protocol core of a DDS implementation in Rust: the RTPS writers and readers of a
  participant, what they send to each other, and the readers through which an application gets its
  samples. The sources are under src/src; names of definitions follow the names of the code.

  \<^bold>\<open>The program.\<close> An application writes samples to a data writer. The RTPS writer keeps them in its
  history, pushes them as DATA or DATAFRAG submessages to the matched readers, announces what it has by
  heartbeats and answers requests for repair. On the other side the message receiver of the participant
  interprets a packet and hands its submessages to the RTPS readers. A reader tracks by a proxy per
  writer what it has received, reassembles fragments, replies to heartbeats, and files samples in the
  topic cache, with a mark up to which a writer is received without gaps. Data readers take changes from
  the topic cache in order, deserialize them and keep them until the application reads or takes them.

  \<^bold>\<open>The theories\<close>, each with the code it models:

  \<^item> \<open>Rust_Prelude\<close>: fixed-width integers with their wrap-around, ordered maps and sets of the standard
    library, iteration helpers. The locale \<open>ordered_map\<close> is the contract of an ordered map, \<open>simulation\<close>
    that of a refinement of one step function by another.
  \<^item> \<open>Sequence_Number\<close>, \<open>Time_Duration\<close>, \<open>Guid\<close>, \<open>Locators\<close> (src/src/structure): numbers, ranges and
    number sets with their iterators; 32.32 fixed point times; identifiers; transport addresses.
  \<^item> \<open>External\<close>: the third-party crates as one parameter \<open>x\<close> of the model, with what the code relies on
    as the hypothesis \<open>ext_ok x\<close>; \<open>sample_ext\<close> satisfies it.
  \<^item> \<open>Wire_Elements\<close>, \<open>Payload\<close>, \<open>Submessages\<close>, \<open>Messages\<close> (src/src/messages, src/src/rtps/message.rs
    and submessage.rs, src/src/dds/ddsdata.rs): the wire format. The locale \<open>wire_format\<close> says that what
    is written is read back; it is interpreted for every element and submessage.
  \<^item> \<open>Qos\<close> (src/src/dds/qos.rs): policies, the check of offered against requested ones, parameter lists.
  \<^item> \<open>Writer_Proxy\<close> (src/src/rtps/rtps_writer_proxy.rs): what a reader knows of a writer. The locale
    \<open>reception_tracker\<close> is its contract towards the reader.
  \<^item> \<open>Fragment_Assembler\<close> (src/src/rtps/fragment_assembler.rs): reassembly, a \<open>simulation\<close> of an
    assembler that only remembers which fragments have come.
  \<^item> \<open>Reader_Proxy\<close> (src/src/rtps/rtps_reader_proxy.rs), \<open>History_Buffer\<close>, \<open>Writer\<close> (src/src/rtps/writer.rs),
    \<open>Status_Events\<close> (src/src/dds/statusevents.rs): the writer with its history, of which \<open>change_store\<close> is
    the contract. \<open>Writer_Correct\<close> holds its invariant and that every event keeps it, \<open>Writer_Delivery\<close>
    what it promises.
  \<^item> \<open>Dds_Cache\<close> (src/src/structure/dds_cache.rs): the topic caches. \<open>Reader\<close> (src/src/rtps/reader.rs) with
    its invariant in \<open>Reader_Correct\<close> and its promises in \<open>Reader_Delivery\<close>.
  \<^item> \<open>Message_Receiver\<close> (src/src/rtps/message_receiver.rs): from a packet to the handlers.
  \<^item> \<open>Exchange\<close>: a writer and a reader in two participants, connected by packets.
  \<^item> \<open>Datasample_Cache\<close>, \<open>Data_Reader\<close> (src/src/dds/with_key, src/src/dds/sampleinfo.rs, readcondition.rs,
    key.rs): the readers of the application. \<open>Application\<close>: RTPS reader, topic cache and data reader
    together.

  \<^bold>\<open>How code becomes definitions.\<close> A struct is a record, an enum a datatype, a method one definition that
  returns the new state. What a handler sends, notifies or schedules is a list of effects in the order of
  the code. A panic, or a loop that does not end, is \<^const>\<open>None\<close>; errors that the code returns are values.
  Clock readings are arguments, or \<open>clock n\<close> for the \<open>n\<close>-th reading. \<open>i64\<close>, \<open>i32\<close> and \<open>u32\<close> are integers
  with the wrap-around of a release build written out; bytes, flags and bitmaps are words. Locks are
  atomic sections: a handler or a call of the application sees one state of the topic cache. Log output is
  left out.

  \<^bold>\<open>What is shown.\<close>

  \<^item> From writer to reader: a pushed sample reaches the topic cache of the waiting reader through
    serialization, packet, parser and receiver (\<open>written_sample_reaches_cache\<close>); the reply to a heartbeat
    makes the writer take as acknowledged only what the reader knows and send what it misses
    (\<open>heartbeat_acknack_exchange\<close>).
  \<^item> From reader to application: in every order of network events and calls, and as long as no unread change
    is a dispose by key hash, the calls of a reliable reader return and hand out no sample with a hole
    before it; a reader that keeps all samples and can decode them hands out the sample whose predecessors
    are known (\<open>Application\<close>). The simple reader hands out the changes of a writer in order and none twice,
    and a take hands out every unread sample once (\<open>Data_Reader\<close>).
  \<^item> Writer and reader: invariants over every sequence of events, absence of panics, repairs that end,
    cleaning that keeps what is not acknowledged, exact replies to heartbeats (\<open>Writer_Correct\<close>,
    \<open>Writer_Delivery\<close>, \<open>Reader_Correct\<close>, \<open>Reader_Delivery\<close>).
  \<^item> Wire format: no packet makes the parser panic, and messages are read back as written (\<open>Messages\<close>).
  \<^item> Containers: the proxies, the assembler and the caches compute exactly what their contracts say.
  \<^item> Where the code does not do what it means to, a theorem says so for the definitions as they are, for
    instance \<open>Data_Reader.try_take_one_returns_iff\<close> and \<open>Fragment_Assembler.datafrag_overrun_panics\<close>.

  \<^bold>\<open>Hypotheses.\<close> Events of the network are restricted only where the code needs it: sequence numbers leave
  room below the largest \<open>i64\<close> (256 for heartbeats, the size of a number set), DATAFRAGs are fragments of
  samples, the clock starts 5 seconds after its epoch and does not step back, and in \<open>Application\<close> the events
  after the start of the data reader have distinct time stamps. The states that a theorem
  speaks of are those reachable by such events, or those that satisfy an invariant shown for them.

  \<^bold>\<open>Loops.\<close> There is no fuel. Structural loops are \<open>fun\<close>; the packet loop and the bitmap iterators are
  \<open>function\<close>s with a measure; loops whose end depends on the data (ranges up to the largest number, parameter
  lists, taking changes from the cache) are \<open>partial_function\<close>s, and that they return is part of the
  theorems.

  \<^bold>\<open>Not modelled.\<close> The event loop, sockets, channels, timers and threads (src/src/rtps/dp_event_loop.rs,
  src/src/network, src/src/mio_source.rs): input and output; their order is arbitrary in the theorems.
  Discovery (src/src/discovery): the proxies it announces are events. The constructors and wrappers of
  participant, publisher, subscriber, topic, data writer and the variants without key (src/src/dds):
  wiring around the modelled operations. The adapters to CDR (src/src/serialization), the key types and
  values of the application: parameters. Everything behind the security feature (src/src/security,
  src/src/discovery/secure_discovery.rs, secure submessages), which the default build leaves out and whose
  content is third-party cryptography. Examples, tests and the ROS 2 names.
\<close>

section \<open>Properties that span the participants\<close>

text \<open>C1: A written sample arrives. When a writer that pushes its samples is given one that fits a DATA
  submessage, every packet it sends for it, received by a participant in which one reader matched with
  the writer waits for the sample, puts the sample with its data into the topic cache of that reader.\<close>

theorem written_sample_reaches_cache:
  assumes "ext_ok x" and "samples_ok S" and "mono clock" and "mr_inv S (clock (clock_reads mr)) mr"
    and "writer_inv w" and "sample_ok w now dv wo sn" and "push_mode w" and "\<not> w_like_stateless w"
    and "to_single_reader wo = None" and "payload_size dv \<le> data_max_size_serialized w" and "dv = Data_Payload sp"
    and "cc_wire (cc_new (w_my_guid w) sn wo dv)" and "wf_prefix (guid_prefix (w_my_guid w))"
    and "in_i32 (heartbeat_message_counter w)" and "sn < i64_max - 256"
    and "awaits_sample mr eid r (w_my_guid w) sn"
  shows "\<exists>w' es. handle_dds_data x now dv wo sn w = Some (w', es)
    \<and> (\<forall>packet loc. WE_Send packet loc \<in> set es \<longrightarrow>
         (\<exists>mr' fx. handle_received_packet x clock packet mr = Some (mr', fx)
            \<and> holds_sample mr' (r_topic_name r) (w_my_guid w) sn dv))"
proof -
  let ?cc = "cc_new (w_my_guid w) sn wo dv" and ?first = "first_seq (w_history_buffer w)"
  let ?m = "pushed_message x w ?cc ?first" and ?e = "w_endianness w"
  let ?packet = "write_message x ?e ?m"
  obtain w' where w': "handle_dds_data x now dv wo sn w = Some (w', WE_WakeDataWriter # map (WE_Send ?packet)
      (send_locators Multicast (bm_values (readers (notify_readers sn wo w))) []))"
    using handle_dds_data_pushes [OF assms(1,5-10)] by blast
  have first: "in_i64 ?first"
    using writer_invD(1,2,3) [OF assms(5)] by (auto simp: in_i64_def i64_min_def hb_inv_def)
  have sn: "in_i64 sn" using assms(12) by (simp add: cc_wire_def)
  define mr0 where "mr0 = (mr_reset mr)\<lparr>dest_guid_prefix := own_guid_prefix mr, source_guid_prefix := h_guid_prefix (msg_header ?m),
      source_version := h_protocol_version (msg_header ?m), source_vendor_id := h_vendor_id (msg_header ?m)\<rparr>"
  let ?sms = "map (received x) (submessages ?m)"
  have packet: "handle_received_packet x clock ?packet mr = handle_submessages x clock ?sms mr0"
    using pushed_message_read [OF assms(1,12,13) first assms(14), of ?e]
    by (simp add: handle_received_packet_def handle_parsed_message_def mr0_def)
  have "mr_inv S (clock (clock_reads mr0)) mr0" "\<not> not_for_us mr0" "source_guid_prefix mr0 = guid_prefix (w_my_guid w)"
      "awaits_sample mr0 eid r (w_my_guid w) (sequence_number ?cc)"
    using assms(4,16) by (simp_all add: mr0_def mr_inv_def mr_reset_def not_for_us_def pushed_message_def header_new_def
        awaits_sample_def available_target_entity_ids_def Let_def)
  from pushed_submessages_stored [OF assms(1-3) this, of sp ?first] assms(11,15) sn first
  have "\<exists>mr' fx. handle_submessages x clock ?sms mr0 = Some (mr', fx) \<and> holds_sample mr' (r_topic_name r) (w_my_guid w) sn dv"
    by simp
  with w' packet show ?thesis by auto
qed

theorem written_sample_reaches_cache_witness:
  "\<exists>w w' es packet loc r mr' fx. handle_dds_data sample_ext (Timestamp 4 0) (data_value sample_change) (write_options sample_change) 4 w = Some (w', es)
     \<and> WE_Send packet loc \<in> set es
     \<and> handle_received_packet sample_ext (\<lambda>_. Timestamp 100 0) packet (sample_receiver r) = Some (mr', fx)
     \<and> holds_sample mr' ''square'' sample_writer 4 (data_value sample_change)"
proof -
  let ?dv = "data_value sample_change" and ?wo = "write_options sample_change"
  obtain w where w: "writer_inv w" "w_history_buffer w = sample_history" "readers w = bm_insert sample_reader sample_proxy bm_empty"
      "\<not> w_like_stateless w" "w_qos_policies w = sample_reliable_qos" "push_mode w" "w_my_guid w = sample_writer"
      "data_max_size_serialized w = 1024" "heartbeat_message_counter w = 1"
    by (rule sample_busy_writer)
  obtain r where r: "reader_reach sample_ext no_samples {} (Timestamp 100 0) r sample_tc"
      "matched_writers r = bm_insert sample_writer sample_wp bm_empty" "r_reliability r \<noteq> BestEffort"
      "\<not> r_like_stateless r" "fragment_assemblers r = bm_empty" "r_my_guid r = GUID_UNKNOWN" "r_topic_name r = ''square''"
    by (rule sample_reader_reach)
  have mr: "mr_inv no_samples ((\<lambda>_. Timestamp 100 0) (clock_reads (sample_receiver r))) (sample_receiver r)"
    using sample_receiver_inv [OF r(1,7)] by simp
  have waits: "awaits_sample (sample_receiver r) EntityId_UNKNOWN r (w_my_guid w) 4"
    using r by (simp add: w(7) awaits_sample_def sample_receiver_def add_reader_def mr_new_def available_target_entity_ids_def target_reader_def
        contains_writer_def bm_values_def GUID_UNKNOWN_def should_ignore_change_iff sample_wp_def wp_known_new
        sample_tc_def tc_new_def update_keep_limits_def tc_index_def Let_def)
  have sample: "sample_ok w (Timestamp 4 0) ?dv ?wo 4"
    by (auto simp: sample_ok_def hb_fresh_def w(2) sample_history_eqs i64_max_def sample_change_def sp_len_serialized_def H_LEN_def
        less_timestamp_def split: if_splits)
  have wire: "cc_wire (cc_new (w_my_guid w) 4 ?wo ?dv)"
    by (simp add: cc_wire_def sample_change_def sample_identity_ok_def sample_writer_def sp_len_serialized_def H_LEN_def
        in_i64_def i64_min_def i64_max_def)
  have "\<exists>w' es. handle_dds_data sample_ext (Timestamp 4 0) ?dv ?wo 4 w = Some (w', es)
    \<and> (\<forall>packet loc. WE_Send packet loc \<in> set es \<longrightarrow>
         (\<exists>mr' fx. handle_received_packet sample_ext (\<lambda>_. Timestamp 100 0) packet (sample_receiver r) = Some (mr', fx)
            \<and> holds_sample mr' (r_topic_name r) (w_my_guid w) 4 ?dv))"
    by (rule written_sample_reaches_cache [OF ext_ok_sample samples_ok_none _ mr w(1) sample w(6,4) _ _ _ wire _ _ _ waits])
      (simp_all add: monoI w(7-9) sample_change_def sp_len_serialized_def H_LEN_def sample_writer_def in_i32_def i64_max_def)
  then obtain w' es where es: "handle_dds_data sample_ext (Timestamp 4 0) ?dv ?wo 4 w = Some (w', es)"
      "\<And>packet loc. WE_Send packet loc \<in> set es \<Longrightarrow>
         \<exists>mr' fx. handle_received_packet sample_ext (\<lambda>_. Timestamp 100 0) packet (sample_receiver r) = Some (mr', fx)
            \<and> holds_sample mr' ''square'' sample_writer 4 ?dv"
    unfolding r(7) w(7) by blast
  have "bm_values (readers (notify_readers 4 ?wo w)) = [notify_new_cache_change 4 sample_proxy]"
    by (simp add: notify_readers_def w(3) bm_values_def sample_change_def)
  moreover have "reader_locators Multicast (notify_new_cache_change 4 sample_proxy) = [sample_locator]"
    by (simp add: notify_new_cache_change_def sample_proxy_def rp_new_def sample_locator_def)
  ultimately have "sample_locator \<in> set (send_locators Multicast (bm_values (readers (notify_readers 4 ?wo w))) [])"
    by (simp add: set_send_locators del: reader_locators.simps)
  then have "\<exists>packet loc. WE_Send packet loc \<in> set es"
    using handle_dds_data_pushes [OF ext_ok_sample w(1) sample w(6,4)] es(1)
    by (auto simp: w(8) sample_change_def sp_len_serialized_def H_LEN_def)
  with es show ?thesis by blast
qed

text \<open>C2: The exchange of HEARTBEAT and ACKNACK. The last packet of the reader's reply, received by the
  writer's participant, gives the writer one ACKNACK. Afterwards the writer takes as acknowledged only
  numbers that the reader knows, and keeps to be sent every number that the reader is missing, in the
  window of the ACKNACK, as far as the writer has it and the reader has no fragments of it.\<close>

theorem heartbeat_acknack_exchange:
  assumes "ext_ok x" and "samples_ok S" and "reader_reach x S told now r tc"
    and "r_reliability r \<noteq> BestEffort" and "\<not> r_like_stateless r"
    and "g = GUID (mrs_source_guid_prefix mrs) (hb_writer_id hb)" and "bm_get (matched_writers r) g = Some wp"
    and "received_heartbeat_count wp < hb_count hb" and "in_i64 (first_sn hb)" and "last_sn hb < i64_max - 256"
    and "in_i32 (sent_ack_nack_count wp)" and "wf_prefix (guid_prefix g)" and "wf_prefix (guid_prefix (r_my_guid r))"
    and "own_guid_prefix mr = guid_prefix g"
    and "writer_inv w" and "is_reliable (w_qos_policies w)" and "\<not> w_like_stateless w"
    and "bm_get (readers w) (r_my_guid r) = Some rp"
    and "handle_heartbeat_msg x hb final mrs r tc = Some (True, r', tc', es)"
  shows "\<exists>packet dst mr' an w' ws rp' wp'. last es = RE_Send packet dst
    \<and> handle_received_packet x clock packet mr = Some (mr', [RX_AckNack (guid_prefix (r_my_guid r)) (Ack_AckNack an)])
    \<and> handle_ack_nack x (guid_prefix (r_my_guid r)) (Ack_AckNack an) w = Some (w', ws)
    \<and> bm_get (readers w') (r_my_guid r) = Some rp' \<and> bm_get (matched_writers r') g = Some wp'
    \<and> (\<forall>y < all_acked_before rp'. should_ignore_change wp' y)
    \<and> (\<forall>y. all_acked_before rp' \<le> y \<and> y < all_acked_before rp' + 256 \<and> y \<le> last_sn hb \<and> y \<le> last_seq (w_history_buffer w)
         \<and> \<not> should_ignore_change wp' y \<and> \<not> is_frag_partially_received r g y \<longrightarrow> bs_contains (unsent_changes rp') y)"
proof -
  have inv: "reader_inv True S told now r tc" by (rule reader_reach_inv [OF assms(3,1,2)])
  obtain packet dst mr' an wp1 wp' where packet: "last es = RE_Send packet dst"
      "handle_received_packet x clock packet mr = Some (mr', [RX_AckNack (guid_prefix (r_my_guid r)) (Ack_AckNack an)])"
      "an_reader_id an = r_entity_id r" "acknack_for r g (last_sn hb) wp1 (reader_sn_state an)"
      "bm_get (matched_writers r') g = Some wp'" "\<forall>y. should_ignore_change wp' y = wp_known wp1 y"
    by (rule heartbeat_reply_packet [OF assms(1,2) inv assms(4-14,19)])
  define st where "st = reader_sn_state an"
  have guid: "GUID (guid_prefix (r_my_guid r)) (an_reader_id an) = r_my_guid r" by (simp add: packet(3))
  have rp: "bm_get (readers w) (GUID (guid_prefix (r_my_guid r)) (an_reader_id an)) = Some rp" using assms(18) by (simp add: guid)
  have st: "ns_wf (reader_sn_state an)" "ns_elems SeqNum (reader_sn_state an) =
      Some (filter (\<lambda>y. \<not> wp_known wp1 y \<and> \<not> is_frag_partially_received r g y) [bitmap_base st..min (last_sn hb) (bitmap_base st + 255)])"
      "\<forall>y < bitmap_base st. wp_known wp1 y"
    using packet(4) by (simp_all add: acknack_for_def st_def)
  obtain w' ws rp' where w': "handle_ack_nack x (guid_prefix (r_my_guid r)) (Ack_AckNack an) w = Some (w', ws)"
    "bm_get (readers w') (GUID (guid_prefix (r_my_guid r)) (an_reader_id an)) = Some rp'"
    "all_acked_before rp' = bitmap_base (reader_sn_state an)"
    "\<forall>sn. bs_contains (unsent_changes rp') sn \<longleftrightarrow> (bitmap_base (reader_sn_state an) \<le> sn \<and> bs_contains (unsent_changes rp) sn
       \<or> sn \<in> set (filter (\<lambda>y. \<not> wp_known wp1 y \<and> \<not> is_frag_partially_received r g y)
            [bitmap_base st..min (last_sn hb) (bitmap_base st + 255)])) \<and> sn \<le> last_seq (w_history_buffer w)"
    by (rule handle_ack_nack_proxy [OF assms(1,15-17) rp st(1,2)])
  have "\<forall>y < all_acked_before rp'. should_ignore_change wp' y"
    using st(3) w'(3) by (simp add: packet(6) st_def)
  moreover have "\<forall>y. all_acked_before rp' \<le> y \<and> y < all_acked_before rp' + 256 \<and> y \<le> last_sn hb \<and> y \<le> last_seq (w_history_buffer w)
      \<and> \<not> should_ignore_change wp' y \<and> \<not> is_frag_partially_received r g y \<longrightarrow> bs_contains (unsent_changes rp') y"
    using w'(3,4) by (simp add: packet(6) st_def)
  ultimately show ?thesis
    using packet(1,2,5) w'(1,2) unfolding guid by blast
qed

theorem heartbeat_acknack_exchange_witness:
  "\<exists>r r' tc' es packet dst mr' an w w' ws rp'. reader_reach sample_ext no_samples {} (Timestamp 100 0) r sample_tc
     \<and> handle_heartbeat_msg sample_ext (sample_heartbeat 1 3) True sample_mrs r sample_tc = Some (True, r', tc', es)
     \<and> last es = RE_Send packet dst
     \<and> handle_received_packet sample_ext (\<lambda>_. Timestamp 100 0) packet (mr_new sample_prefix)
         = Some (mr', [RX_AckNack (guid_prefix (r_my_guid r)) (Ack_AckNack an)])
     \<and> handle_ack_nack sample_ext (guid_prefix (r_my_guid r)) (Ack_AckNack an) w = Some (w', ws)
     \<and> bm_get (readers w') (r_my_guid r) = Some rp' \<and> all_acked_before rp' \<le> 1"
proof -
  obtain r where r: "reader_reach sample_ext no_samples {} (Timestamp 100 0) r sample_tc"
      "matched_writers r = bm_insert sample_writer sample_wp bm_empty" "r_reliability r \<noteq> BestEffort"
      "\<not> r_like_stateless r" "fragment_assemblers r = bm_empty" "r_my_guid r = GUID_UNKNOWN"
    by (rule sample_reader_reach)
  obtain w0 where w0: "writer_inv w0" "w_history_buffer w0 = sample_history" "readers w0 = bm_insert sample_reader sample_proxy bm_empty"
      "\<not> w_like_stateless w0" "w_qos_policies w0 = sample_reliable_qos"
    by (rule sample_busy_writer)
  define w where "w = w0\<lparr>readers := bm_insert GUID_UNKNOWN (rp_new GUID_UNKNOWN sample_reliable_qos False) (readers w0)\<rparr>"
  have w: "writer_inv w" "is_reliable (w_qos_policies w)" "\<not> w_like_stateless w"
      "bm_get (readers w) (r_my_guid r) = Some (rp_new GUID_UNKNOWN sample_reliable_qos False)"
    unfolding w_def by (intro writer_inv_insert_reader [OF w0(1)])
      (simp_all add: w0(4,5) proxy_inv_def rp_new_def is_reliable_def sample_reliable_qos_def r(6))
  let ?hb = "sample_heartbeat 1 3"
  have hb: "sample_writer = GUID (mrs_source_guid_prefix sample_mrs) (hb_writer_id ?hb)"
      "bm_get (matched_writers r) sample_writer = Some sample_wp" "received_heartbeat_count sample_wp < hb_count ?hb"
      "in_i64 (first_sn ?hb)" "last_sn ?hb < i64_max - 256"
    using sample_source r(2) by (simp_all add: sample_heartbeat_def sample_wp_def wp_new_def in_i64_def i64_min_def i64_max_def)
  have inv: "reader_inv True no_samples {} (Timestamp 100 0) r sample_tc"
    by (rule reader_reach_inv [OF r(1) ext_ok_sample samples_ok_none])
  obtain wp1 c answer es0 where h: "wp_inv wp1" "1 \<le> ack_base wp1" "remote_writer_guid wp1 = sample_writer"
      "wp_known wp1 = (\<lambda>y. wp_known sample_wp y \<or> 0 \<le> y \<and> y < first_sn ?hb)"
      "handle_heartbeat_msg sample_ext ?hb True sample_mrs r sample_tc = Some (answer,
         r\<lparr>matched_writers := bm_insert sample_writer (wp1\<lparr>sent_ack_nack_count := c\<rparr>) (matched_writers r)\<rparr>,
         snd (mark_reliably_received_before sample_writer (ack_base wp1) sample_tc),
         (if fst (mark_reliably_received_before sample_writer (ack_base wp1) sample_tc) then [RE_Notify] else []) @ es0)"
      "answer \<longleftrightarrow> (\<exists>y. first_sn ?hb \<le> y \<and> y \<le> last_sn ?hb \<and> \<not> wp_known wp1 y) \<or> \<not> True"
    by (rule handle_heartbeat_new [OF ext_ok_sample samples_ok_none inv r(3,4) hb])
  have unknown: "\<not> wp_known wp1 1"
    by (simp add: h(4) sample_wp_def wp_known_new sample_heartbeat_def)
  then have answer unfolding h(6) by (intro disjI1 exI [of _ 1]) (simp add: sample_heartbeat_def)
  then obtain r' tc' es where reply: "handle_heartbeat_msg sample_ext ?hb True sample_mrs r sample_tc = Some (True, r', tc', es)"
      "bm_get (matched_writers r') sample_writer = Some (wp1\<lparr>sent_ack_nack_count := c\<rparr>)"
    using h(5) by simp
  have small: "in_i32 (sent_ack_nack_count sample_wp)" "wf_prefix (guid_prefix sample_writer)" "wf_prefix (guid_prefix (r_my_guid r))"
      "own_guid_prefix (mr_new sample_prefix) = guid_prefix sample_writer"
    by (simp_all add: sample_wp_def wp_new_def in_i32_def sample_writer_def r(6) GUID_UNKNOWN_def GuidPrefix_UNKNOWN_def wf_prefix_def mr_new_def)
      (simp add: sample_prefix_def)
  obtain packet dst mr' an w' ws rp' where e: "last es = RE_Send packet dst"
    "handle_received_packet sample_ext (\<lambda>_. Timestamp 100 0) packet (mr_new sample_prefix)
       = Some (mr', [RX_AckNack (guid_prefix (r_my_guid r)) (Ack_AckNack an)])"
    "handle_ack_nack sample_ext (guid_prefix (r_my_guid r)) (Ack_AckNack an) w = Some (w', ws)"
    "bm_get (readers w') (r_my_guid r) = Some rp'" "\<forall>y < all_acked_before rp'. wp_known wp1 y"
    using heartbeat_acknack_exchange [OF ext_ok_sample samples_ok_none r(1,3,4) hb small w reply(1), of "\<lambda>_. Timestamp 100 0"] reply(2)
    by (auto simp: should_ignore_change_iff wp_known_def)
  have "all_acked_before rp' \<le> 1" using e(5) unknown by (meson not_le)
  with r(1) reply(1) e show ?thesis by blast
qed

end
